(* ===== verification/Prelude.thy ===== *)
theory Prelude
  imports Main "HOL-Library.AList" "HOL-Library.Char_ord" "HOL-Library.List_Lexorder"
    "HOL-Library.Product_Lexorder" "HOL-Library.Multiset" "HOL-Library.Word"
begin

text \<open>
  Shared vocabulary of the development: Go's time values, the cluster key both packages use,
  buffered channels, decimal and hexadecimal rendering (\<open>fmt\<close>'s \<open>%d\<close>,
  \<open>encoding/hex\<close>), and the generic facts about lists, association lists and maps that the
  component theories share. Go strings are byte strings, so they are \<open>string\<close> and compare
  lexicographically byte by byte (\<open>List_Lexorder\<close>, \<open>Char_ord\<close>).
\<close>

section \<open>Collections of facts\<close>

named_theorems frame_simps \<open>which fields an operation leaves alone\<close>
named_theorems inv_intros \<open>operations that keep a component invariant\<close>

section \<open>Time\<close>

text \<open>
  A \<open>time.Time\<close> is the number of nanoseconds since Go's zero time, so the zero value is 0 and
  \<open>a.Before(b)\<close> is \<open>a < b\<close>; a \<open>time.Duration\<close> is a number of nanoseconds.
\<close>

type_synonym time = int
type_synonym duration = int

definition Second :: duration where "Second = 1000000000"
definition Millisecond :: duration where "Millisecond = 1000000"
definition Minute :: duration where "Minute = 60 * Second"

lemmas time_units = Second_def Millisecond_def Minute_def

section \<open>The cluster key\<close>

text \<open>\<open>type clusterKey struct\<close> of \<open>internal/discovery\<close> and of \<open>internal/observer\<close>.\<close>

datatype clusterKey = ClusterKey (ck_namespace: string) (ck_name: string)

instantiation clusterKey :: linorder
begin

definition less_eq_clusterKey :: "clusterKey \<Rightarrow> clusterKey \<Rightarrow> bool" where
  "less_eq_clusterKey a b \<longleftrightarrow> (ck_namespace a, ck_name a) \<le> (ck_namespace b, ck_name b)"

definition less_clusterKey :: "clusterKey \<Rightarrow> clusterKey \<Rightarrow> bool" where
  "less_clusterKey a b \<longleftrightarrow> (ck_namespace a, ck_name a) < (ck_namespace b, ck_name b)"

instance
proof
  fix x y z :: clusterKey
  show "(x < y) = (x \<le> y \<and> \<not> y \<le> x)"
    by (simp add: less_eq_clusterKey_def less_clusterKey_def less_le_not_le)
  show "x \<le> x" by (simp add: less_eq_clusterKey_def)
  show "x \<le> y \<Longrightarrow> y \<le> z \<Longrightarrow> x \<le> z"
    unfolding less_eq_clusterKey_def by (rule order_trans)
  show "x \<le> y \<Longrightarrow> y \<le> x \<Longrightarrow> x = y"
    unfolding less_eq_clusterKey_def by (metis clusterKey.expand order_antisym prod.inject)
  show "x \<le> y \<or> y \<le> x"
    unfolding less_eq_clusterKey_def by (rule linear)
qed

end

text \<open>\<open>func (k clusterKey) String()\<close>: the informer's \<open>namespace/name\<close> key.\<close>

definition clusterKey_String :: "clusterKey \<Rightarrow> string" where
  "clusterKey_String k = ck_namespace k @ ''/'' @ ck_name k"

section \<open>Rendering numbers\<close>

definition digit_char :: "nat \<Rightarrow> char" where
  "digit_char d = char_of (48 + d)"

text \<open>\<open>fmt.Sprintf("%d", n)\<close> for an unsigned \<open>n\<close>.\<close>

fun show_nat :: "nat \<Rightarrow> string" where
  "show_nat n = (if n < 10 then [digit_char n] else show_nat (n div 10) @ [digit_char (n mod 10)])"

declare show_nat.simps [simp del]

definition char_digit :: "char \<Rightarrow> nat" where
  "char_digit c = of_char c - 48"

definition read_nat :: "string \<Rightarrow> nat" where
  "read_nat = foldl (\<lambda>a c. 10 * a + char_digit c) 0"

lemma char_digit_digit_char: "d < 10 \<Longrightarrow> char_digit (digit_char d) = d"
  by (simp add: char_digit_def digit_char_def of_char_of)

lemma read_show_nat: "read_nat (show_nat n) = n"
proof (induction n rule: show_nat.induct)
  case (1 n)
  show ?case
  proof (cases "n < 10")
    case True
    then show ?thesis
      by (simp add: show_nat.simps [of n] read_nat_def char_digit_digit_char)
  next
    case False
    with 1 have "read_nat (show_nat (n div 10)) = n div 10" by simp
    then show ?thesis using False
      by (simp add: show_nat.simps [of n] read_nat_def char_digit_digit_char)
  qed
qed

lemma show_nat_inject: "show_nat a = show_nat b \<longleftrightarrow> a = b"
  by (metis read_show_nat)

text \<open>\<open>hex.EncodeToString\<close>.\<close>

definition hex_digit :: "nat \<Rightarrow> char" where
  "hex_digit d = (if d < 10 then char_of (48 + d) else char_of (87 + d))"

definition hex_EncodeToString :: "8 word list \<Rightarrow> string" where
  "hex_EncodeToString bs = concat (map (\<lambda>b. [hex_digit (unat b div 16), hex_digit (unat b mod 16)]) bs)"

section \<open>Buffered channels\<close>

text \<open>
  A Go channel of capacity one: the pending element, and whether it has been closed. Sending on a
  closed channel panics, which the operations using it report as \<open>None\<close>.
\<close>

record 'a chan =
  slot :: "'a option"
  chClosed :: bool

definition make_chan :: "'a chan" where
  "make_chan = \<lparr>slot = None, chClosed = False\<rparr>"

section \<open>Association lists\<close>

text \<open>
  A Go map that the source iterates over is an association list with distinct keys: the order of
  the list is one of the iteration orders Go may choose.
\<close>

lemma map_of_update [simp]: "map_of (AList.update k v al) = (map_of al)(k \<mapsto> v)"
  by (rule AList.update_conv')

lemma map_of_delete [simp]: "map_of (AList.delete k al) = (map_of al)(k := None)"
  by (rule AList.delete_conv')

lemma distinct_keys_update:
  "distinct (map fst al) \<Longrightarrow> distinct (map fst (AList.update k v al))"
  by (rule AList.distinct_update)

lemma distinct_keys_delete:
  "distinct (map fst al) \<Longrightarrow> distinct (map fst (AList.delete k al))"
  by (rule AList.distinct_delete)

lemma map_of_eq_Some_iff_mem:
  "distinct (map fst al) \<Longrightarrow> map_of al k = Some v \<longleftrightarrow> (k, v) \<in> set al"
  by (rule map_of_eq_Some_iff)

section \<open>Lists\<close>

lemma set_map_filter: "set (List.map_filter f xs) = {y. \<exists>x\<in>set xs. f x = Some y}"
  by (induction xs) (auto simp: map_filter_simps split: option.splits)

lemma list_all_nth_iff: "list_all P xs \<longleftrightarrow> (\<forall>i<length xs. P (xs ! i))"
  by (rule list_all_length)

end
