(* ===== verification/Queue.thy ===== *)
theory Queue
  imports Prelude
begin

text \<open>
  The observation queue of \<open>internal/observer/queue.go\<close>: two FIFO lanes sharing one set of pending
  and active keys, so that a cluster has at most one observation in flight and one follow-up.
  Every method runs under the queue's mutex, so a concurrent execution is a sequence of these
  operations. \<open>Get\<close> and \<open>ShutDownWithDrain\<close> may wait on the condition variable: the model says
  when they wait, and counts the broadcasts that wake them.
\<close>

section \<open>State\<close>

definition urgentBurstLimit :: nat where "urgentBurstLimit = 8"

text \<open>
  \<open>entries\<close> maps a queued key to its list element. An element is the key together with the list it
  is linked into, because \<open>list.Remove\<close> ignores an element of another list. The maps whose length
  the code reads (\<open>entries\<close>, \<open>processing\<close>) are association lists. \<open>wakeups\<close> counts the calls of
  \<open>cond.Broadcast\<close>.
\<close>

datatype lane = Urgent | Background

record priorityQueue =
  urgent :: "clusterKey list"
  background :: "clusterKey list"
  entries :: "(clusterKey \<times> lane) list"
  dirty :: "clusterKey \<rightharpoonup> unit"
  processing :: "(clusterKey \<times> bool) list"
  promoted :: "clusterKey \<rightharpoonup> bool"
  burst :: nat
  shuttingDown :: bool
  drain :: bool
  wakeups :: nat

text \<open>Reading an absent key of a Go map of booleans gives \<open>false\<close>.\<close>

definition flagged :: "bool option \<Rightarrow> bool" where
  "flagged v \<longleftrightarrow> v = Some True"

definition Broadcast :: "priorityQueue \<Rightarrow> priorityQueue" where
  "Broadcast p = p\<lparr>wakeups := Suc (wakeups p)\<rparr>"

definition newObservationQueue :: priorityQueue where
  "newObservationQueue = \<lparr>urgent = [], background = [], entries = [], dirty = Map.empty, processing = [],
     promoted = Map.empty, burst = 0, shuttingDown = False, drain = False, wakeups = 0\<rparr>"

section \<open>Operations\<close>

definition promote :: "clusterKey \<Rightarrow> priorityQueue \<Rightarrow> priorityQueue" where
  "promote key p =
     (if shuttingDown p \<or> flagged (promoted p key) then p
      else let p = p\<lparr>promoted := (promoted p)(key \<mapsto> True)\<rparr> in
        (case map_of (entries p) key of
           None \<Rightarrow> p
         | Some e \<Rightarrow>
             let p = (if e = Background then p\<lparr>background := remove1 key (background p)\<rparr> else p);
                 p = p\<lparr>urgent := urgent p @ [key], entries := AList.update key Urgent (entries p)\<rparr>
             in Broadcast p))"

definition push :: "clusterKey \<Rightarrow> priorityQueue \<Rightarrow> priorityQueue" where
  "push key p =
     Broadcast
       (if flagged (promoted p key)
        then p\<lparr>urgent := urgent p @ [key], entries := AList.update key Urgent (entries p)\<rparr>
        else p\<lparr>background := background p @ [key], entries := AList.update key Background (entries p)\<rparr>)"

definition Add :: "clusterKey \<Rightarrow> priorityQueue \<Rightarrow> priorityQueue" where
  "Add key p =
     (if shuttingDown p then p
      else if dirty p key \<noteq> None then p
      else let p = p\<lparr>dirty := (dirty p)(key \<mapsto> ())\<rparr> in
        (if map_of (processing p) key = None then push key p else p))"

definition Len :: "priorityQueue \<Rightarrow> nat" where
  "Len p = length (entries p)"

text \<open>
  What a call of \<open>get\<close> does when it holds the mutex: it waits, or it returns the key and the
  shutdown flag. A waiting call runs the same test again after each broadcast.
\<close>

definition zeroKey :: clusterKey where "zeroKey = ClusterKey [] []"

datatype get_result = Waits | Returns clusterKey bool

definition get :: "bool \<Rightarrow> priorityQueue \<Rightarrow> get_result \<times> priorityQueue" where
  "get urgentOnly p =
     (if urgent p = [] \<and> (urgentOnly \<or> background p = []) then
        (if shuttingDown p then (Returns zeroKey True, p) else (Waits, p))
      else
        let isUrgent = (urgent p \<noteq> [] \<and> (urgentOnly \<or> burst p < urgentBurstLimit \<or> background p = []));
            key = (if isUrgent then hd (urgent p) else hd (background p));
            p = (if isUrgent then
                   p\<lparr>urgent := tl (urgent p),
                     burst := (if \<not> urgentOnly \<and> burst p < urgentBurstLimit then burst p + 1 else burst p)\<rparr>
                 else p\<lparr>background := tl (background p), burst := 0\<rparr>);
            p = p\<lparr>entries := AList.delete key (entries p), dirty := (dirty p)(key := None),
                  promoted := (promoted p)(key := None),
                  processing := AList.update key isUrgent (processing p)\<rparr>
        in (Returns key False, p))"

definition Get_queue :: "priorityQueue \<Rightarrow> get_result \<times> priorityQueue" where
  "Get_queue p = get False p"

definition GetUrgent :: "priorityQueue \<Rightarrow> get_result \<times> priorityQueue" where
  "GetUrgent p = get True p"

definition IsUrgent :: "clusterKey \<Rightarrow> priorityQueue \<Rightarrow> bool" where
  "IsUrgent key p = flagged (map_of (processing p) key)"

definition Done :: "clusterKey \<Rightarrow> priorityQueue \<Rightarrow> priorityQueue" where
  "Done key p =
     (if map_of (processing p) key = None then p
      else let p = p\<lparr>processing := AList.delete key (processing p)\<rparr>;
               p = (if dirty p key \<noteq> None then push key p else p)
           in Broadcast p)"

definition ShutDown :: "priorityQueue \<Rightarrow> priorityQueue" where
  "ShutDown p = Broadcast (p\<lparr>drain := False, shuttingDown := True\<rparr>)"

text \<open>
  \<open>ShutDownWithDrain\<close> makes the first change and then waits as long as \<open>drain_waits\<close> holds.
\<close>

definition ShutDownWithDrain :: "priorityQueue \<Rightarrow> priorityQueue" where
  "ShutDownWithDrain p = Broadcast (p\<lparr>drain := True, shuttingDown := True\<rparr>)"

definition drain_waits :: "priorityQueue \<Rightarrow> bool" where
  "drain_waits p \<longleftrightarrow> drain p \<and> (length (entries p) > 0 \<or> length (processing p) > 0)"

definition ShuttingDown :: "priorityQueue \<Rightarrow> bool" where
  "ShuttingDown p = shuttingDown p"

lemmas queue_defs = promote_def push_def Add_def Done_def ShutDown_def ShutDownWithDrain_def Broadcast_def Let_def

section \<open>Executions\<close>

text \<open>One critical section each; an execution is a list of them in the order they took the mutex.\<close>

datatype queue_op =
  PromoteOp clusterKey | AddOp clusterKey | GetOp bool | DoneOp clusterKey | ShutDownOp | DrainOp

fun queue_step :: "queue_op \<Rightarrow> priorityQueue \<Rightarrow> priorityQueue" where
  "queue_step (PromoteOp key) p = promote key p"
| "queue_step (AddOp key) p = Add key p"
| "queue_step (GetOp u) p = snd (get u p)"
| "queue_step (DoneOp key) p = Done key p"
| "queue_step ShutDownOp p = ShutDown p"
| "queue_step DrainOp p = ShutDownWithDrain p"

text \<open>The key an operation takes out of the queue.\<close>

fun taken :: "queue_op \<Rightarrow> priorityQueue \<Rightarrow> clusterKey option" where
  "taken (GetOp u) p = (case get u p of (Returns key False, _) \<Rightarrow> Some key | _ \<Rightarrow> None)"
| "taken _ p = None"

fun queue_run :: "queue_op list \<Rightarrow> priorityQueue \<Rightarrow> priorityQueue" where
  "queue_run [] p = p"
| "queue_run (x # xs) p = queue_run xs (queue_step x p)"

fun takes :: "queue_op list \<Rightarrow> priorityQueue \<Rightarrow> clusterKey list" where
  "takes [] p = []"
| "takes (x # xs) p = (case taken x p of None \<Rightarrow> [] | Some key \<Rightarrow> [key]) @ takes xs (queue_step x p)"

section \<open>Invariant\<close>

text \<open>
  The two lanes hold the keys of a set \<open>K\<close>, each once, in the lane its promotion asks for, and
  \<open>entries\<close> indexes them.
\<close>

definition lanes_ok :: "clusterKey set \<Rightarrow> priorityQueue \<Rightarrow> bool" where
  "lanes_ok K p \<longleftrightarrow>
     distinct (urgent p) \<and> distinct (background p) \<and>
     (\<forall>k. k \<in> set (urgent p) \<longleftrightarrow> k \<in> K \<and> flagged (promoted p k)) \<and>
     (\<forall>k. k \<in> set (background p) \<longleftrightarrow> k \<in> K \<and> \<not> flagged (promoted p k)) \<and>
     distinct (map fst (entries p)) \<and>
     (\<forall>k. map_of (entries p) k =
        (if k \<in> K then Some (if flagged (promoted p k) then Urgent else Background) else None))"

text \<open>The keys that can be taken: pending and not active.\<close>

definition available :: "priorityQueue \<Rightarrow> clusterKey set" where
  "available p = {k. dirty p k \<noteq> None \<and> map_of (processing p) k = None}"

definition queue_inv :: "priorityQueue \<Rightarrow> bool" where
  "queue_inv p \<longleftrightarrow> lanes_ok (available p) p \<and> distinct (map fst (processing p)) \<and> burst p \<le> urgentBurstLimit"

lemma lanes_okD:
  assumes "lanes_ok K p"
  shows "distinct (urgent p)" "distinct (background p)"
    "k \<in> set (urgent p) \<longleftrightarrow> k \<in> K \<and> flagged (promoted p k)"
    "k \<in> set (background p) \<longleftrightarrow> k \<in> K \<and> \<not> flagged (promoted p k)"
    "distinct (map fst (entries p))"
    "map_of (entries p) k = (if k \<in> K then Some (if flagged (promoted p k) then Urgent else Background) else None)"
  using assms unfolding lanes_ok_def by blast+

lemma lanes_push: "lanes_ok K p \<Longrightarrow> key \<notin> K \<Longrightarrow> lanes_ok (insert key K) (push key p)"
  unfolding lanes_ok_def push_def Broadcast_def by (auto simp: distinct_keys_update)

lemma lanes_frame:
  "urgent p = urgent q \<Longrightarrow> background p = background q \<Longrightarrow> entries p = entries q \<Longrightarrow> promoted p = promoted q \<Longrightarrow>
   lanes_ok K p = lanes_ok K q"
  by (simp add: lanes_ok_def)

lemma queue_inv_cong:
  assumes "queue_inv p" and "urgent q = urgent p" "background q = background p" "entries q = entries p"
    "promoted q = promoted p" "dirty q = dirty p" "processing q = processing p" "burst q = burst p"
  shows "queue_inv q"
  using assms(1) unfolding queue_inv_def available_def lanes_ok_def assms(2-) .

lemma queue_ops_frame [frame_simps]:
  "dirty (push key p) = dirty p" "processing (push key p) = processing p" "burst (push key p) = burst p"
  "promoted (push key p) = promoted p" "shuttingDown (push key p) = shuttingDown p" "drain (push key p) = drain p"
  "dirty (promote key p) = dirty p" "processing (promote key p) = processing p" "burst (promote key p) = burst p"
  "shuttingDown (promote key p) = shuttingDown p" "drain (promote key p) = drain p"
  "processing (Add key p) = processing p" "burst (Add key p) = burst p" "shuttingDown (Add key p) = shuttingDown p"
  "drain (Add key p) = drain p" "dirty (Done key p) = dirty p" "burst (Done key p) = burst p"
  "shuttingDown (Done key p) = shuttingDown p" "drain (Done key p) = drain p"
  by (simp_all add: queue_defs split: option.splits)

lemma new_inv [inv_intros]: "queue_inv newObservationQueue"
  by (simp add: queue_inv_def lanes_ok_def available_def newObservationQueue_def)

lemma promote_inv [inv_intros]:
  assumes "queue_inv p"
  shows "queue_inv (promote key p)"
proof -
  have l: "lanes_ok (available p) p" using assms by (simp add: queue_inv_def)
  have "lanes_ok (available p) (promote key p)"
    using l unfolding lanes_ok_def promote_def Let_def Broadcast_def flagged_def
    by (auto simp: distinct_keys_update)
  then show ?thesis using assms by (simp add: queue_inv_def available_def frame_simps)
qed

lemma Add_inv [inv_intros]:
  assumes "queue_inv p"
  shows "queue_inv (Add key p)"
proof (cases "shuttingDown p \<or> dirty p key \<noteq> None")
  case False
  let ?p = "p\<lparr>dirty := (dirty p)(key \<mapsto> ())\<rparr>"
  have l: "lanes_ok (available p) ?p" using assms by (simp add: queue_inv_def lanes_ok_def)
  have "available ?p = (if map_of (processing p) key = None then insert key (available p) else available p)"
    by (auto simp: available_def)
  moreover have "key \<notin> available p" using False by (simp add: available_def)
  ultimately have "lanes_ok (available (Add key p)) (Add key p)"
    using False l lanes_push [OF l] by (auto simp: Add_def Let_def available_def frame_simps)
  then show ?thesis using assms by (simp add: queue_inv_def frame_simps)
qed (use assms in \<open>auto simp: Add_def\<close>)

lemma Done_inv [inv_intros]:
  assumes "queue_inv p"
  shows "queue_inv (Done key p)"
proof (cases "map_of (processing p) key = None")
  case False
  let ?p = "p\<lparr>processing := AList.delete key (processing p)\<rparr>"
  have l: "lanes_ok (available p) ?p" using assms by (simp add: queue_inv_def lanes_ok_def)
  have "available ?p = (if dirty p key \<noteq> None then insert key (available p) else available p)"
    by (auto simp: available_def)
  moreover have "key \<notin> available p" using False by (simp add: available_def)
  moreover have "available (Done key p) = available ?p"
    using False by (auto simp: Done_def Let_def Broadcast_def available_def frame_simps)
  moreover have "lanes_ok (available ?p) (Done key p) = lanes_ok (available ?p) (if dirty p key \<noteq> None then push key ?p else ?p)"
    using False by (intro lanes_frame) (auto simp: Done_def Let_def Broadcast_def)
  ultimately have "lanes_ok (available (Done key p)) (Done key p)"
    using l lanes_push [OF l] by auto
  then show ?thesis using assms False
    by (simp add: queue_inv_def frame_simps Done_def Let_def Broadcast_def distinct_keys_delete)
qed (use assms in \<open>auto simp: Done_def\<close>)

lemma ShutDown_inv [inv_intros]: "queue_inv p \<Longrightarrow> queue_inv (ShutDown p)" "queue_inv p \<Longrightarrow> queue_inv (ShutDownWithDrain p)"
  by (rule queue_inv_cong; simp add: ShutDown_def ShutDownWithDrain_def Broadcast_def)+

text \<open>What a call of \<open>get\<close> that takes a key does.\<close>

lemma get_waits: "get u p = (Waits, p') \<longleftrightarrow> p' = p \<and> urgent p = [] \<and> (u \<or> background p = []) \<and> \<not> shuttingDown p"
  by (auto simp: get_def Let_def)

lemma get_takes:
  assumes "get u p = (Returns key False, p')"
  shows "(urgent p \<noteq> [] \<and> (u \<or> burst p < urgentBurstLimit \<or> background p = []) \<and> urgent p = key # urgent p' \<and>
           background p' = background p \<and> map_of (processing p') key = Some True \<and>
           burst p' = (if \<not> u \<and> burst p < urgentBurstLimit then burst p + 1 else burst p))
       \<or> (\<not> u \<and> (urgent p = [] \<or> burst p \<ge> urgentBurstLimit) \<and> background p = key # background p' \<and>
           urgent p' = urgent p \<and> map_of (processing p') key = Some False \<and> burst p' = 0)"
    and "entries p' = AList.delete key (entries p)" "dirty p' = (dirty p)(key := None)"
    and "promoted p' = (promoted p)(key := None)" "shuttingDown p' = shuttingDown p" "drain p' = drain p"
    and "\<And>k. k \<noteq> key \<Longrightarrow> map_of (processing p') k = map_of (processing p) k"
    and "\<exists>b. processing p' = AList.update key b (processing p)" and "wakeups p' = wakeups p"
  using assms by (auto simp: get_def Let_def split: if_splits)

lemma get_cases:
  obtains (waits) "get u p = (Waits, p)" | (closed) "get u p = (Returns zeroKey True, p)" "shuttingDown p"
  | (took) key p' where "get u p = (Returns key False, p')"
proof -
  consider "fst (get u p) = Waits \<and> snd (get u p) = p"
    | "fst (get u p) = Returns zeroKey True \<and> snd (get u p) = p \<and> shuttingDown p"
    | "\<exists>key. fst (get u p) = Returns key False"
    by (cases "urgent p = [] \<and> (u \<or> background p = [])"; cases "shuttingDown p") (auto simp: get_def Let_def)
  then show thesis by cases (metis prod.collapse waits closed took)+
qed

lemma get_available:
  assumes "queue_inv p" and "get u p = (Returns key False, p')"
  shows "key \<in> available p" "available p' = available p - {key}"
proof -
  have l: "lanes_ok (available p) p" using assms(1) by (simp add: queue_inv_def)
  have "key \<in> set (urgent p) \<or> key \<in> set (background p)" using get_takes(1) [OF assms(2)] by (metis list.set_intros(1))
  then show "key \<in> available p" using lanes_okD(3,4) [OF l] by blast
  then show "available p' = available p - {key}"
    using get_takes(3,7) [OF assms(2)] by (auto simp: available_def)
qed

lemma get_inv [inv_intros]:
  assumes "queue_inv p"
  shows "queue_inv (snd (get u p))"
proof (cases u p rule: get_cases)
  case (took key p')
  have l: "lanes_ok (available p) p" using assms by (simp add: queue_inv_def)
  note t = get_takes [OF took]
  have ls: "distinct (urgent p')" "distinct (background p')"
    "set (urgent p') = set (urgent p) - {key}" "set (background p') = set (background p) - {key}"
    using t(1) lanes_okD(1,2) [OF l] lanes_okD(3,4) [OF l, of key] by auto
  have "lanes_ok (available p - {key}) p'"
    unfolding lanes_ok_def t(2,4)
    using ls lanes_okD(3-6) [OF l] by (auto simp: distinct_keys_delete)
  moreover have "burst p' \<le> urgentBurstLimit" using t(1) assms by (auto simp: queue_inv_def urgentBurstLimit_def)
  moreover have "distinct (map fst (processing p'))"
    using t(8) assms by (auto simp: queue_inv_def distinct_keys_update)
  ultimately show ?thesis using get_available [OF assms took] took by (simp add: queue_inv_def)
qed (use assms in simp_all)

lemma queue_step_inv: "queue_inv p \<Longrightarrow> queue_inv (queue_step x p)"
  by (cases x) (auto intro: inv_intros)

lemma queue_run_inv: "queue_inv p \<Longrightarrow> queue_inv (queue_run xs p)"
  by (induction xs arbitrary: p) (auto intro: queue_step_inv)

section \<open>The contract of a coalescing work queue\<close>

text \<open>
  The contract the observer relies on: what is pending, what is active, and how an operation may
  change them. Taking a key moves it from pending to active, only the operations that finish a key
  end its activity, nothing else drops pending work, and a submission that is not refused is pending.
\<close>

locale coalescing_queue =
  fixes inv :: "'q \<Rightarrow> bool"
    and pending :: "'q \<Rightarrow> 'k set"
    and active :: "'q \<Rightarrow> 'k set"
    and step :: "'o \<Rightarrow> 'q \<Rightarrow> 'q"
    and takes_key :: "'o \<Rightarrow> 'q \<Rightarrow> 'k option"
    and finishes :: "'o \<Rightarrow> 'k option"
  assumes step_inv: "inv q \<Longrightarrow> inv (step x q)"
    and takes_pending: "inv q \<Longrightarrow> takes_key x q = Some k \<Longrightarrow> k \<in> pending q \<and> k \<notin> active q"
    and takes_step: "inv q \<Longrightarrow> takes_key x q = Some k \<Longrightarrow>
          pending (step x q) = pending q - {k} \<and> active (step x q) = insert k (active q)"
    and other_pending: "inv q \<Longrightarrow> takes_key x q = None \<Longrightarrow> pending q \<subseteq> pending (step x q)"
    and other_active: "inv q \<Longrightarrow> takes_key x q = None \<Longrightarrow>
          active (step x q) = active q - set_option (finishes x)"
begin

fun run :: "'o list \<Rightarrow> 'q \<Rightarrow> 'q" where
  "run [] q = q"
| "run (x # xs) q = run xs (step x q)"

fun taken_keys :: "'o list \<Rightarrow> 'q \<Rightarrow> 'k list" where
  "taken_keys [] q = []"
| "taken_keys (x # xs) q = (case takes_key x q of None \<Rightarrow> [] | Some k \<Rightarrow> [k]) @ taken_keys xs (step x q)"

lemma pending_or_taken:
  "inv q \<Longrightarrow> k \<in> pending q \<Longrightarrow> k \<in> pending (run xs q) \<or> k \<in> set (taken_keys xs q)"
proof (induction xs arbitrary: q)
  case (Cons x xs)
  show ?case
  proof (cases "takes_key x q = Some k")
    case False
    then have "k \<in> pending (step x q)"
      using Cons.prems takes_step [OF Cons.prems(1), of x] other_pending [OF Cons.prems(1), of x]
      by (cases "takes_key x q") auto
    then show ?thesis using Cons.IH [OF step_inv [OF Cons.prems(1)]] by auto
  qed simp
qed simp

lemma takes_bounded_by_finishes:
  "inv q \<Longrightarrow> count_list (taken_keys xs q) k + of_bool (k \<in> active q)
     \<le> length (filter (\<lambda>x. finishes x = Some k) xs) + of_bool (k \<in> active (run xs q))"
proof (induction xs arbitrary: q)
  case (Cons x xs)
  note IH = Cons.IH [OF step_inv [OF Cons.prems, of x]]
  show ?case
  proof (cases "takes_key x q")
    case None
    then have "active (step x q) = active q - set_option (finishes x)" using other_active [OF Cons.prems] by blast
    then show ?thesis using IH None by (auto simp: of_bool_def split: if_splits)
  next
    case (Some j)
    note t = takes_pending [OF Cons.prems Some] takes_step [OF Cons.prems Some]
    then show ?thesis using IH Some by (auto simp: of_bool_def split: if_splits)
  qed
qed simp

end

fun finished_key :: "queue_op \<Rightarrow> clusterKey option" where
  "finished_key (DoneOp key) = Some key"
| "finished_key _ = None"

definition active_keys :: "priorityQueue \<Rightarrow> clusterKey set" where
  "active_keys p = fst ` set (processing p)"

lemma active_keys_iff: "k \<in> active_keys p \<longleftrightarrow> map_of (processing p) k \<noteq> None"
  by (simp add: active_keys_def map_of_eq_None_iff)

lemma taken_Some: "taken x p = Some key \<longleftrightarrow> (\<exists>u p'. x = GetOp u \<and> get u p = (Returns key False, p'))"
  by (cases x) (auto split: prod.splits get_result.splits bool.splits)

lemma taken_None_get: "taken (GetOp u) p = None \<Longrightarrow> snd (get u p) = p"
  by (cases u p rule: get_cases) auto

lemma taken_key_available: "queue_inv p \<Longrightarrow> taken x p = Some key \<Longrightarrow> dirty p key \<noteq> None \<and> key \<notin> active_keys p"
  using get_available(1) by (auto simp: taken_Some available_def active_keys_iff)

lemma taken_step:
  assumes "taken x p = Some key"
  shows "dirty (queue_step x p) = (dirty p)(key := None)" "active_keys (queue_step x p) = insert key (active_keys p)"
proof -
  from assms obtain u p' where x: "x = GetOp u" "get u p = (Returns key False, p')" by (auto simp: taken_Some)
  note t = get_takes [OF x(2)]
  show "dirty (queue_step x p) = (dirty p)(key := None)" using t(3) x by simp
  have "map_of (processing p') key \<noteq> None" using t(1) by auto
  with t(7) have "k \<in> active_keys p' \<longleftrightarrow> k = key \<or> k \<in> active_keys p" for k
    unfolding active_keys_iff by (cases "k = key") simp_all
  then show "active_keys (queue_step x p) = insert key (active_keys p)" using x by auto
qed

lemma Add_dirty: "dirty (Add key p) = (if shuttingDown p \<or> dirty p key \<noteq> None then dirty p else (dirty p)(key \<mapsto> ()))"
  by (simp add: Add_def Let_def frame_simps)

lemma Done_processing: "processing (Done key p) = (if map_of (processing p) key = None then processing p else AList.delete key (processing p))"
  by (simp add: Done_def Let_def Broadcast_def frame_simps)

lemma other_step:
  assumes "taken x p = None"
  shows "dom (dirty p) \<subseteq> dom (dirty (queue_step x p))"
    and "active_keys (queue_step x p) = active_keys p - set_option (finished_key x)"
proof -
  show "dom (dirty p) \<subseteq> dom (dirty (queue_step x p))"
    using assms taken_None_get
    by (cases x) (auto simp: frame_simps Add_dirty ShutDown_def ShutDownWithDrain_def Broadcast_def simp del: taken.simps)
  show "active_keys (queue_step x p) = active_keys p - set_option (finished_key x)"
    using assms taken_None_get
    by (cases x) (auto simp: frame_simps active_keys_iff Done_processing ShutDown_def ShutDownWithDrain_def Broadcast_def
        simp del: taken.simps split: if_splits)
qed

interpretation wq: coalescing_queue queue_inv "\<lambda>p. dom (dirty p)" active_keys queue_step taken finished_key
proof (unfold_locales, goal_cases)
  case (1 q x)
  then show ?case by (rule queue_step_inv)
next
  case (2 q x k)
  then show ?case using taken_key_available by blast
next
  case (3 q x k)
  then show ?case using taken_step by auto
next
  case (4 q x)
  then show ?case using other_step(1) by blast
next
  case (5 q x)
  then show ?case using other_step(2) by blast
qed

lemma wq_run: "wq.run xs p = queue_run xs p" "wq.taken_keys xs p = takes xs p"
  by (induction xs arbitrary: p) auto

section \<open>Fairness between the lanes\<close>

text \<open>
  How many more calls of \<open>Get\<close> a key may see pass before it is its turn, from the number of keys
  in front of it in its lane and the current burst.
\<close>

definition background_rank :: "clusterKey list \<Rightarrow> priorityQueue \<Rightarrow> nat" where
  "background_rank pre p = Suc urgentBurstLimit * length pre + (urgentBurstLimit - burst p) + 1"

definition urgent_rank :: "clusterKey list \<Rightarrow> priorityQueue \<Rightarrow> nat" where
  "urgent_rank pre p = 2 * length pre + of_bool (burst p \<ge> urgentBurstLimit) + 1"

lemma push_lanes:
  "urgent (push key p) = (if flagged (promoted p key) then urgent p @ [key] else urgent p)"
  "background (push key p) = (if flagged (promoted p key) then background p else background p @ [key])"
  by (simp_all add: push_def Broadcast_def)

lemma lanes_append:
  "taken x p = None \<Longrightarrow> \<exists>ys. urgent (queue_step x p) = urgent p @ ys"
  "taken x p = None \<Longrightarrow> x \<noteq> PromoteOp key \<Longrightarrow> background p = pre @ key # post \<Longrightarrow>
     \<exists>pre' post'. background (queue_step x p) = pre' @ key # post' \<and> length pre' \<le> length pre"
  "taken x p = None \<Longrightarrow> burst (queue_step x p) = burst p"
proof -
  assume n: "taken x p = None"
  show "\<exists>ys. urgent (queue_step x p) = urgent p @ ys" "burst (queue_step x p) = burst p"
    using n taken_None_get by (cases x; auto simp: queue_defs simp del: taken.simps split: option.splits)+
  assume x: "x \<noteq> PromoteOp key" and b: "background p = pre @ key # post"
  have "\<exists>pre' post'. remove1 j (pre @ key # post) = pre' @ key # post' \<and> length pre' \<le> length pre" if "j \<noteq> key" for j
    using that by (cases "j \<in> set pre") (auto simp: remove1_append length_remove1 intro: exI [of _ "remove1 j pre"] exI [of _ pre])
  with x b show "\<exists>pre' post'. background (queue_step x p) = pre' @ key # post' \<and> length pre' \<le> length pre"
    using n taken_None_get
    by (cases x) (auto simp: queue_defs simp del: taken.simps split: option.splits)
qed

lemma background_rank_step:
  assumes inv: "queue_inv p" and b: "background p = pre @ key # post" and x: "x \<noteq> PromoteOp key"
  shows "taken x p = Some key \<or> (\<exists>pre' post'. background (queue_step x p) = pre' @ key # post' \<and>
           background_rank pre' (queue_step x p) + of_bool (x = GetOp False) \<le> background_rank pre p)"
proof (cases "taken x p")
  case None
  then have "x \<noteq> GetOp False" using b by (auto simp: get_def Let_def)
  with lanes_append(2) [OF None x b] lanes_append(3) [OF None] show ?thesis
    by (auto simp: background_rank_def) (metis add_le_mono1 mult_le_mono2 mult_Suc add.commute)
next
  case (Some j)
  then obtain u p' where u: "x = GetOp u" "get u p = (Returns j False, p')" by (auto simp: taken_Some)
  have le: "burst p \<le> urgentBurstLimit" using inv by (simp add: queue_inv_def)
  from get_takes(1) [OF u(2)] show ?thesis
  proof (rule disjE, goal_cases)
    case 1
    then show ?case using u b by (intro disjI2 exI [of _ pre] exI [of _ post]) (auto simp: background_rank_def)
  next
    case 2
    then have t: "\<not> u" "background p = j # background p'" "burst p' = 0" by simp_all
    show ?case
    proof (cases pre)
      case Nil
      then show ?thesis using t b u Some by auto
    next
      case (Cons a pre')
      then have "background p' = pre' @ key # post" using t b by simp
      then show ?thesis using u t Cons le
        by (intro disjI2 exI [of _ pre'] exI [of _ post]) (auto simp: background_rank_def)
    qed
  qed
qed

lemma urgent_rank_step:
  assumes inv: "queue_inv p" and b: "urgent p = pre @ key # post"
  shows "taken x p = Some key \<or> (\<exists>pre' post'. urgent (queue_step x p) = pre' @ key # post' \<and>
           urgent_rank pre' (queue_step x p) + of_bool (x = GetOp True \<or> x = GetOp False) \<le> urgent_rank pre p)"
proof (cases "taken x p")
  case None
  then have "x \<noteq> GetOp False" "x \<noteq> GetOp True" using b by (auto simp: get_def Let_def)
  with lanes_append(1,3) [OF None] b show ?thesis by (auto simp: urgent_rank_def)
next
  case (Some j)
  then obtain u p' where u: "x = GetOp u" "get u p = (Returns j False, p')" by (auto simp: taken_Some)
  from get_takes(1) [OF u(2)] show ?thesis
  proof (rule disjE, goal_cases)
    case 1
    then have t: "urgent p = j # urgent p'" "burst p' = (if \<not> u \<and> burst p < urgentBurstLimit then burst p + 1 else burst p)"
      by simp_all
    show ?case
    proof (cases pre)
      case Nil
      then show ?thesis using t b u Some by auto
    next
      case (Cons a pre')
      then have "urgent p' = pre' @ key # post" using t b by simp
      then show ?thesis using u t Cons
        by (intro disjI2 exI [of _ pre'] exI [of _ post]) (auto simp: urgent_rank_def)
    qed
  next
    case 2
    then show ?case using u b
      by (intro disjI2 exI [of _ pre] exI [of _ post]) (auto simp: urgent_rank_def urgentBurstLimit_def)
  qed
qed

lemma background_fair:
  "queue_inv p \<Longrightarrow> background p = pre @ key # post \<Longrightarrow> PromoteOp key \<notin> set xs \<Longrightarrow>
   background_rank pre p \<le> length (filter (\<lambda>x. x = GetOp False) xs) \<Longrightarrow> key \<in> set (takes xs p)"
proof (induction xs arbitrary: p pre post)
  case (Cons x xs)
  then have "x \<noteq> PromoteOp key" by auto
  from background_rank_step [OF Cons.prems(1,2) this] show ?case
  proof (elim disjE exE conjE)
    fix pre' post'
    assume s: "background (queue_step x p) = pre' @ key # post'"
      and r: "background_rank pre' (queue_step x p) + of_bool (x = GetOp False) \<le> background_rank pre p"
    have "key \<in> set (takes xs (queue_step x p))"
      by (rule Cons.IH [OF queue_step_inv [OF Cons.prems(1)] s]) (use Cons.prems(3,4) r in \<open>auto split: if_splits\<close>)
    then show ?thesis by simp
  qed simp
qed (simp add: background_rank_def)

lemma urgent_fair:
  "queue_inv p \<Longrightarrow> urgent p = pre @ key # post \<Longrightarrow>
   urgent_rank pre p \<le> length (filter (\<lambda>x. x = GetOp True \<or> x = GetOp False) xs) \<Longrightarrow> key \<in> set (takes xs p)"
proof (induction xs arbitrary: p pre post)
  case (Cons x xs)
  from urgent_rank_step [OF Cons.prems(1,2), of x] show ?case
  proof (elim disjE exE conjE)
    fix pre' post'
    assume s: "urgent (queue_step x p) = pre' @ key # post'"
      and r: "urgent_rank pre' (queue_step x p) + of_bool (x = GetOp True \<or> x = GetOp False) \<le> urgent_rank pre p"
    have "key \<in> set (takes xs (queue_step x p))"
      by (rule Cons.IH [OF queue_step_inv [OF Cons.prems(1)] s]) (use Cons.prems(3) r in \<open>auto split: if_splits\<close>)
    then show ?thesis by simp
  qed simp
qed (simp add: urgent_rank_def)

end
