(* ===== verification/Queue_Props.thy ===== *)
theory Queue_Props
  imports Queue
begin

text \<open>
  What the observation queue promises its workers, in every execution from a new queue: one
  observation in flight per cluster, no accepted work lost, bounded waiting in both lanes, no lost
  wakeup, and a drain that ends.
\<close>

section \<open>A concrete run\<close>

definition key_a :: clusterKey where "key_a = ClusterKey ''db'' ''a''"
definition key_b :: clusterKey where "key_b = ClusterKey ''db'' ''b''"
definition key_c :: clusterKey where "key_c = ClusterKey ''db'' ''c''"

text \<open>Two background keys, one urgent one; the first background key is active and dirty again.\<close>

definition sample_queue :: priorityQueue where
  "sample_queue = queue_run [AddOp key_a, GetOp False, AddOp key_a, AddOp key_b, PromoteOp key_c, AddOp key_c] newObservationQueue"

definition nine_gets :: "queue_op list" where
  "nine_gets = replicate 9 (GetOp False)"

lemma sample_queue_inv: "queue_inv sample_queue"
  unfolding sample_queue_def by (rule queue_run_inv [OF new_inv])

lemma sample_queue_lanes: "urgent sample_queue = [key_c]" "background sample_queue = [key_b]"
  "takes nine_gets sample_queue = [key_c, key_b]"
  by code_simp+

section \<open>One observation in flight\<close>

text \<open>
  A cluster has at most one observation in flight. In any execution from a new queue, however
  many workers of both classes call it, a key is handed out at most once more than it has been
  reported done, and while it is active it cannot be handed out again.
\<close>

theorem one_in_flight:
  "count_list (takes xs newObservationQueue) key \<le> length (filter (\<lambda>x. x = DoneOp key) xs) + 1 \<and>
   (key \<in> active_keys (queue_run xs newObservationQueue) \<longrightarrow>
      (\<forall>u. taken (GetOp u) (queue_run xs newObservationQueue) \<noteq> Some key))"
proof (intro conjI impI allI notI)
  have "(finished_key x = Some key) = (x = DoneOp key)" for x by (cases x) auto
  then show "count_list (takes xs newObservationQueue) key \<le> length (filter (\<lambda>x. x = DoneOp key) xs) + 1"
    using wq.takes_bounded_by_finishes [OF new_inv, of xs key] by (simp add: wq_run of_bool_def split: if_splits)
next
  fix u
  assume "key \<in> active_keys (queue_run xs newObservationQueue)"
    and "taken (GetOp u) (queue_run xs newObservationQueue) = Some key"
  with taken_key_available [OF queue_run_inv [OF new_inv]] show False by blast
qed

theorem one_in_flight_witness:
  "key_a \<in> active_keys sample_queue \<and> (\<forall>u. taken (GetOp u) sample_queue \<noteq> Some key_a)"
proof -
  have "key_a \<in> active_keys sample_queue" by code_simp
  then show ?thesis
    using one_in_flight [of "[AddOp key_a, GetOp False, AddOp key_a, AddOp key_b, PromoteOp key_c, AddOp key_c]" key_a]
    by (simp add: sample_queue_def)
qed

section \<open>No lost work\<close>

lemma Add_accepts: "\<not> shuttingDown p \<Longrightarrow> dirty (Add key p) key \<noteq> None"
  by (simp add: Add_dirty)

lemma available_eq: "available p = dom (dirty p) - active_keys p"
  unfolding available_def active_keys_iff set_eq_iff by (simp add: dom_def active_keys_iff)

lemma pending_served:
  assumes "queue_inv p" and "dirty p key \<noteq> None" and "key \<notin> active_keys p"
  shows "key \<in> set (urgent p) \<union> set (background p)"
proof -
  have "lanes_ok (available p) p" "key \<in> available p"
    using assms by (auto simp: queue_inv_def available_eq)
  then show ?thesis using lanes_okD(3,4) by auto
qed

text \<open>
  C16: an accepted event is never lost. After \<open>Add\<close> on a queue that is not shutting down, and any
  operations after it, the key has been handed to a worker since, or it is still pending; and
  a pending key that is not active waits in one of the lanes, so a worker can take it.
\<close>

theorem accepted_not_lost:
  assumes "queue_inv p" and "\<not> shuttingDown p"
  shows "key \<in> set (takes xs (Add key p)) \<or>
     dirty (queue_run xs (Add key p)) key \<noteq> None \<and>
     (key \<in> active_keys (queue_run xs (Add key p)) \<or>
      key \<in> set (urgent (queue_run xs (Add key p))) \<union> set (background (queue_run xs (Add key p))))"
proof -
  have inv: "queue_inv (Add key p)" by (rule Add_inv [OF assms(1)])
  have "key \<in> dom (dirty (Add key p))" using Add_accepts [OF assms(2)] by auto
  from wq.pending_or_taken [OF inv this, of xs] pending_served [OF queue_run_inv [OF inv, of xs], of key]
  show ?thesis by (auto simp: wq_run)
qed

definition served_run :: "queue_op list" where
  "served_run = [DoneOp key_a, GetOp False, GetOp False, GetOp False]"

theorem accepted_not_lost_witness:
  "\<not> shuttingDown sample_queue \<and> key_a \<in> set (takes served_run (Add key_a sample_queue))"
proof -
  have "\<not> shuttingDown sample_queue" "dirty (queue_run served_run (Add key_a sample_queue)) key_a = None" by code_simp+
  with accepted_not_lost [OF sample_queue_inv, of key_a served_run] show ?thesis by simp
qed

section \<open>Bounded waiting\<close>

text \<open>
  C29: background work is not starved. A key with \<open>n\<close> keys before it in the background lane is
  handed out within \<open>9 (n + 1)\<close> calls of \<open>Get\<close> by ordinary workers, whatever urgent work arrives
  and whatever else happens in between, unless it is promoted to the urgent lane meanwhile.
\<close>

theorem background_not_starved:
  assumes "queue_inv p" and "background p = pre @ key # post" and "PromoteOp key \<notin> set xs"
    and "9 * (length pre + 1) \<le> length (filter (\<lambda>x. x = GetOp False) xs)"
  shows "key \<in> set (takes xs p)"
  by (rule background_fair [OF assms(1-3)]) (use assms(4) in \<open>simp add: background_rank_def urgentBurstLimit_def\<close>)

theorem background_not_starved_witness:
  "background sample_queue = [] @ key_b # [] \<and> key_b \<in> set (takes nine_gets sample_queue)"
  using background_not_starved [OF sample_queue_inv, of "[]" key_b "[]" nine_gets] sample_queue_lanes(2)
  by (simp add: nine_gets_def)

text \<open>
  Urgent work waits for a bounded number of dequeues only. A key with \<open>n\<close> keys before it in the
  urgent lane is handed out within \<open>2 (n + 1)\<close> calls of \<open>Get\<close> or \<open>GetUrgent\<close>, because an ordinary
  worker takes at most one background key between two urgent ones.
\<close>

theorem urgent_served_promptly:
  assumes "queue_inv p" and "urgent p = pre @ key # post"
    and "2 * (length pre + 1) \<le> length (filter (\<lambda>x. x = GetOp True \<or> x = GetOp False) xs)"
  shows "key \<in> set (takes xs p)"
  by (rule urgent_fair [OF assms(1,2)]) (use assms(3) in \<open>simp add: urgent_rank_def\<close>)

theorem urgent_served_promptly_witness:
  "urgent sample_queue = [] @ key_c # [] \<and> key_c \<in> set (takes [GetOp False, GetOp True] sample_queue)"
  using urgent_served_promptly [OF sample_queue_inv, of "[]" key_c "[]" "[GetOp False, GetOp True]"] sample_queue_lanes(1)
  by simp

section \<open>Waking waiters\<close>

text \<open>
  No wakeup is lost. Whenever an operation ends the condition a waiting \<open>Get\<close>, \<open>GetUrgent\<close> or
  \<open>ShutDownWithDrain\<close> waits on, it broadcasts on the queue's condition variable.
\<close>

theorem no_lost_wakeup:
  "(fst (get u p) = Waits \<and> fst (get u (queue_step x p)) \<noteq> Waits \<longrightarrow> wakeups p < wakeups (queue_step x p)) \<and>
   (drain_waits p \<and> \<not> drain_waits (queue_step x p) \<longrightarrow> wakeups p < wakeups (queue_step x p))"
proof (cases "\<exists>v. x = GetOp v")
  case True
  then obtain v where x: "x = GetOp v" ..
  show ?thesis
  proof (cases v p rule: get_cases)
    case (took key p')
    have "\<not> (urgent p = [] \<and> background p = [])" using get_takes(1) [OF took] by auto
    moreover have "fst (get u p) = Waits \<longrightarrow> fst (get u p') = Waits"
    proof
      assume "fst (get u p) = Waits"
      then have w: "urgent p = []" "u \<or> background p = []" "\<not> shuttingDown p"
        using get_waits [of u p "snd (get u p)"] by (metis prod.collapse)+
      then have "urgent p' = []" "u \<or> background p' = []" "\<not> shuttingDown p'" using get_takes(1,5) [OF took] by auto
      then show "fst (get u p') = Waits" by (simp add: get_def)
    qed
    moreover have "processing p' \<noteq> []" using get_takes(1) [OF took] by auto
    ultimately show ?thesis using x took get_takes(6) [OF took] by (auto simp: drain_waits_def)
  qed (use x in auto)
next
  case False
  then show ?thesis
    by (cases x) (auto simp: queue_defs get_def drain_waits_def split: option.splits if_splits)
qed

theorem no_lost_wakeup_witness:
  "fst (get True newObservationQueue) = Waits \<and>
   wakeups (queue_run [PromoteOp key_c] newObservationQueue) < wakeups (queue_run [PromoteOp key_c, AddOp key_c] newObservationQueue)"
proof -
  let ?p = "queue_run [PromoteOp key_c] newObservationQueue"
  have "fst (get True newObservationQueue) = Waits" "fst (get True ?p) = Waits"
    "fst (get True (queue_step (AddOp key_c) ?p)) \<noteq> Waits" by code_simp+
  with no_lost_wakeup [of True ?p "AddOp key_c"] show ?thesis by simp
qed

section \<open>Draining\<close>

text \<open>The dequeues and completions still to come: two for a pending key, one for an active one.\<close>

definition work_left :: "priorityQueue \<Rightarrow> nat" where
  "work_left p = 2 * card (dom (dirty p)) + card (active_keys p)"

definition works :: "queue_op \<Rightarrow> priorityQueue \<Rightarrow> bool" where
  "works x p \<longleftrightarrow> taken x p \<noteq> None \<or> (\<exists>key\<in>active_keys p. x = DoneOp key)"

lemma dirty_finite:
  assumes "queue_inv p"
  shows "finite (dom (dirty p))"
proof (rule finite_subset)
  show "dom (dirty p) \<subseteq> set (urgent p) \<union> set (background p) \<union> active_keys p"
    using pending_served [OF assms] by blast
qed (simp add: active_keys_def)

lemma work_left_step:
  assumes inv: "queue_inv p" and sd: "shuttingDown p"
  shows "work_left (queue_step x p) + of_bool (works x p) = work_left p"
proof (cases "taken x p")
  case (Some key)
  have "key \<in> dom (dirty p)" "key \<notin> active_keys p" using taken_key_available [OF inv Some] by auto
  moreover from this(1) have "card (dom (dirty p)) > 0" using dirty_finite [OF inv] by (auto simp: card_gt_0_iff)
  ultimately show ?thesis
    using dirty_finite [OF inv] taken_step [OF Some]
    by (simp add: work_left_def works_def Some active_keys_def card_Diff_singleton)
next
  case None
  have d: "dirty (queue_step x p) = dirty p"
    using None sd taken_None_get [of _ p]
    by (cases x) (auto simp: frame_simps Add_dirty ShutDown_def ShutDownWithDrain_def Broadcast_def simp del: taken.simps)
  have a: "active_keys (queue_step x p) = active_keys p - set_option (finished_key x)" by (rule other_step(2) [OF None])
  have f: "finite (active_keys p)" by (simp add: active_keys_def)
  show ?thesis
  proof (cases "works x p")
    case True
    then obtain key where k: "key \<in> active_keys p" "x = DoneOp key" using None by (auto simp: works_def)
    then have "card (active_keys p) > 0" using f by (auto simp: card_gt_0_iff)
    then show ?thesis using True k d a f by (simp add: work_left_def)
  next
    case False
    then have "active_keys p - set_option (finished_key x) = active_keys p"
      by (cases x) (auto simp: works_def)
    then show ?thesis using False d a by (simp add: work_left_def)
  qed
qed

lemma work_left_zero:
  assumes inv: "queue_inv p"
  shows "work_left p > 0 \<longleftrightarrow> entries p \<noteq> [] \<or> processing p \<noteq> []"
proof -
  have l: "lanes_ok (available p) p" using inv by (simp add: queue_inv_def)
  have e: "entries p = [] \<longleftrightarrow> available p = {}"
    using lanes_okD(6) [OF l] by (metis empty_iff ex_in_conv map_of.simps(1) map_of_eq_empty_iff option.distinct(1) ext)
  have "work_left p > 0 \<longleftrightarrow> dom (dirty p) \<noteq> {} \<or> active_keys p \<noteq> {}"
    using dirty_finite [OF inv] by (auto simp: work_left_def active_keys_def card_gt_0_iff)
  also have "\<dots> \<longleftrightarrow> available p \<noteq> {} \<or> active_keys p \<noteq> {}"
    by (auto simp: available_eq)
  also have "\<dots> \<longleftrightarrow> entries p \<noteq> [] \<or> processing p \<noteq> []"
    using e by (auto simp: active_keys_def)
  finally show ?thesis .
qed

text \<open>
  C30: draining ends. While a drain waits, the finite amount of work left is positive; no operation
  increases it, every dequeue and every completion of active work decreases it by one, and some
  such operation is possible: a completion, or a dequeue by an ordinary worker. When it is used up
  the drain stops waiting.
\<close>

theorem drain_ends:
  assumes "queue_inv p" and "shuttingDown p" and "drain p"
  shows "(drain_waits p \<longleftrightarrow> work_left p > 0) \<and>
     (\<forall>x. work_left (queue_step x p) + of_bool (works x p) = work_left p) \<and>
     (drain_waits p \<longrightarrow> (\<exists>key\<in>active_keys p. works (DoneOp key) p) \<or> works (GetOp False) p)"
proof (intro conjI allI impI)
  show w: "drain_waits p \<longleftrightarrow> work_left p > 0"
    using work_left_zero [OF assms(1)] assms(3) by (auto simp: drain_waits_def)
  show "work_left (queue_step x p) + of_bool (works x p) = work_left p" for x
    by (rule work_left_step [OF assms(1,2)])
  assume "drain_waits p"
  show "(\<exists>key\<in>active_keys p. works (DoneOp key) p) \<or> works (GetOp False) p"
  proof (cases "active_keys p = {}")
    case True
    then have "dom (dirty p) \<noteq> {}"
      using \<open>drain_waits p\<close> w by (auto simp: work_left_def)
    then have "urgent p \<noteq> [] \<or> background p \<noteq> []" using pending_served [OF assms(1)] True by fastforce
    then have "taken (GetOp False) p \<noteq> None" by (auto simp: get_def Let_def)
    then show ?thesis by (simp add: works_def)
  qed (auto simp: works_def)
qed

theorem drain_ends_witness:
  "drain_waits (ShutDownWithDrain sample_queue) \<and> work_left (ShutDownWithDrain sample_queue) > 0"
proof -
  have "queue_inv (ShutDownWithDrain sample_queue)" by (rule ShutDown_inv(2) [OF sample_queue_inv])
  moreover have "shuttingDown (ShutDownWithDrain sample_queue)" "drain (ShutDownWithDrain sample_queue)"
    "drain_waits (ShutDownWithDrain sample_queue)" by code_simp+
  ultimately show ?thesis using drain_ends [of "ShutDownWithDrain sample_queue"] by blast
qed

end
