(* ===== verification/Go_Json.thy ===== *)
theory Go_Json
  imports Prelude "HOL-Library.Finite_Map"
begin

text \<open>
  The part of \<open>encoding/json\<close> the program uses. Splitting text into a JSON value and the rest of the
  text is a parameter (\<open>scan\<close>), so nothing proved here depends on the lexical grammar; storing a value into a
  Go variable (null handling, field matching, integer ranges) is modelled, because the program's
  accepted inputs depend on it. Dynamic Go values (\<open>any\<close>) of unstructured Kubernetes objects are
  \<open>goany\<close>; a Go map is a finite map, so \<open>reflect.DeepEqual\<close> is equality.
\<close>

section \<open>JSON text\<close>

text \<open>A parsed JSON value: numbers keep their literal, objects their entries in textual order.\<close>

datatype json =
  JNull | JBool bool | JNumber string | JString string | JArray "json list" | JObject "(string \<times> json) list"

type_synonym json_scanner = "string \<Rightarrow> (json \<times> string) option"

definition only_space :: "string \<Rightarrow> bool" where
  "only_space s \<longleftrightarrow> list_all (\<lambda>c. c \<in> {CHR '' '', CHR 0x09, CHR 0x0A, CHR 0x0D}) s"

text \<open>\<open>json.Unmarshal\<close> accepts exactly one value surrounded by white space.\<close>

definition json_document :: "json_scanner \<Rightarrow> string \<Rightarrow> json option" where
  "json_document scan s =
     (case scan s of Some (v, rest) \<Rightarrow> if only_space rest then Some v else None | None \<Rightarrow> None)"

section \<open>Storing a value\<close>

text \<open>
  A JSON null leaves a string, integer or boolean alone and makes a slice or map nil. A mismatch of
  types is an error; the partly filled variable beside the error is never read by the program.
\<close>

fun decode_string :: "json \<Rightarrow> string \<Rightarrow> string option" where
  "decode_string (JString s) _ = Some s"
| "decode_string JNull old = Some old"
| "decode_string _ _ = None"

fun decode_bool :: "json \<Rightarrow> bool \<Rightarrow> bool option" where
  "decode_bool (JBool b) _ = Some b"
| "decode_bool JNull old = Some old"
| "decode_bool _ _ = None"

fun decode_bool_pointer :: "json \<Rightarrow> bool option \<Rightarrow> bool option option" where
  "decode_bool_pointer (JBool b) _ = Some (Some b)"
| "decode_bool_pointer JNull _ = Some None"
| "decode_bool_pointer _ _ = None"

definition is_digit :: "char \<Rightarrow> bool" where
  "is_digit c \<longleftrightarrow> 48 \<le> (of_char c :: nat) \<and> (of_char c :: nat) \<le> 57"

text \<open>\<open>strconv.ParseUint\<close> and \<open>strconv.ParseInt\<close> in base 10 on a JSON number literal.\<close>

definition read_decimal :: "string \<Rightarrow> int" where
  "read_decimal = foldl (\<lambda>a c. 10 * a + int (char_digit c)) 0"

definition ParseUint :: "string \<Rightarrow> int option" where
  "ParseUint s = (if s \<noteq> [] \<and> list_all is_digit s \<and> read_decimal s < 2 ^ 64 then Some (read_decimal s) else None)"

definition ParseInt :: "string \<Rightarrow> int option" where
  "ParseInt s =
     (case s of
        CHR ''-'' # ds \<Rightarrow> (case ParseUint ds of Some n \<Rightarrow> if n \<le> 2 ^ 63 then Some (- n) else None | None \<Rightarrow> None)
      | _ \<Rightarrow> (case ParseUint s of Some n \<Rightarrow> if n < 2 ^ 63 then Some n else None | None \<Rightarrow> None))"

fun decode_uint16 :: "json \<Rightarrow> 16 word \<Rightarrow> 16 word option" where
  "decode_uint16 (JNumber s) _ =
     (case ParseUint s of Some n \<Rightarrow> if n < 2 ^ 16 then Some (of_int n) else None | None \<Rightarrow> None)"
| "decode_uint16 JNull old = Some old"
| "decode_uint16 _ _ = None"

fun decode_int :: "json \<Rightarrow> int \<Rightarrow> int option" where
  "decode_int (JNumber s) _ = ParseInt s"
| "decode_int JNull old = Some old"
| "decode_int _ _ = None"

fun decode_list :: "(json \<Rightarrow> 'a option) \<Rightarrow> json list \<Rightarrow> 'a list option" where
  "decode_list f [] = Some []"
| "decode_list f (v # vs) =
     (case f v of None \<Rightarrow> None
      | Some a \<Rightarrow> (case decode_list f vs of None \<Rightarrow> None | Some as \<Rightarrow> Some (a # as)))"

text \<open>
  A slice is filled with elements that start from zero. When a key occurs twice in an object, \<open>encoding/json\<close> may decode
  over the elements of the first value, so that what the second leaves out survives; that corner is not modelled.
\<close>

fun decode_slice :: "(json \<Rightarrow> 'a option) \<Rightarrow> json \<Rightarrow> 'a list option" where
  "decode_slice f (JArray vs) = decode_list f vs"
| "decode_slice f JNull = Some []"
| "decode_slice f _ = None"

text \<open>An object stored into a map keeps the entries already there; null makes the map nil.\<close>

fun decode_map_entries :: "(json \<Rightarrow> 'a option) \<Rightarrow> (string \<times> json) list \<Rightarrow> (string, 'a) fmap \<Rightarrow> (string, 'a) fmap option" where
  "decode_map_entries f [] m = Some m"
| "decode_map_entries f ((k, v) # kvs) m =
     (case f v of None \<Rightarrow> None | Some a \<Rightarrow> decode_map_entries f kvs (fmupd k a m))"

fun decode_map :: "(json \<Rightarrow> 'a option) \<Rightarrow> json \<Rightarrow> (string, 'a) fmap \<Rightarrow> (string, 'a) fmap option option" where
  "decode_map f (JObject kvs) m = map_option Some (decode_map_entries f kvs m)"
| "decode_map f JNull m = Some None"
| "decode_map f _ m = None"

text \<open>
  Matching an object key to a struct field: the exact name first, else the name with the same case
  folding. All field names are ASCII, and the only other characters that fold to ASCII letters are
  U+017F and U+212A (in UTF-8, C5 BF and E2 84 AA).
\<close>

definition upper_char :: "char \<Rightarrow> char" where
  "upper_char c = (if 97 \<le> (of_char c :: nat) \<and> (of_char c :: nat) \<le> 122 then char_of ((of_char c :: nat) - 32) else c)"

fun foldName :: "string \<Rightarrow> string" where
  "foldName [] = []"
| "foldName (c # cs) =
     (case cs of
        CHR 0xBF # ds \<Rightarrow> if c = CHR 0xC5 then CHR ''S'' # foldName ds else upper_char c # foldName cs
      | CHR 0x84 # CHR 0xAA # ds \<Rightarrow> if c = CHR 0xE2 then CHR ''K'' # foldName ds else upper_char c # foldName cs
      | _ \<Rightarrow> upper_char c # foldName cs)"

definition match_field :: "string list \<Rightarrow> string \<Rightarrow> string option" where
  "match_field names key =
     (if key \<in> set names then Some key else List.find (\<lambda>n. foldName n = foldName key) names)"

section \<open>Dynamic values\<close>

text \<open>The values an unstructured object holds; a float64 is its bit pattern.\<close>

datatype goany =
  ANull | ABool bool | AInt int | AFloat "64 word" | AString string | ASlice "goany list" | AMap "(string, goany) fmap"

type_synonym gomap = "(string, goany) fmap"

text \<open>The checked type assertion \<open>v.(map[string]any)\<close>.\<close>

fun as_map :: "goany \<Rightarrow> gomap option" where
  "as_map (AMap m) = Some m"
| "as_map _ = None"

fun as_slice :: "goany \<Rightarrow> goany list option" where
  "as_slice (ASlice vs) = Some vs"
| "as_slice _ = None"

end
