(* ===== verification/Api_Types.thy ===== *)
theory Api_Types
  imports Prelude
begin

text \<open>
  The discovery protocol's data: \<open>api/v1/types.go\<close>, the generated protobuf messages of
  \<open>api/connect/v1/topology.pb.go\<close> and the conversion \<open>toProto\<close> of
  \<open>internal/discovery/grpc.go\<close>. Field names carry a letter for the struct they belong to,
  since Go's structs share names (\<open>Name\<close>, \<open>Reason\<close>). Nil and empty slices or maps are not
  distinguished: every reader in the repository treats them alike.
\<close>

section \<open>api/v1/types.go\<close>

definition APIVersion :: string where
  "APIVersion = ''connect.cnpg.io/v1alpha1''"

record v1_ClusterRef =
  rNamespace :: string
  rName :: string
  rUID :: string

record v1_Endpoint =
  eHost :: string
  ePort :: "16 word"
  eServerName :: string

record v1_Member =
  mID :: string
  mName :: string
  mRole :: string
  mSyncState :: string
  mReady :: bool
  mReason :: string
  mEndpoints :: "string \<rightharpoonup> v1_Endpoint"
  mNode :: string
  mZone :: string
  mRegion :: string
  mTimeline :: int
  mReplayLSN :: string

record v1_ConnectionParameters =
  cDatabase :: string
  cServerCAPEM :: string

record v1_Snapshot =
  sAPIVersion :: string
  sCluster :: v1_ClusterRef
  sRevision :: string
  sObservedAt :: time
  sValidUntil :: time
  sAvailable :: bool
  sReason :: string
  sPrimaryID :: string
  sTransitioning :: bool
  sMembers :: "v1_Member list"
  sConnection :: v1_ConnectionParameters

text \<open>Go's zero values.\<close>

definition zero_ClusterRef :: v1_ClusterRef where
  "zero_ClusterRef = \<lparr>rNamespace = [], rName = [], rUID = []\<rparr>"

definition zero_Connection :: v1_ConnectionParameters where
  "zero_Connection = \<lparr>cDatabase = [], cServerCAPEM = []\<rparr>"

definition zero_Endpoint :: v1_Endpoint where
  "zero_Endpoint = \<lparr>eHost = [], ePort = 0, eServerName = []\<rparr>"

definition zero_Snapshot :: v1_Snapshot where
  "zero_Snapshot = \<lparr>sAPIVersion = [], sCluster = zero_ClusterRef, sRevision = [],
     sObservedAt = 0, sValidUntil = 0, sAvailable = False, sReason = [], sPrimaryID = [],
     sTransitioning = False, sMembers = [], sConnection = zero_Connection\<rparr>"

definition zero_Member :: v1_Member where
  "zero_Member = \<lparr>mID = [], mName = [], mRole = [], mSyncState = [], mReady = False,
     mReason = [], mEndpoints = Map.empty, mNode = [], mZone = [], mRegion = [],
     mTimeline = 0, mReplayLSN = []\<rparr>"

text \<open>The store's key of a snapshot: \<open>clusterKey{Cluster.Namespace, Cluster.Name}\<close>.\<close>

definition snapshot_key :: "v1_Snapshot \<Rightarrow> clusterKey" where
  "snapshot_key s = ClusterKey (rNamespace (sCluster s)) (rName (sCluster s))"

text \<open>
  A snapshot offers no route when nothing in it may be connected to: it is unavailable, names no
  primary and marks no member ready.
\<close>

definition withdrawn :: "v1_Snapshot \<Rightarrow> bool" where
  "withdrawn s \<longleftrightarrow> \<not> sAvailable s \<and> sPrimaryID s = [] \<and> (\<forall>m\<in>set (sMembers s). \<not> mReady m)"

section \<open>The protobuf messages\<close>

datatype pb_Role = ROLE_UNKNOWN | ROLE_PRIMARY | ROLE_STANDBY

datatype pb_SyncState =
    SYNC_STATE_UNKNOWN | SYNC_STATE_SYNC | SYNC_STATE_QUORUM | SYNC_STATE_POTENTIAL
  | SYNC_STATE_ASYNC

record pb_ClusterRef =
  pbNamespace :: string
  pbName :: string
  pbUid :: string

record pb_Endpoint =
  pbHost :: string
  pbPort :: "32 word"
  pbServerName :: string

record pb_Member =
  pbMemberId :: string
  pbMemberName :: string
  pbRole :: pb_Role
  pbSyncState :: pb_SyncState
  pbReady :: bool
  pbMemberReason :: string
  pbEndpoints :: "string \<rightharpoonup> pb_Endpoint"
  pbNode :: string
  pbZone :: string
  pbRegion :: string
  pbTimeline :: int
  pbReplayLsn :: string

record pb_ConnectionParameters =
  pbDatabase :: string
  pbServerCaPem :: string

text \<open>The type parameter is the protobuf library's \<open>Timestamp\<close>.\<close>

record 'ts pb_Snapshot =
  pbApiVersion :: string
  pbCluster :: pb_ClusterRef
  pbRevision :: string
  pbObservedAt :: 'ts
  pbValidUntil :: 'ts
  pbAvailable :: bool
  pbReason :: string
  pbPrimaryId :: string
  pbTransitioning :: bool
  pbMembers :: "pb_Member list"
  pbConnection :: pb_ConnectionParameters

section \<open>toProto\<close>

definition roleToProto :: "string \<Rightarrow> pb_Role" where
  "roleToProto role =
     (if role = ''primary'' then ROLE_PRIMARY
      else if role = ''standby'' then ROLE_STANDBY
      else ROLE_UNKNOWN)"

definition syncToProto :: "string \<Rightarrow> pb_SyncState" where
  "syncToProto state =
     (if state = ''sync'' then SYNC_STATE_SYNC
      else if state = ''quorum'' then SYNC_STATE_QUORUM
      else if state = ''potential'' then SYNC_STATE_POTENTIAL
      else if state = ''async'' then SYNC_STATE_ASYNC
      else SYNC_STATE_UNKNOWN)"

definition endpointToProto :: "v1_Endpoint \<Rightarrow> pb_Endpoint" where
  "endpointToProto e = \<lparr>pbHost = eHost e, pbPort = ucast (ePort e), pbServerName = eServerName e\<rparr>"

definition memberToProto :: "v1_Member \<Rightarrow> pb_Member" where
  "memberToProto m =
     \<lparr>pbMemberId = mID m, pbMemberName = mName m, pbRole = roleToProto (mRole m),
      pbSyncState = syncToProto (mSyncState m), pbReady = mReady m, pbMemberReason = mReason m,
      pbEndpoints = (\<lambda>network. map_option endpointToProto (mEndpoints m network)),
      pbNode = mNode m, pbZone = mZone m, pbRegion = mRegion m, pbTimeline = mTimeline m,
      pbReplayLsn = mReplayLSN m\<rparr>"

text \<open>\<open>tsNew\<close> stands for the protobuf library's \<open>timestamppb.New\<close>.\<close>

definition toProto :: "(time \<Rightarrow> 'ts) \<Rightarrow> v1_Snapshot \<Rightarrow> 'ts pb_Snapshot" where
  "toProto tsNew s =
     \<lparr>pbApiVersion = sAPIVersion s,
      pbCluster = \<lparr>pbNamespace = rNamespace (sCluster s), pbName = rName (sCluster s),
                   pbUid = rUID (sCluster s)\<rparr>,
      pbRevision = sRevision s,
      pbObservedAt = tsNew (sObservedAt s),
      pbValidUntil = tsNew (sValidUntil s),
      pbAvailable = sAvailable s,
      pbReason = sReason s,
      pbPrimaryId = sPrimaryID s,
      pbTransitioning = sTransitioning s,
      pbMembers = map memberToProto (sMembers s),
      pbConnection = \<lparr>pbDatabase = cDatabase (sConnection s),
                      pbServerCaPem = cServerCAPEM (sConnection s)\<rparr>\<rparr>"

section \<open>The wire form loses nothing\<close>

text \<open>The strings \<open>api/v1\<close> allows for a role and a sync state.\<close>

definition legal_roles :: "string set" where
  "legal_roles = {''primary'', ''standby'', ''unknown''}"

definition legal_sync_states :: "string set" where
  "legal_sync_states = {''sync'', ''quorum'', ''potential'', ''async'', ''unknown''}"

definition legal_member :: "v1_Member \<Rightarrow> bool" where
  "legal_member m \<longleftrightarrow> mRole m \<in> legal_roles \<and> mSyncState m \<in> legal_sync_states"

lemma roleToProto_inj: "inj_on roleToProto legal_roles"
  by (auto simp: inj_on_def legal_roles_def roleToProto_def)

lemma syncToProto_inj: "inj_on syncToProto legal_sync_states"
  by (auto simp: inj_on_def legal_sync_states_def syncToProto_def)

lemma port_widen_inj:
  assumes "(ucast a :: 32 word) = ucast (b :: 16 word)"
  shows "a = b"
proof -
  have "(ucast (ucast x :: 32 word) :: 16 word) = x" for x :: "16 word"
    by (rule ucast_up_ucast_id) (simp add: is_up)
  with assms show ?thesis by metis
qed

lemma endpointToProto_inj: "inj endpointToProto"
  by (auto simp: inj_on_def endpointToProto_def dest: port_widen_inj)

lemma map_option_fun_inj:
  assumes "inj f" and "(\<lambda>k. map_option f (a k)) = (\<lambda>k. map_option f (b k))"
  shows "a = b"
proof
  fix k
  from assms(2) have "map_option f (a k) = map_option f (b k)" by meson
  then show "a k = b k" using assms(1) by (metis option.inj_map_strong inj_eq)
qed

lemma memberToProto_inj: "inj_on memberToProto (Collect legal_member)"
proof (rule inj_onI)
  fix a b assume l: "a \<in> Collect legal_member" "b \<in> Collect legal_member"
    and eq: "memberToProto a = memberToProto b"
  have r: "mRole a = mRole b"
    using roleToProto_inj l eq by (auto simp: legal_member_def memberToProto_def dest: inj_onD)
  have s: "mSyncState a = mSyncState b"
    using syncToProto_inj l eq by (auto simp: legal_member_def memberToProto_def dest: inj_onD)
  have e: "mEndpoints a = mEndpoints b"
    by (rule map_option_fun_inj [OF endpointToProto_inj]) (use eq in \<open>simp add: memberToProto_def\<close>)
  show "a = b" using r s e eq by (simp add: memberToProto_def)
qed

end
