(* ===== verification/Config.thy ===== *)
theory Config
  imports Go_Json Api_Types
begin

text \<open>
  Cluster parameters: \<open>internal/config/cluster.go\<close>. Parsing ranges over Go maps twice, in an order
  Go does not specify; the order is a parameter, and acceptance is shown not to depend on it.
\<close>

section \<open>Library functions used\<close>

text \<open>
  \<open>scan\<close> is the JSON scanner, \<open>ParseIP\<close> whether \<open>net.ParseIP\<close> accepts a text, \<open>ToLower\<close> is
  \<open>strings.ToLower\<close>, and \<open>range_order\<close> the order in which a map with given keys is iterated over.
\<close>

record golib =
  scan :: json_scanner
  ParseIP :: "string \<Rightarrow> bool"
  ToLower :: "string \<Rightarrow> string"
  range_order :: "string set \<Rightarrow> string list"

text \<open>A \<open>range\<close> over a map visits each key once.\<close>

definition ranges_over_keys :: "golib \<Rightarrow> bool" where
  "ranges_over_keys L \<longleftrightarrow> (\<forall>K. finite K \<longrightarrow> distinct (range_order L K) \<and> set (range_order L K) = K)"

definition ContainsAny :: "string \<Rightarrow> string \<Rightarrow> bool" where
  "ContainsAny s chars \<longleftrightarrow> list_ex (\<lambda>c. c \<in> set chars) s"

text \<open>\<open>net.JoinHostPort\<close> with the port printed by \<open>strconv.Itoa\<close>.\<close>

definition JoinHostPort :: "string \<Rightarrow> 16 word \<Rightarrow> string" where
  "JoinHostPort host port =
     (if CHR '':'' \<in> set host then ''['' @ host @ '']:'' @ show_nat (unat port) else host @ '':'' @ show_nat (unat port))"

section \<open>Parameters\<close>

definition PluginName :: string where "PluginName = ''connect.cnpg.io''"
definition EnabledAnnotation :: string where "EnabledAnnotation = PluginName @ ''/enabled''"
definition ParametersAnnotation :: string where "ParametersAnnotation = PluginName @ ''/parameters''"

text \<open>\<open>ExternalEndpoints\<close> is \<open>None\<close> when the Go map is nil.\<close>

record Parameters =
  ExternalEndpoints :: "(string, v1_Endpoint) fmap option"
  ServerName :: string

definition zero_Parameters :: Parameters where
  "zero_Parameters = \<lparr>ExternalEndpoints = None, ServerName = []\<rparr>"

datatype config_error =
    InvalidJSON | TrailingJSON | InvalidServerName | UnknownParameter string | InvalidEndpoint string
  | HostHasPort string | InvalidEndpointServerName string | SharedAddress string string

text \<open>One entry of the \<open>externalEndpoints\<close> object; unknown fields are refused.\<close>

fun decode_endpoint_fields :: "(string \<times> json) list \<Rightarrow> v1_Endpoint \<Rightarrow> v1_Endpoint option" where
  "decode_endpoint_fields [] e = Some e"
| "decode_endpoint_fields ((k, v) # kvs) e =
     (case match_field [''host'', ''port'', ''serverName''] k of
        None \<Rightarrow> None
      | Some f \<Rightarrow>
          (if f = ''host'' then
             (case decode_string v (eHost e) of None \<Rightarrow> None | Some s \<Rightarrow> decode_endpoint_fields kvs (e\<lparr>eHost := s\<rparr>))
           else if f = ''port'' then
             (case decode_uint16 v (ePort e) of None \<Rightarrow> None | Some n \<Rightarrow> decode_endpoint_fields kvs (e\<lparr>ePort := n\<rparr>))
           else
             (case decode_string v (eServerName e) of
                None \<Rightarrow> None | Some s \<Rightarrow> decode_endpoint_fields kvs (e\<lparr>eServerName := s\<rparr>))))"

fun decode_endpoint :: "json \<Rightarrow> v1_Endpoint option" where
  "decode_endpoint (JObject kvs) = decode_endpoint_fields kvs zero_Endpoint"
| "decode_endpoint JNull = Some zero_Endpoint"
| "decode_endpoint _ = None"

definition forbidden :: string where
  "forbidden = ''/ '' @ [CHR 0x5C] @ ''?#@'' @ [CHR 0x09, CHR 0x0D, CHR 0x0A]"

definition bad_serverName :: "string \<Rightarrow> bool" where
  "bad_serverName s \<longleftrightarrow> ContainsAny s (CHR '':'' # forbidden)"

text \<open>The first loop: one parameter, its effect on \<open>p\<close>.\<close>

definition parse_parameter :: "golib \<Rightarrow> string \<Rightarrow> string \<Rightarrow> Parameters \<Rightarrow> config_error + Parameters" where
  "parse_parameter L key value p =
     (if key = ''externalEndpoints'' then
        (case scan L value of
           None \<Rightarrow> Inl InvalidJSON
         | Some (v, rest) \<Rightarrow>
             (case decode_map decode_endpoint v (case ExternalEndpoints p of None \<Rightarrow> fmempty | Some m \<Rightarrow> m) of
                None \<Rightarrow> Inl InvalidJSON
              | Some m \<Rightarrow> if only_space rest then Inr (p\<lparr>ExternalEndpoints := m\<rparr>) else Inl TrailingJSON))
      else if key = ''serverName'' then
        (if value = [] \<or> bad_serverName value then Inl InvalidServerName else Inr (p\<lparr>ServerName := value\<rparr>))
      else Inl (UnknownParameter key))"

fun parse_values :: "golib \<Rightarrow> (string, string) fmap \<Rightarrow> string list \<Rightarrow> Parameters \<Rightarrow> config_error + Parameters" where
  "parse_values L values [] p = Inr p"
| "parse_values L values (key # keys) p =
     (case parse_parameter L key (the (fmlookup values key)) p of
        Inl e \<Rightarrow> Inl e
      | Inr p' \<Rightarrow> parse_values L values keys p')"

text \<open>The second loop: one endpoint, against the addresses seen so far.\<close>

definition endpoint_address :: "golib \<Rightarrow> v1_Endpoint \<Rightarrow> string" where
  "endpoint_address L e = JoinHostPort (ToLower L (eHost e)) (ePort e)"

definition endpoint_error :: "golib \<Rightarrow> string \<Rightarrow> v1_Endpoint \<Rightarrow> config_error option" where
  "endpoint_error L name e =
     (if name = [] \<or> eHost e = [] \<or> ePort e = 0 \<or> ContainsAny (eHost e) forbidden then Some (InvalidEndpoint name)
      else if CHR '':'' \<in> set (eHost e) \<and> \<not> ParseIP L (eHost e) then Some (HostHasPort name)
      else if bad_serverName (eServerName e) then Some (InvalidEndpointServerName name)
      else None)"

fun check_endpoints ::
  "golib \<Rightarrow> (string, v1_Endpoint) fmap \<Rightarrow> string list \<Rightarrow> (string \<rightharpoonup> string) \<Rightarrow> config_error option" where
  "check_endpoints L m [] addresses = None"
| "check_endpoints L m (name # names) addresses =
     (let e = the (fmlookup m name) in
        case endpoint_error L name e of
          Some err \<Rightarrow> Some err
        | None \<Rightarrow>
            (let address = endpoint_address L e in
               case addresses address of
                 Some previous \<Rightarrow> Some (SharedAddress previous name)
               | None \<Rightarrow> check_endpoints L m names (addresses(address \<mapsto> name))))"

definition ParseParameters :: "golib \<Rightarrow> (string, string) fmap \<Rightarrow> config_error + Parameters" where
  "ParseParameters L values =
     (case parse_values L values (range_order L (fmdom' values)) \<lparr>ExternalEndpoints = Some fmempty, ServerName = []\<rparr> of
        Inl e \<Rightarrow> Inl e
      | Inr p \<Rightarrow>
          (let m = (case ExternalEndpoints p of None \<Rightarrow> fmempty | Some m \<Rightarrow> m) in
             case check_endpoints L m (range_order L (fmdom' m)) Map.empty of
               Some e \<Rightarrow> Inl e
             | None \<Rightarrow> Inr p))"

section \<open>The specification\<close>

definition endpoints_of :: "Parameters \<Rightarrow> (string, v1_Endpoint) fmap" where
  "endpoints_of p = (case ExternalEndpoints p of None \<Rightarrow> fmempty | Some m \<Rightarrow> m)"

text \<open>
  What is accepted, with no order: only known parameters, a well-formed server name, a single JSON
  object of well-formed endpoints, and no two instances with one address.
\<close>

definition parsed_endpoints :: "golib \<Rightarrow> string \<Rightarrow> (string, v1_Endpoint) fmap option option" where
  "parsed_endpoints L value =
     (case json_document (scan L) value of None \<Rightarrow> None | Some v \<Rightarrow> decode_map decode_endpoint v fmempty)"

definition accepts :: "golib \<Rightarrow> (string, string) fmap \<Rightarrow> Parameters \<Rightarrow> bool" where
  "accepts L values p \<longleftrightarrow>
     fmdom' values \<subseteq> {''externalEndpoints'', ''serverName''} \<and>
     (case fmlookup values ''externalEndpoints'' of
        None \<Rightarrow> ExternalEndpoints p = Some fmempty
      | Some v \<Rightarrow> parsed_endpoints L v = Some (ExternalEndpoints p)) \<and>
     (case fmlookup values ''serverName'' of
        None \<Rightarrow> ServerName p = []
      | Some v \<Rightarrow> v \<noteq> [] \<and> \<not> bad_serverName v \<and> ServerName p = v) \<and>
     (\<forall>name e. fmlookup (endpoints_of p) name = Some e \<longrightarrow> endpoint_error L name e = None) \<and>
     (\<forall>n1 e1 n2 e2. fmlookup (endpoints_of p) n1 = Some e1 \<and> fmlookup (endpoints_of p) n2 = Some e2 \<and>
        endpoint_address L e1 = endpoint_address L e2 \<longrightarrow> n1 = n2)"

lemma check_endpoints_None:
  assumes "set names \<subseteq> fmdom' m" and "distinct names"
  shows "check_endpoints L m names addresses = None \<longleftrightarrow>
    (\<forall>name\<in>set names. endpoint_error L name (the (fmlookup m name)) = None \<and>
       addresses (endpoint_address L (the (fmlookup m name))) = None) \<and>
    inj_on (\<lambda>name. endpoint_address L (the (fmlookup m name))) (set names)"
  using assms
proof (induction names arbitrary: addresses)
  case (Cons name names)
  then show ?case
    by (auto simp: Let_def split: option.splits if_splits) (metis image_eqI)
qed simp

lemma ball_fmdom: "(\<forall>k\<in>fmdom' m. P k (the (fmlookup m k))) \<longleftrightarrow> (\<forall>k v. fmlookup m k = Some v \<longrightarrow> P k v)"
  unfolding Ball_def fmlookup_dom'_iff by (metis option.sel)

lemma inj_on_fmdom:
  "inj_on (\<lambda>k. f (the (fmlookup m k))) (fmdom' m) \<longleftrightarrow>
     (\<forall>k1 v1 k2 v2. fmlookup m k1 = Some v1 \<and> fmlookup m k2 = Some v2 \<and> f v1 = f v2 \<longrightarrow> k1 = k2)"
  unfolding inj_on_def by (auto simp: fmlookup_dom'_iff)

lemma parse_parameter_Inr:
  assumes "key = ''externalEndpoints'' \<longrightarrow> ExternalEndpoints p = Some fmempty"
  shows "parse_parameter L key v p = Inr q \<longleftrightarrow>
    key = ''externalEndpoints'' \<and> parsed_endpoints L v = Some (ExternalEndpoints q) \<and> ServerName q = ServerName p \<or>
    key = ''serverName'' \<and> v \<noteq> [] \<and> \<not> bad_serverName v \<and> ServerName q = v \<and> ExternalEndpoints q = ExternalEndpoints p"
proof -
  have eq: "p\<lparr>ExternalEndpoints := m\<rparr> = q \<longleftrightarrow> ExternalEndpoints q = m \<and> ServerName q = ServerName p"
    "p\<lparr>ServerName := s\<rparr> = q \<longleftrightarrow> ServerName q = s \<and> ExternalEndpoints q = ExternalEndpoints p" for m s
    by (cases p; cases q; auto)+
  show ?thesis using assms
    by (auto simp: parse_parameter_def parsed_endpoints_def json_document_def eq split: if_splits option.splits prod.splits)
qed

lemma parse_parameter_other:
  "key \<noteq> ''externalEndpoints'' \<Longrightarrow> parse_parameter L key v p = Inr p' \<Longrightarrow> ExternalEndpoints p' = ExternalEndpoints p"
  "key \<noteq> ''serverName'' \<Longrightarrow> parse_parameter L key v p = Inr p' \<Longrightarrow> ServerName p' = ServerName p"
  by (auto simp: parse_parameter_def split: if_splits option.splits prod.splits)

text \<open>What ranging over the keys \<open>K\<close> makes of \<open>p\<close>.\<close>

definition ranged :: "golib \<Rightarrow> (string, string) fmap \<Rightarrow> string set \<Rightarrow> Parameters \<Rightarrow> Parameters \<Rightarrow> bool" where
  "ranged L values K p q \<longleftrightarrow>
     K \<subseteq> {''externalEndpoints'', ''serverName''} \<and>
     (if ''externalEndpoints'' \<in> K
      then parsed_endpoints L (the (fmlookup values ''externalEndpoints'')) = Some (ExternalEndpoints q)
      else ExternalEndpoints q = ExternalEndpoints p) \<and>
     (if ''serverName'' \<in> K
      then the (fmlookup values ''serverName'') \<noteq> [] \<and> \<not> bad_serverName (the (fmlookup values ''serverName'')) \<and>
           ServerName q = the (fmlookup values ''serverName'')
      else ServerName q = ServerName p)"

lemma ranged_insert:
  assumes "key \<notin> K" and p: "key = ''externalEndpoints'' \<longrightarrow> ExternalEndpoints p = Some fmempty"
  shows "ranged L values (insert key K) p q \<longleftrightarrow>
    (\<exists>p'. parse_parameter L key (the (fmlookup values key)) p = Inr p' \<and> ranged L values K p' q)"
proof
  assume r: "ranged L values (insert key K) p q"
  let ?p = "\<lparr>ExternalEndpoints = if key = ''externalEndpoints'' then ExternalEndpoints q else ExternalEndpoints p,
             ServerName = if key = ''serverName'' then ServerName q else ServerName p\<rparr>"
  have "parse_parameter L key (the (fmlookup values key)) p = Inr ?p"
    unfolding parse_parameter_Inr [OF p] using r by (auto simp: ranged_def split: if_splits)
  moreover have "ranged L values K ?p q" using r assms(1) by (auto simp: ranged_def split: if_splits)
  ultimately show "\<exists>p'. parse_parameter L key (the (fmlookup values key)) p = Inr p' \<and> ranged L values K p' q" by blast
next
  assume "\<exists>p'. parse_parameter L key (the (fmlookup values key)) p = Inr p' \<and> ranged L values K p' q"
  then show "ranged L values (insert key K) p q"
    unfolding parse_parameter_Inr [OF p] using assms(1) by (auto simp: ranged_def split: if_splits)
qed

lemma parse_values_Inr:
  "distinct keys \<Longrightarrow> (''externalEndpoints'' \<in> set keys \<longrightarrow> ExternalEndpoints p = Some fmempty) \<Longrightarrow>
   parse_values L values keys p = Inr q \<longleftrightarrow> ranged L values (set keys) p q"
proof (induction keys arbitrary: p)
  case Nil
  then show ?case by (cases p; cases q; auto simp: ranged_def)
next
  case (Cons key keys)
  have IH: "parse_values L values keys p' = Inr q \<longleftrightarrow> ranged L values (set keys) p' q"
    if pp: "parse_parameter L key (the (fmlookup values key)) p = Inr p'" for p'
  proof (rule Cons.IH)
    show "distinct keys" using Cons.prems by simp
    show "''externalEndpoints'' \<in> set keys \<longrightarrow> ExternalEndpoints p' = Some fmempty"
      using Cons.prems parse_parameter_other(1) [OF _ pp] by (cases "key = ''externalEndpoints''") auto
  qed
  have "parse_values L values (key # keys) p = Inr q \<longleftrightarrow>
      (\<exists>p'. parse_parameter L key (the (fmlookup values key)) p = Inr p' \<and> parse_values L values keys p' = Inr q)"
    by (simp split: sum.splits)
  also have "\<dots> \<longleftrightarrow> ranged L values (insert key (set keys)) p q"
    using Cons.prems IH by (subst ranged_insert) auto
  finally show ?case by simp
qed

text \<open>
  C36: parameters are accepted exactly when they satisfy the order-free specification, and then
  the parsed value is the specified one: the outcome does not depend on the order in which Go ranges
  over its maps, every accepted endpoint has an instance name, a host without separators, a nonzero
  port and a plain server name, and two instances never share an address.
\<close>

theorem ParseParameters_exact:
  assumes "ranges_over_keys L"
  shows "ParseParameters L values = Inr p \<longleftrightarrow> accepts L values p"
proof -
  let ?p0 = "\<lparr>ExternalEndpoints = Some fmempty, ServerName = []\<rparr>"
  let ?keys = "range_order L (fmdom' values)"
  let ?m = "endpoints_of p"
  have k: "distinct ?keys" "set ?keys = fmdom' values"
    using assms by (simp_all add: ranges_over_keys_def fmdom'_alt_def)
  have n: "distinct (range_order L (fmdom' ?m))" "set (range_order L (fmdom' ?m)) = fmdom' ?m"
    using assms by (simp_all add: ranges_over_keys_def fmdom'_alt_def)
  have "ParseParameters L values = Inr p \<longleftrightarrow>
      parse_values L values ?keys ?p0 = Inr p \<and> check_endpoints L ?m (range_order L (fmdom' ?m)) Map.empty = None"
    unfolding ParseParameters_def endpoints_of_def by (auto simp: Let_def split: sum.splits option.splits)
  also have "\<dots> \<longleftrightarrow> accepts L values p"
    unfolding accepts_def check_endpoints_None [OF eq_refl [OF n(2)] n(1)] n(2) ball_fmdom [symmetric] inj_on_fmdom [symmetric]
    by (subst parse_values_Inr [OF k(1)]) (auto simp: ranged_def k fmlookup_dom'_iff split: option.splits)
  finally show ?thesis .
qed

section \<open>An instance\<close>

text \<open>
  A small library instance in which the properties are applied: a scanner that knows a few texts,
  map iteration in key order.
\<close>

definition table_scan :: "(string \<times> json) list \<Rightarrow> json_scanner" where
  "table_scan table s = map_option (\<lambda>v. (v, [])) (map_of table s)"

definition lower_char :: "char \<Rightarrow> char" where
  "lower_char c = (if 65 \<le> (of_char c :: nat) \<and> (of_char c :: nat) \<le> 90 then char_of ((of_char c :: nat) + 32) else c)"

definition sample_golib :: golib where
  "sample_golib = \<lparr>scan = table_scan
     [(''null'', JNull), (''[]'', JArray []), (''[p2]'', JArray [JString ''p2'']), (''[*]'', JArray [JString ''*'']),
      (''{p1}'', JObject [(''p1'', JObject [(''Host'', JString ''Db.example''), (''port'', JNumber ''7'')])]),
      (''{p1,p2}'', JObject [(''p1'', JObject [(''host'', JString ''Db.example''), (''port'', JNumber ''7'')]),
                             (''p2'', JObject [(''host'', JString ''dB.example''), (''port'', JNumber ''7'')])])],
     ParseIP = (\<lambda>s. list_all (\<lambda>c. is_digit c \<or> c = CHR ''.'') s), ToLower = map lower_char,
     range_order = sorted_list_of_set\<rparr>"

lemma sample_golib_ranges: "ranges_over_keys sample_golib"
  by (simp add: ranges_over_keys_def sample_golib_def)

definition sample_values :: "string \<Rightarrow> (string, string) fmap" where
  "sample_values eps = fmap_of_list [(''externalEndpoints'', eps), (''serverName'', ''db.internal'')]"

lemma sample_parse: "\<exists>p. ParseParameters sample_golib (sample_values ''{p1}'') = Inr p \<and> ServerName p = ''db.internal''"
proof -
  have "(case ParseParameters sample_golib (sample_values ''{p1}'') of Inr p \<Rightarrow> ServerName p = ''db.internal'' | _ \<Rightarrow> False)"
    by code_simp
  then show ?thesis by (auto split: sum.splits)
qed

theorem ParseParameters_exact_witness:
  "(\<exists>p. accepts sample_golib (sample_values ''{p1}'') p \<and> ServerName p = ''db.internal'') \<and>
   (\<nexists>p. accepts sample_golib (sample_values ''{p1,p2}'') p)"
proof -
  have "\<not> isl (ParseParameters sample_golib (sample_values ''{p1}''))"
    "isl (ParseParameters sample_golib (sample_values ''{p1,p2}''))" by code_simp+
  then have "\<nexists>p. ParseParameters sample_golib (sample_values ''{p1,p2}'') = Inr p" by auto
  then show ?thesis using ParseParameters_exact [OF sample_golib_ranges] sample_parse by blast
qed

end
