(* ===== verification/Topology.thy ===== *)
theory Topology
  imports Config
begin

text \<open>
  From Kubernetes metadata and instance reports to a routing snapshot: \<open>internal/observer/topology.go\<close>,
  the decoding half of \<open>status.go\<close>, and the comparison functions of \<open>events.go\<close>. A Cluster is the
  map of an unstructured object and is read through the accessors of \<open>k8s.io/apimachinery\<close>, which
  are parameters; a Pod is the record of the fields the program reads.
\<close>

section \<open>Kubernetes objects\<close>

text \<open>
  The accessors: a nested field gives its value, whether it was found, and an error when a value on
  the path has another type.
\<close>

type_synonym 'a nested = "gomap \<Rightarrow> string list \<Rightarrow> 'a \<times> bool \<times> string option"

record apimachinery =
  go :: golib
  GetNamespace :: "gomap \<Rightarrow> string"
  GetName :: "gomap \<Rightarrow> string"
  GetUID :: "gomap \<Rightarrow> string"
  GetAnnotations :: "gomap \<Rightarrow> string \<rightharpoonup> string"
  GetDeletionTimestamp :: "gomap \<Rightarrow> time option"
  NestedString :: "string nested"
  NestedBool :: "bool nested"
  NestedSlice :: "goany list nested"
  NestedStringMap :: "(string, string) fmap nested"
  NestedFieldNoCopy :: "goany option nested"

text \<open>Reading an absent key of a Go map of strings gives the empty string.\<close>

definition str_at :: "(string \<rightharpoonup> string) \<Rightarrow> string \<Rightarrow> string" where
  "str_at m k = (case m k of None \<Rightarrow> [] | Some v \<Rightarrow> v)"

record ownerReference =
  ownerAPIVersion :: string
  ownerKind :: string
  ownerName :: string
  ownerUID :: string
  ownerController :: "bool option"
  ownerBlockOwnerDeletion :: "bool option"

record container =
  containerName :: string
  containerCommand :: "string list"
  containerArgs :: "string list"

record podCondition =
  conditionType :: string
  conditionStatus :: string

record containerStatus =
  statusName :: string
  statusContainerID :: string

record pod =
  podName :: string
  podNamespace :: string
  podUID :: string
  podResourceVersion :: string
  podGeneration :: int
  podDeletionTimestamp :: "time option"
  podLabels :: "string \<rightharpoonup> string"
  podOwnerReferences :: "ownerReference list"
  podNodeName :: string
  podContainers :: "container list"
  podPhase :: string
  podIP :: string
  podConditions :: "podCondition list"
  podContainerStatuses :: "containerStatus list"

section \<open>Instance status\<close>

record replicationStatus =
  rsApplicationName :: string
  rsState :: string
  rsSyncState :: string

record instanceStatus =
  stIsPrimary :: "bool option"
  stSystemID :: string
  stTimeline :: int
  stReplayLSN :: string
  stReplayPaused :: bool
  stWalReceiverActive :: bool
  stRewinding :: bool
  stUnavailable :: bool
  stReplication :: "replicationStatus list"

text \<open>A nil \<open>err\<close> is \<open>None\<close>.\<close>

record statusResult =
  srStatus :: instanceStatus
  srErr :: "string option"

definition zero_replicationStatus :: replicationStatus where
  "zero_replicationStatus = \<lparr>rsApplicationName = [], rsState = [], rsSyncState = []\<rparr>"

definition zero_instanceStatus :: instanceStatus where
  "zero_instanceStatus = \<lparr>stIsPrimary = None, stSystemID = [], stTimeline = 0, stReplayLSN = [], stReplayPaused = False,
     stWalReceiverActive = False, stRewinding = False, stUnavailable = False, stReplication = []\<rparr>"

text \<open>Decoding one field of an object into a struct: the field the key matches, or no effect.\<close>

fun decode_fields :: "(string \<Rightarrow> json \<Rightarrow> 'a \<Rightarrow> 'a option) \<Rightarrow> string list \<Rightarrow> (string \<times> json) list \<Rightarrow> 'a \<Rightarrow> 'a option" where
  "decode_fields set_field names [] a = Some a"
| "decode_fields set_field names ((k, v) # kvs) a =
     (case match_field names k of
        None \<Rightarrow> decode_fields set_field names kvs a
      | Some f \<Rightarrow> (case set_field f v a of None \<Rightarrow> None | Some b \<Rightarrow> decode_fields set_field names kvs b))"

fun decode_struct :: "(string \<Rightarrow> json \<Rightarrow> 'a \<Rightarrow> 'a option) \<Rightarrow> string list \<Rightarrow> 'a \<Rightarrow> json \<Rightarrow> 'a option" where
  "decode_struct set_field names zero (JObject kvs) = decode_fields set_field names kvs zero"
| "decode_struct set_field names zero JNull = Some zero"
| "decode_struct set_field names zero _ = None"

definition set_replication_field :: "string \<Rightarrow> json \<Rightarrow> replicationStatus \<Rightarrow> replicationStatus option" where
  "set_replication_field f v r =
     (if f = ''applicationName'' then map_option (\<lambda>s. r\<lparr>rsApplicationName := s\<rparr>) (decode_string v (rsApplicationName r))
      else if f = ''state'' then map_option (\<lambda>s. r\<lparr>rsState := s\<rparr>) (decode_string v (rsState r))
      else map_option (\<lambda>s. r\<lparr>rsSyncState := s\<rparr>) (decode_string v (rsSyncState r)))"

definition decode_replication :: "json \<Rightarrow> replicationStatus option" where
  "decode_replication =
     decode_struct set_replication_field [''applicationName'', ''state'', ''syncState''] zero_replicationStatus"

definition set_status_field :: "string \<Rightarrow> json \<Rightarrow> instanceStatus \<Rightarrow> instanceStatus option" where
  "set_status_field f v r =
     (if f = ''isPrimary'' then map_option (\<lambda>b. r\<lparr>stIsPrimary := b\<rparr>) (decode_bool_pointer v (stIsPrimary r))
      else if f = ''systemID'' then map_option (\<lambda>s. r\<lparr>stSystemID := s\<rparr>) (decode_string v (stSystemID r))
      else if f = ''timeLineID'' then map_option (\<lambda>n. r\<lparr>stTimeline := n\<rparr>) (decode_int v (stTimeline r))
      else if f = ''replayLsn'' then map_option (\<lambda>s. r\<lparr>stReplayLSN := s\<rparr>) (decode_string v (stReplayLSN r))
      else if f = ''replayPaused'' then map_option (\<lambda>b. r\<lparr>stReplayPaused := b\<rparr>) (decode_bool v (stReplayPaused r))
      else if f = ''isWalReceiverActive'' then map_option (\<lambda>b. r\<lparr>stWalReceiverActive := b\<rparr>) (decode_bool v (stWalReceiverActive r))
      else if f = ''isPgRewindRunning'' then map_option (\<lambda>b. r\<lparr>stRewinding := b\<rparr>) (decode_bool v (stRewinding r))
      else if f = ''mightBeUnavailable'' then map_option (\<lambda>b. r\<lparr>stUnavailable := b\<rparr>) (decode_bool v (stUnavailable r))
      else map_option (\<lambda>rs. r\<lparr>stReplication := rs\<rparr>) (decode_slice decode_replication v))"

definition status_fields :: "string list" where
  "status_fields = [''isPrimary'', ''systemID'', ''timeLineID'', ''replayLsn'', ''replayPaused'', ''isWalReceiverActive'',
     ''isPgRewindRunning'', ''mightBeUnavailable'', ''replicationInfo'']"

datatype status_error = StatusSyntax | StatusTrailing | StatusIncomplete

text \<open>The reader is the text of the body; at most 4 MiB of it are read.\<close>

definition decodeStatus :: "golib \<Rightarrow> string \<Rightarrow> status_error + instanceStatus" where
  "decodeStatus L reader =
     (case scan L (take (4 * 2 ^ 20) reader) of
        None \<Rightarrow> Inl StatusSyntax
      | Some (v, rest) \<Rightarrow>
          (case decode_struct set_status_field status_fields zero_instanceStatus v of
             None \<Rightarrow> Inl StatusSyntax
           | Some result \<Rightarrow>
               (if \<not> only_space rest then Inl StatusTrailing
                else if stIsPrimary result = None \<or> stSystemID result = [] \<or> stTimeline result \<le> 0 then Inl StatusIncomplete
                else Inr result)))"

definition statusScheme :: "pod \<Rightarrow> string" where
  "statusScheme p =
     (if list_ex (\<lambda>c. containerName c = ''postgres'' \<and>
           (''--status-port-tls'' \<in> set (containerCommand c) \<or> ''--status-port-tls'' \<in> set (containerArgs c))) (podContainers p)
      then ''https'' else ''http'')"

section \<open>Reading a Cluster\<close>

definition clusterRef :: "apimachinery \<Rightarrow> gomap \<Rightarrow> v1_ClusterRef" where
  "clusterRef K c = \<lparr>rNamespace = GetNamespace K c, rName = GetName K c, rUID = GetUID K c\<rparr>"

definition primaryNames :: "apimachinery \<Rightarrow> gomap \<Rightarrow> string \<times> string" where
  "primaryNames K c =
     (fst (NestedString K c [''status'', ''currentPrimary'']), fst (NestedString K c [''status'', ''targetPrimary'']))"

datatype parameters_error = BadField string | BadAnnotation | BadParameters config_error

fun native_plugin :: "goany list \<Rightarrow> gomap option" where
  "native_plugin [] = None"
| "native_plugin (v # vs) =
     (case as_map v of
        None \<Rightarrow> native_plugin vs
      | Some plugin \<Rightarrow> if fmlookup plugin ''name'' \<noteq> Some (AString PluginName) then native_plugin vs else Some plugin)"

definition parse_result :: "config_error + Parameters \<Rightarrow> parameters_error + Parameters" where
  "parse_result r = (case r of Inl e \<Rightarrow> Inl (BadParameters e) | Inr p \<Rightarrow> Inr p)"

definition decode_string_map :: "json \<Rightarrow> (string, string) fmap option" where
  "decode_string_map v =
     (case decode_map (\<lambda>v. decode_string v []) v fmempty of
        None \<Rightarrow> None | Some None \<Rightarrow> Some fmempty | Some (Some m) \<Rightarrow> Some m)"

definition parameters :: "apimachinery \<Rightarrow> gomap \<Rightarrow> bool \<times> (parameters_error + Parameters)" where
  "parameters K c =
     (if str_at (GetAnnotations K c) EnabledAnnotation = ''false'' then (False, Inr zero_Parameters)
      else case NestedSlice K c [''spec'', ''plugins''] of
        (_, _, Some e) \<Rightarrow> (False, Inl (BadField e))
      | (plugins, _, None) \<Rightarrow>
          (case native_plugin plugins of
             Some plugin \<Rightarrow>
               (case NestedBool K plugin [''enabled''] of
                  (_, _, Some e) \<Rightarrow> (True, Inl (BadField e))
                | (enabled, found, None) \<Rightarrow>
                    (if found \<and> \<not> enabled then (False, Inr zero_Parameters)
                     else case NestedStringMap K plugin [''parameters''] of
                       (_, _, Some e) \<Rightarrow> (True, Inl (BadField e))
                     | (values, _, None) \<Rightarrow> (True, parse_result (ParseParameters (go K) values))))
           | None \<Rightarrow>
               (let raw = str_at (GetAnnotations K c) ParametersAnnotation in
                  if raw = [] then (True, parse_result (ParseParameters (go K) fmempty))
                  else case json_document (scan (go K)) raw of
                    None \<Rightarrow> (True, Inl BadAnnotation)
                  | Some v \<Rightarrow>
                      (case decode_string_map v of
                         None \<Rightarrow> (True, Inl BadAnnotation)
                       | Some values \<Rightarrow> (True, parse_result (ParseParameters (go K) values))))))"

fun ready_condition :: "podCondition list \<Rightarrow> bool" where
  "ready_condition [] = False"
| "ready_condition (c # cs) = (if conditionType c = ''Ready'' then conditionStatus c = ''True'' else ready_condition cs)"

definition podReady :: "pod \<Rightarrow> bool" where
  "podReady p =
     (if podDeletionTimestamp p \<noteq> None \<or> podPhase p \<noteq> ''Running'' \<or> podIP p = [] then False
      else ready_condition (podConditions p))"

definition owned_by :: "string \<Rightarrow> pod \<Rightarrow> bool" where
  "owned_by uid p = list_ex (\<lambda>ref. ownerKind ref = ''Cluster'' \<and> ownerUID ref = uid \<and>
     ownerAPIVersion ref = ''postgresql.cnpg.io/v1'') (podOwnerReferences p)"

text \<open>Pods come from an index of one namespace, so their names differ and the sorted order is unique.\<close>

definition ownedPods :: "apimachinery \<Rightarrow> gomap \<Rightarrow> pod list \<Rightarrow> pod list" where
  "ownedPods K c items = sort_key podName (filter (owned_by (GetUID K c)) items)"

definition unavailable :: "apimachinery \<Rightarrow> gomap \<Rightarrow> time \<Rightarrow> duration \<Rightarrow> string \<Rightarrow> v1_Snapshot" where
  "unavailable K c at ttl reason = zero_Snapshot\<lparr>sAPIVersion := APIVersion, sCluster := clusterRef K c,
     sObservedAt := at, sValidUntil := at + ttl, sReason := reason, sMembers := []\<rparr>"

section \<open>Building a snapshot\<close>

text \<open>The fencing annotation as a JSON array of names; null is the empty list.\<close>

definition decode_fenced :: "apimachinery \<Rightarrow> string \<Rightarrow> string list option" where
  "decode_fenced K raw =
     (case json_document (scan (go K)) raw of
        None \<Rightarrow> None
      | Some v \<Rightarrow> decode_slice (\<lambda>v. decode_string v []) v)"

definition fenced_annotation :: string where "fenced_annotation = ''cnpg.io/fencedInstances''"

definition cluster_fencing :: "apimachinery \<Rightarrow> gomap \<Rightarrow> string list option" where
  "cluster_fencing K c = (case GetAnnotations K c fenced_annotation of None \<Rightarrow> Some [] | Some raw \<Rightarrow> decode_fenced K raw)"

definition is_fenced :: "string list \<Rightarrow> string \<Rightarrow> bool" where
  "is_fenced fenced name \<longleftrightarrow> ''*'' \<in> set fenced \<or> name \<in> set fenced"

definition default_serverName :: "apimachinery \<Rightarrow> gomap \<Rightarrow> Parameters \<Rightarrow> string" where
  "default_serverName K c params =
     (if ServerName params = [] then GetName K c @ ''-rw.'' @ GetNamespace K c @ ''.svc'' else ServerName params)"

text \<open>The literal that opens the first loop's body, with the endpoints added after it.\<close>

definition base_member :: "string \<Rightarrow> Parameters \<Rightarrow> pod \<Rightarrow> v1_Member" where
  "base_member serverName params p =
     (let m = zero_Member\<lparr>mID := podUID p, mName := podName p, mRole := ''unknown'', mSyncState := ''unknown'',
            mNode := podNodeName p, mZone := str_at (podLabels p) ''topology.kubernetes.io/zone'',
            mRegion := str_at (podLabels p) ''topology.kubernetes.io/region'', mReason := ''status_unavailable''\<rparr>;
          m = (if podIP p \<noteq> [] then
                 m\<lparr>mEndpoints := (mEndpoints m)(''internal'' \<mapsto> \<lparr>eHost = podIP p, ePort = 5432, eServerName = serverName\<rparr>)\<rparr>
               else m)
      in case fmlookup (endpoints_of params) (podName p) of
           None \<Rightarrow> m
         | Some e \<Rightarrow>
             m\<lparr>mEndpoints := (mEndpoints m)(''external'' \<mapsto> (if eServerName e = [] then e\<lparr>eServerName := serverName\<rparr> else e))\<rparr>)"

text \<open>The \<open>switch\<close> of the first loop.\<close>

definition classify :: "string list \<Rightarrow> pod \<Rightarrow> statusResult \<Rightarrow> v1_Member \<Rightarrow> v1_Member" where
  "classify fenced p r m =
     (if is_fenced fenced (podName p) then m\<lparr>mReason := ''fenced''\<rparr>
      else if \<not> podReady p then m\<lparr>mReason := ''pod_not_ready''\<rparr>
      else if srErr r \<noteq> None \<or> stIsPrimary (srStatus r) = None then m\<lparr>mReason := ''status_unavailable''\<rparr>
      else if stUnavailable (srStatus r) \<or> stRewinding (srStatus r) then m\<lparr>mReason := ''instance_unavailable''\<rparr>
      else
        let m = m\<lparr>mTimeline := stTimeline (srStatus r), mReplayLSN := stReplayLSN (srStatus r)\<rparr> in
          if stIsPrimary (srStatus r) = Some True then m\<lparr>mRole := ''primary'', mReason := ''primary_unverified''\<rparr>
          else m\<lparr>mRole := ''standby'',
                 mReason := (if stReplayPaused (srStatus r) then ''replay_paused''
                             else if \<not> stWalReceiverActive (srStatus r) then ''wal_receiver_inactive''
                             else ''replication_unverified'')\<rparr>)"

text \<open>
  The first loop: the members so far, the index of the verified primary (\<open>None\<close> for -1) and the number
  of instances that claim to be primary. Indexing past the results panics, which is \<open>None\<close>.
\<close>

fun member_loop ::
  "(pod \<Rightarrow> statusResult \<Rightarrow> v1_Member) \<Rightarrow> (pod \<Rightarrow> bool) \<Rightarrow> statusResult list \<Rightarrow> nat \<Rightarrow> pod list \<Rightarrow>
     v1_Member list \<Rightarrow> nat option \<Rightarrow> nat \<Rightarrow> (v1_Member list \<times> nat option \<times> nat) option" where
  "member_loop member expected results i [] members primaryIndex primaryCount = Some (members, primaryIndex, primaryCount)"
| "member_loop member expected results i (p # ps) members primaryIndex primaryCount =
     (if i \<ge> length results then None
      else let m = member p (results ! i) in
        member_loop member expected results (Suc i) ps (members @ [m])
          (if mRole m = ''primary'' \<and> expected p then Some i else primaryIndex)
          (if mRole m = ''primary'' then Suc primaryCount else primaryCount))"

text \<open>The sender states by application name, and the names seen more than once.\<close>

fun index_senders :: "replicationStatus list \<Rightarrow> (string \<rightharpoonup> replicationStatus) \<Rightarrow> (string \<rightharpoonup> bool) \<Rightarrow>
    (string \<rightharpoonup> replicationStatus) \<times> (string \<rightharpoonup> bool)" where
  "index_senders [] replication duplicates = (replication, duplicates)"
| "index_senders (r # rs) replication duplicates =
     index_senders rs (replication(rsApplicationName r \<mapsto> r))
       (if replication (rsApplicationName r) \<noteq> None then duplicates(rsApplicationName r \<mapsto> True) else duplicates)"

definition known_sync_states :: "string list" where
  "known_sync_states = [''sync'', ''quorum'', ''potential'', ''async'']"

text \<open>The body of the last loop.\<close>

definition verify_standby :: "instanceStatus \<Rightarrow> (string \<rightharpoonup> replicationStatus) \<times> (string \<rightharpoonup> bool) \<Rightarrow>
    v1_Member \<Rightarrow> instanceStatus \<Rightarrow> v1_Member" where
  "verify_standby primary senders m r =
     (if mRole m \<noteq> ''standby'' \<or> mReason m \<noteq> ''replication_unverified'' then m
      else if stSystemID r \<noteq> stSystemID primary then m\<lparr>mReason := ''database_identity_mismatch''\<rparr>
      else case fst senders (mName m) of
        None \<Rightarrow> m
      | Some state \<Rightarrow>
          (if snd senders (mName m) = Some True \<or> rsState state \<noteq> ''streaming'' then m
           else if rsSyncState state \<notin> set known_sync_states then m
           else m\<lparr>mSyncState := rsSyncState state, mReady := True, mReason := []\<rparr>))"

definition buildSnapshot ::
  "apimachinery \<Rightarrow> gomap \<Rightarrow> pod list \<Rightarrow> statusResult list \<Rightarrow> Parameters \<Rightarrow> time \<Rightarrow> duration \<Rightarrow> v1_Snapshot option" where
  "buildSnapshot K c pods results params at ttl =
     (let snapshot = unavailable K c at ttl ''primary_unverified'';
          (current, target) = primaryNames K c;
          snapshot = snapshot\<lparr>sTransitioning := (current \<noteq> target \<or> current = [])\<rparr>
      in case cluster_fencing K c of
           None \<Rightarrow> Some (snapshot\<lparr>sReason := ''invalid_fencing_configuration''\<rparr>)
         | Some fenced \<Rightarrow>
             (let serverName = default_serverName K c params in
                case member_loop (\<lambda>p r. classify fenced p r (base_member serverName params p))
                       (\<lambda>p. podName p = current \<and> \<not> sTransitioning snapshot) results 0 pods [] None 0 of
                  None \<Rightarrow> None
                | Some (members, primaryIndex, primaryCount) \<Rightarrow>
                    (let snapshot = snapshot\<lparr>sMembers := members\<rparr> in
                       if primaryCount > 1 then Some (snapshot\<lparr>sReason := ''multiple_primaries_observed''\<rparr>)
                       else if sTransitioning snapshot then Some (snapshot\<lparr>sReason := ''primary_transition''\<rparr>)
                       else case primaryIndex of
                         None \<Rightarrow> Some snapshot
                       | Some k \<Rightarrow>
                           (let primary = srStatus (results ! k);
                                members = members[k := (members ! k)\<lparr>mReady := True, mReason := []\<rparr>];
                                senders = index_senders (stReplication primary) Map.empty Map.empty
                            in Some (snapshot\<lparr>sPrimaryID := mID (members ! k), sAvailable := True, sReason := [],
                                 sMembers := map (\<lambda>(m, r). verify_standby primary senders m (srStatus r)) (zip members results)\<rparr>)))))"

section \<open>What invalidates a route\<close>

definition applicationDatabase :: "apimachinery \<Rightarrow> gomap \<Rightarrow> string" where
  "applicationDatabase K c =
     (case List.find (\<lambda>name. name \<noteq> [])
             (map (\<lambda>method. fst (NestedString K c [''spec'', ''bootstrap'', method, ''database'']))
                [''recovery'', ''pg_basebackup'', ''initdb'']) of
        None \<Rightarrow> [] | Some name \<Rightarrow> name)"

definition serverCASecret :: "apimachinery \<Rightarrow> gomap \<Rightarrow> string" where
  "serverCASecret K c = fst (NestedString K c [''status'', ''certificates'', ''serverCASecret''])"

definition sameClusterRoute :: "apimachinery \<Rightarrow> gomap \<Rightarrow> gomap \<Rightarrow> bool" where
  "sameClusterRoute K a b =
     (if GetUID K a \<noteq> GetUID K b \<or> GetDeletionTimestamp K a \<noteq> None \<or> GetDeletionTimestamp K b \<noteq> None then False
      else if primaryNames K a \<noteq> primaryNames K b then False
      else case (parameters K a, parameters K b) of
        ((enabledA, Inr paramsA), (enabledB, Inr paramsB)) \<Rightarrow>
          (if enabledA \<noteq> enabledB \<or> paramsA \<noteq> paramsB then False
           else if str_at (GetAnnotations K a) fenced_annotation \<noteq> str_at (GetAnnotations K b) fenced_annotation then False
           else if applicationDatabase K a \<noteq> applicationDatabase K b then False
           else fst (NestedFieldNoCopy K a [''status'', ''certificates'']) = fst (NestedFieldNoCopy K b [''status'', ''certificates'']))
      | _ \<Rightarrow> False)"

definition postgresContainerID :: "pod \<Rightarrow> string" where
  "postgresContainerID p =
     (case List.find (\<lambda>s. statusName s = ''postgres'') (podContainerStatuses p) of
        None \<Rightarrow> [] | Some s \<Rightarrow> statusContainerID s)"

definition samePodRoute :: "pod \<Rightarrow> pod \<Rightarrow> bool" where
  "samePodRoute a b =
     (if podName a \<noteq> podName b \<or> podUID a \<noteq> podUID b \<or> podIP a \<noteq> podIP b then False
      else if podReady a \<noteq> podReady b \<or> podNodeName a \<noteq> podNodeName b then False
      else if statusScheme a \<noteq> statusScheme b \<or> postgresContainerID a \<noteq> postgresContainerID b then False
      else podOwnerReferences a = podOwnerReferences b)"

end
