(* ===== verification/Topology_Props.thy ===== *)
theory Topology_Props
  imports Topology
begin

text \<open>
  What a built snapshot promises: it is available exactly when one verified primary agrees with
  the Cluster, it fails closed otherwise, and a member is ready exactly when the evidence about it
  is complete.
\<close>

section \<open>Eligible instances\<close>

text \<open>The report of an instance is usable: not fenced, Pod ready, status read, instance up.\<close>

definition eligible :: "string list \<Rightarrow> pod \<Rightarrow> statusResult \<Rightarrow> bool" where
  "eligible fenced p r \<longleftrightarrow>
     \<not> is_fenced fenced (podName p) \<and> podReady p \<and> srErr r = None \<and> stIsPrimary (srStatus r) \<noteq> None \<and>
     \<not> stUnavailable (srStatus r) \<and> \<not> stRewinding (srStatus r)"

definition claims_primary :: "string list \<Rightarrow> pod \<Rightarrow> statusResult \<Rightarrow> bool" where
  "claims_primary fenced p r \<longleftrightarrow> eligible fenced p r \<and> stIsPrimary (srStatus r) = Some True"

text \<open>A standby that replays from an active receiver.\<close>

definition replays :: "string list \<Rightarrow> pod \<Rightarrow> statusResult \<Rightarrow> bool" where
  "replays fenced p r \<longleftrightarrow> eligible fenced p r \<and> stIsPrimary (srStatus r) = Some False \<and>
     \<not> stReplayPaused (srStatus r) \<and> stWalReceiverActive (srStatus r)"

text \<open>The primary reports exactly one sender for the standby, streaming, in a known sync state.\<close>

definition streams :: "instanceStatus \<Rightarrow> string \<Rightarrow> string \<Rightarrow> bool" where
  "streams primary name state \<longleftrightarrow>
     (\<exists>r. filter (\<lambda>r. rsApplicationName r = name) (stReplication primary) = [r] \<and>
        rsState r = ''streaming'' \<and> rsSyncState r = state \<and> state \<in> set known_sync_states)"

definition initial_member :: "apimachinery \<Rightarrow> gomap \<Rightarrow> Parameters \<Rightarrow> string list \<Rightarrow> pod \<Rightarrow> statusResult \<Rightarrow> v1_Member" where
  "initial_member K c params fenced p r = classify fenced p r (base_member (default_serverName K c params) params p)"

lemma base_member_fields [simp]:
  "mID (base_member n ps p) = podUID p" "mName (base_member n ps p) = podName p"
  "mRole (base_member n ps p) = ''unknown''" "mSyncState (base_member n ps p) = ''unknown''"
  "\<not> mReady (base_member n ps p)"
  by (simp_all add: base_member_def Let_def zero_Member_def split: option.splits)

lemma classify_fields [simp]:
  "mID (classify f p r m) = mID m" "mName (classify f p r m) = mName m" "mSyncState (classify f p r m) = mSyncState m"
  "mReady (classify f p r m) = mReady m" "mEndpoints (classify f p r m) = mEndpoints m"
  by (simp_all add: classify_def Let_def)

lemma initial_member_fields [simp]:
  "mID (initial_member K c ps f p r) = podUID p" "mName (initial_member K c ps f p r) = podName p"
  "mSyncState (initial_member K c ps f p r) = ''unknown''" "\<not> mReady (initial_member K c ps f p r)"
  by (simp_all add: initial_member_def)

lemma initial_member_primary: "mRole (initial_member K c ps f p r) = ''primary'' \<longleftrightarrow> claims_primary f p r"
  by (auto simp: initial_member_def classify_def Let_def claims_primary_def eligible_def)

lemma initial_member_standby:
  "mRole (initial_member K c ps f p r) = ''standby'' \<and> mReason (initial_member K c ps f p r) = ''replication_unverified''
    \<longleftrightarrow> replays f p r"
  by (auto simp: initial_member_def classify_def Let_def replays_def eligible_def)

lemma initial_member_role: "mRole (initial_member K c ps f p r) \<in> legal_roles"
  by (simp add: initial_member_def classify_def Let_def legal_roles_def)

section \<open>The loops\<close>

lemma member_loop_Some:
  "member_loop f e results i ps ms pi pc = Some (ms', pi', pc') \<Longrightarrow>
     i + length ps \<le> length results \<or> ps = []"
  by (induction ps arbitrary: i ms pi pc) (force simp: Let_def split: if_splits)+

lemma member_loop_members:
  "member_loop f e results i ps ms pi pc = Some (ms', pi', pc') \<Longrightarrow>
     ms' = ms @ map2 f ps (drop i results) \<and>
     pc' = pc + length (filter (\<lambda>m. mRole m = ''primary'') (map2 f ps (drop i results)))"
proof (induction ps arbitrary: i ms pi pc)
  case (Cons p ps)
  let ?m = "f p (results ! i)"
  from Cons.prems have i: "i < length results"
    and "member_loop f e results (Suc i) ps (ms @ [?m]) (if mRole ?m = ''primary'' \<and> e p then Some i else pi)
      (if mRole ?m = ''primary'' then Suc pc else pc) = Some (ms', pi', pc')"
    by (simp_all add: Let_def split: if_split_asm)
  from Cons.IH [OF this(2)] show ?case by (simp add: Cons_nth_drop_Suc [OF i, symmetric])
qed simp

lemma member_loop_index:
  "member_loop f e results i ps ms pi pc = Some (ms', pi', pc') \<Longrightarrow>
     (case pi' of
        None \<Rightarrow> pi = None \<and> (\<forall>j<length ps. \<not> (mRole (f (ps ! j) (results ! (i + j))) = ''primary'' \<and> e (ps ! j)))
      | Some k \<Rightarrow> pi = Some k \<or> (\<exists>j<length ps. k = i + j \<and> mRole (f (ps ! j) (results ! k)) = ''primary'' \<and> e (ps ! j)))"
proof (induction ps arbitrary: i ms pi pc)
  case (Cons p ps)
  let ?m = "f p (results ! i)"
  let ?pi = "if mRole ?m = ''primary'' \<and> e p then Some i else pi"
  from Cons.prems have "member_loop f e results (Suc i) ps (ms @ [?m]) ?pi (if mRole ?m = ''primary'' then Suc pc else pc) = Some (ms', pi', pc')"
    by (auto simp: Let_def split: if_splits)
  note IH = Cons.IH [OF this]
  show ?case
  proof (cases pi')
    case None
    with IH show ?thesis by (auto simp: nth_Cons split: nat.splits if_splits)
  next
    case (Some k)
    with IH consider "?pi = Some k"
      | j where "j < length ps" "k = Suc i + j" "mRole (f (ps ! j) (results ! k)) = ''primary''" "e (ps ! j)" by auto
    then show ?thesis
    proof cases
      case 1
      then show ?thesis using Some by (auto split: if_splits)
    next
      case 2
      then show ?thesis using Some by (auto intro!: exI [of _ "Suc j"])
    qed
  qed
qed (simp split: option.splits)

lemma member_loop_total:
  "i + length ps \<le> length results \<Longrightarrow> \<exists>r. member_loop f e results i ps ms pi pc = Some r"
  by (induction ps arbitrary: i ms pi pc) (auto simp: Let_def)

lemma index_senders_eq:
  "index_senders rs m d = (\<lambda>n. case filter (\<lambda>r. rsApplicationName r = n) rs of [] \<Rightarrow> m n | xs \<Rightarrow> Some (last xs),
     \<lambda>n. if (if m n = None then 1 else 0) < length (filter (\<lambda>r. rsApplicationName r = n) rs) then Some True else d n)"
proof (induction rs arbitrary: m d)
  case (Cons r rs)
  show ?case unfolding index_senders.simps Cons.IH
    by (auto simp: fun_eq_iff split: list.splits)
qed (simp add: fun_eq_iff)

lemma verified_sender:
  "(\<exists>st. fst (index_senders (stReplication primary) Map.empty Map.empty) n = Some st \<and>
      snd (index_senders (stReplication primary) Map.empty Map.empty) n \<noteq> Some True \<and> rsState st = ''streaming'' \<and>
      rsSyncState st = state \<and> state \<in> set known_sync_states) \<longleftrightarrow> streams primary n state"
  unfolding index_senders_eq streams_def
  by (cases "filter (\<lambda>r. rsApplicationName r = n) (stReplication primary)" rule: remdups_adj.cases) auto

section \<open>The shape of a built snapshot\<close>

definition transitioning :: "apimachinery \<Rightarrow> gomap \<Rightarrow> bool" where
  "transitioning K c \<longleftrightarrow> fst (primaryNames K c) \<noteq> snd (primaryNames K c) \<or> fst (primaryNames K c) = []"

definition initial_members :: "apimachinery \<Rightarrow> gomap \<Rightarrow> Parameters \<Rightarrow> string list \<Rightarrow> pod list \<Rightarrow> statusResult list \<Rightarrow> v1_Member list" where
  "initial_members K c params fenced pods results = map2 (initial_member K c params fenced) pods results"

text \<open>The pod at \<open>k\<close> is the one verified primary the Cluster names.\<close>

definition sole_primary :: "apimachinery \<Rightarrow> gomap \<Rightarrow> string list \<Rightarrow> pod list \<Rightarrow> statusResult list \<Rightarrow> nat \<Rightarrow> bool" where
  "sole_primary K c fenced pods results k \<longleftrightarrow>
     \<not> transitioning K c \<and> k < length pods \<and> podName (pods ! k) = fst (primaryNames K c) \<and>
     (\<forall>j<length pods. claims_primary fenced (pods ! j) (results ! j) \<longleftrightarrow> j = k)"

definition verified_members :: "v1_Member list \<Rightarrow> statusResult list \<Rightarrow> nat \<Rightarrow> v1_Member list" where
  "verified_members ms results k =
     map (\<lambda>(m, r). verify_standby (srStatus (results ! k)) (index_senders (stReplication (srStatus (results ! k))) Map.empty Map.empty) m (srStatus r))
       (zip (ms[k := (ms ! k)\<lparr>mReady := True, mReason := []\<rparr>]) results)"

lemma count_claims:
  assumes "length pods \<le> length results"
  shows "length (filter (\<lambda>m. mRole m = ''primary'') (initial_members K c params fenced pods results)) =
    card {j. j < length pods \<and> claims_primary fenced (pods ! j) (results ! j)}"
proof -
  have "{j. j < length (initial_members K c params fenced pods results) \<and> mRole (initial_members K c params fenced pods results ! j) = ''primary''}
      = {j. j < length pods \<and> claims_primary fenced (pods ! j) (results ! j)}"
    using assms by (auto simp: initial_members_def initial_member_primary)
  then show ?thesis by (simp add: length_filter_conv_card)
qed

lemma card_le_1_unique: "finite A \<Longrightarrow> card A \<le> 1 \<Longrightarrow> a \<in> A \<Longrightarrow> b \<in> A \<Longrightarrow> a = b"
  by (metis card_le_Suc0_iff_eq One_nat_def)

definition loop_snapshot :: "apimachinery \<Rightarrow> gomap \<Rightarrow> statusResult list \<Rightarrow> time \<Rightarrow> duration \<Rightarrow> v1_Member list \<Rightarrow> nat option \<Rightarrow> nat \<Rightarrow> v1_Snapshot" where
  "loop_snapshot K c results at ttl ms pi pc =
     (if pc > 1 then (unavailable K c at ttl ''multiple_primaries_observed'')\<lparr>sTransitioning := transitioning K c, sMembers := ms\<rparr>
      else if transitioning K c then (unavailable K c at ttl ''primary_transition'')\<lparr>sTransitioning := transitioning K c, sMembers := ms\<rparr>
      else case pi of
        None \<Rightarrow> (unavailable K c at ttl ''primary_unverified'')\<lparr>sTransitioning := transitioning K c, sMembers := ms\<rparr>
      | Some k \<Rightarrow> (unavailable K c at ttl [])\<lparr>sTransitioning := False, sAvailable := True,
           sPrimaryID := mID (ms[k := (ms ! k)\<lparr>mReady := True, mReason := []\<rparr>] ! k),
           sMembers := verified_members ms results k\<rparr>)"

lemma buildSnapshot_eq:
  "buildSnapshot K c pods results params at ttl =
     (case cluster_fencing K c of
        None \<Rightarrow> Some ((unavailable K c at ttl ''invalid_fencing_configuration'')\<lparr>sTransitioning := transitioning K c\<rparr>)
      | Some fenced \<Rightarrow>
          (case member_loop (initial_member K c params fenced)
                  (\<lambda>p. podName p = fst (primaryNames K c) \<and> \<not> transitioning K c) results 0 pods [] None 0 of
             None \<Rightarrow> None
           | Some (ms, pi, pc) \<Rightarrow> Some (loop_snapshot K c results at ttl ms pi pc)))"
  unfolding buildSnapshot_def Let_def case_prod_beta transitioning_def [symmetric] initial_member_def [abs_def]
    loop_snapshot_def verified_members_def
  by (auto simp: unavailable_def zero_Snapshot_def split: option.splits)

lemma buildSnapshot_cases:
  assumes "buildSnapshot K c pods results params at ttl = Some s"
  obtains (fencing) "cluster_fencing K c = None"
      "s = (unavailable K c at ttl ''invalid_fencing_configuration'')\<lparr>sTransitioning := transitioning K c\<rparr>"
  | (refused) fenced reason where "cluster_fencing K c = Some fenced" "length pods \<le> length results"
      "\<And>k. \<not> sole_primary K c fenced pods results k" "reason \<noteq> []"
      "1 < card {j. j < length pods \<and> claims_primary fenced (pods ! j) (results ! j)} \<longleftrightarrow> reason = ''multiple_primaries_observed''"
      "s = (unavailable K c at ttl reason)\<lparr>sTransitioning := transitioning K c, sMembers := initial_members K c params fenced pods results\<rparr>"
  | (verified) fenced k where "cluster_fencing K c = Some fenced" "length pods \<le> length results"
      "sole_primary K c fenced pods results k"
      "s = (unavailable K c at ttl [])\<lparr>sTransitioning := False, sAvailable := True, sPrimaryID := podUID (pods ! k),
             sMembers := verified_members (initial_members K c params fenced pods results) results k\<rparr>"
proof (cases "cluster_fencing K c")
  case None
  then show thesis using assms fencing by (simp add: buildSnapshot_eq)
next
  case (Some fenced)
  let ?f = "initial_member K c params fenced" and ?e = "\<lambda>p. podName p = fst (primaryNames K c) \<and> \<not> transitioning K c"
  let ?C = "{j. j < length pods \<and> claims_primary fenced (pods ! j) (results ! j)}"
  from assms Some obtain ms pi pc where loop: "member_loop ?f ?e results 0 pods [] None 0 = Some (ms, pi, pc)"
      and s: "s = loop_snapshot K c results at ttl ms pi pc"
    by (auto simp: buildSnapshot_eq split: option.splits)
  have len: "length pods \<le> length results" using member_loop_Some [OF loop] by auto
  have ms: "ms = initial_members K c params fenced pods results" and pc: "pc = card ?C"
    using member_loop_members [OF loop] count_claims [OF len] by (simp_all add: initial_members_def)
  note idx = member_loop_index [OF loop, simplified initial_member_primary]
  have fin: "finite ?C" by simp
  show thesis
  proof (cases "pc > 1 \<or> transitioning K c \<or> pi = None")
    case True
    have no: "\<not> sole_primary K c fenced pods results k" for k
    proof
      assume sp: "sole_primary K c fenced pods results k"
      then have "?C = {k}" by (auto simp: sole_primary_def)
      then have "pi = None" using True pc sp by (auto simp: sole_primary_def)
      then show False using idx sp by (auto simp: sole_primary_def)
    qed
    show thesis
      by (rule refused [OF Some len no, of "if pc > 1 then ''multiple_primaries_observed''
            else if transitioning K c then ''primary_transition'' else ''primary_unverified''"])
        (use s True pc ms in \<open>auto simp: loop_snapshot_def\<close>)
  next
    case False
    then obtain k where k: "pi = Some k" by auto
    with idx have c: "k \<in> ?C" and n: "podName (pods ! k) = fst (primaryNames K c)" by auto
    have "j = k" if "j \<in> ?C" for j using card_le_1_unique [OF fin _ that c] False pc by simp
    then have "sole_primary K c fenced pods results k" using c n False unfolding sole_primary_def by blast
    moreover have "mID (ms[k := (ms ! k)\<lparr>mReady := True, mReason := []\<rparr>] ! k) = podUID (pods ! k)"
      using c len by (simp add: ms initial_members_def)
    ultimately show thesis using verified [OF Some len, of k] s False k ms by (simp add: loop_snapshot_def)
  qed
qed

lemma initial_members_nth:
  "length pods \<le> length results \<Longrightarrow> length (initial_members K c params fenced pods results) = length pods"
  "length pods \<le> length results \<Longrightarrow> j < length pods \<Longrightarrow>
     initial_members K c params fenced pods results ! j = initial_member K c params fenced (pods ! j) (results ! j)"
  by (simp_all add: initial_members_def)

lemma verified_members_nth:
  assumes "length ms \<le> length results" and "k < length ms"
  shows "length (verified_members ms results k) = length ms"
    and "j < length ms \<Longrightarrow> verified_members ms results k ! j =
      verify_standby (srStatus (results ! k)) (index_senders (stReplication (srStatus (results ! k))) Map.empty Map.empty)
        (if j = k then (ms ! k)\<lparr>mReady := True, mReason := []\<rparr> else ms ! j) (srStatus (results ! j))"
  using assms by (simp_all add: verified_members_def)

lemma verify_standby_fields [simp]:
  "mID (verify_standby pr se m r) = mID m" "mName (verify_standby pr se m r) = mName m"
  "mRole (verify_standby pr se m r) = mRole m"
  by (simp_all add: verify_standby_def split: option.splits)

lemma verify_standby_legal: "legal_member m \<Longrightarrow> legal_member (verify_standby pr se m r)"
  by (auto simp: legal_member_def verify_standby_def legal_sync_states_def known_sync_states_def split: option.splits)

lemma verify_standby_ready:
  assumes "\<not> mReady m" and "mSyncState m = ''unknown''"
  shows "mReady (verify_standby pr (index_senders (stReplication pr) Map.empty Map.empty) m r) \<longleftrightarrow>
      mRole m = ''standby'' \<and> mReason m = ''replication_unverified'' \<and> stSystemID r = stSystemID pr \<and> (\<exists>st. streams pr (mName m) st)"
    and "mReady (verify_standby pr (index_senders (stReplication pr) Map.empty Map.empty) m r) \<Longrightarrow>
      streams pr (mName m) (mSyncState (verify_standby pr (index_senders (stReplication pr) Map.empty Map.empty) m r))"
    and "\<not> mReady (verify_standby pr (index_senders (stReplication pr) Map.empty Map.empty) m r) \<Longrightarrow>
      mSyncState (verify_standby pr (index_senders (stReplication pr) Map.empty Map.empty) m r) = ''unknown''"
  using assms unfolding verify_standby_def verified_sender [symmetric] by (auto split: option.splits if_splits)

section \<open>Availability\<close>

text \<open>
  C8: a snapshot is available exactly when one verified primary agrees with the Cluster: the Cluster
  is not in transition, its fencing is readable, and exactly one instance whose report is usable
  (not fenced, Pod ready, status read, instance neither down nor rewinding) claims to be primary,
  namely the Pod the Cluster names. The snapshot then names that Pod as primary.
\<close>

theorem available_iff_sole_primary:
  assumes "buildSnapshot K c pods results params at ttl = Some s"
  shows "(sAvailable s \<longleftrightarrow> (\<exists>fenced k. cluster_fencing K c = Some fenced \<and> sole_primary K c fenced pods results k)) \<and>
    (\<forall>fenced k. cluster_fencing K c = Some fenced \<and> sole_primary K c fenced pods results k \<longrightarrow>
       sPrimaryID s = podUID (pods ! k))"
  using assms
proof (cases rule: buildSnapshot_cases)
  case fencing
  then show ?thesis by (simp add: unavailable_def zero_Snapshot_def)
next
  case (refused fenced reason)
  then have "\<not> sAvailable s" by (simp add: unavailable_def zero_Snapshot_def)
  with refused(1,3) show ?thesis by simp
next
  case (verified fenced k)
  have "j = k" if "sole_primary K c fenced pods results j" for j
    using verified(3) that unfolding sole_primary_def by blast
  moreover have "sAvailable s" "sPrimaryID s = podUID (pods ! k)" using verified(4) by (simp_all add: unavailable_def)
  ultimately show ?thesis using verified(1,3) by (metis option.inject)
qed

text \<open>
  A snapshot that is not available fails closed: it names no primary, marks no member ready and
  gives a reason, and when two usable instances claim to be primary it is of this kind and says so.
\<close>

theorem unavailable_fails_closed:
  assumes "buildSnapshot K c pods results params at ttl = Some s"
  shows "(\<not> sAvailable s \<longrightarrow> withdrawn s \<and> sReason s \<noteq> []) \<and>
    (\<forall>fenced i j. cluster_fencing K c = Some fenced \<and> i < j \<and> j < length pods \<and>
       claims_primary fenced (pods ! i) (results ! i) \<and> claims_primary fenced (pods ! j) (results ! j) \<longrightarrow>
       \<not> sAvailable s \<and> sReason s = ''multiple_primaries_observed'')"
  using assms
proof (cases rule: buildSnapshot_cases)
  case fencing
  then show ?thesis by (simp add: withdrawn_def unavailable_def zero_Snapshot_def)
next
  case (refused fenced reason)
  let ?C = "{j. j < length pods \<and> claims_primary fenced (pods ! j) (results ! j)}"
  have "\<forall>m\<in>set (initial_members K c params fenced pods results). \<not> mReady m"
    by (auto simp: initial_members_def)
  moreover have "1 < card ?C" if "i < j" "i \<in> ?C" "j \<in> ?C" for i j
    using card_le_1_unique [of ?C i j] that by fastforce
  ultimately show ?thesis using refused by (auto simp: withdrawn_def unavailable_def zero_Snapshot_def)
next
  case (verified fenced k)
  have "sAvailable s" using verified(4) by (simp add: unavailable_def)
  moreover have "i = k \<and> j = k" if "i < j" "j < length pods" "claims_primary fenced (pods ! i) (results ! i)"
      "claims_primary fenced (pods ! j) (results ! j)" for i j
    using verified(3) that by (auto simp: sole_primary_def)
  ultimately show ?thesis using verified(1) by fastforce
qed

section \<open>Members\<close>

text \<open>
  C28: in an available snapshot a member is ready exactly when the evidence about it is complete. It
  is the verified primary; or it is a standby with a usable report, replaying from an active
  receiver, of the same database system, for which the primary reports exactly one sender, streaming
  and in a known synchronisation state, which is then the state shown for the member.
\<close>

theorem member_ready_exactly:
  assumes "buildSnapshot K c pods results params at ttl = Some s"
    and "cluster_fencing K c = Some fenced" and "sole_primary K c fenced pods results k" and "j < length pods"
  shows "length (sMembers s) = length pods \<and>
    (mReady (sMembers s ! j) \<longleftrightarrow> j = k \<or>
       replays fenced (pods ! j) (results ! j) \<and> stSystemID (srStatus (results ! j)) = stSystemID (srStatus (results ! k)) \<and>
       (\<exists>state. streams (srStatus (results ! k)) (podName (pods ! j)) state)) \<and>
    (mReady (sMembers s ! j) \<and> j \<noteq> k \<longrightarrow>
       streams (srStatus (results ! k)) (podName (pods ! j)) (mSyncState (sMembers s ! j)))"
  using assms(1)
proof (cases rule: buildSnapshot_cases)
  case (verified fenced' k')
  then have eq: "fenced' = fenced" "k' = k" using assms(2,3) by (auto simp: sole_primary_def)
  let ?ms = "initial_members K c params fenced pods results"
  note len = verified(2)
  have k: "k < length pods" using assms(3) by (simp add: sole_primary_def)
  have ml: "length ?ms \<le> length results" "k < length ?ms" "j < length ?ms"
    using len k assms(4) by (simp_all add: initial_members_nth)
  have s: "sMembers s = verified_members ?ms results k" using verified(4) eq by (simp add: unavailable_def)
  note nth = verified_members_nth(2) [OF ml] and nth0 = initial_members_nth(2) [OF len assms(4)]
  have "mReady (sMembers s ! k)"
  proof -
    have "claims_primary fenced (pods ! k) (results ! k)" using assms(3) k by (simp add: sole_primary_def)
    then have "mRole (?ms ! k) = ''primary''" using initial_member_primary initial_members_nth(2) [OF len k] by simp
    then show ?thesis unfolding s verified_members_nth(2) [OF ml(1,2,2)] by (simp add: verify_standby_def)
  qed
  moreover have "length (sMembers s) = length pods"
    using s verified_members_nth(1) [OF ml(1,2)] initial_members_nth(1) [OF len] by simp
  ultimately show ?thesis
    using nth s nth0 verify_standby_ready [of "?ms ! j"] initial_member_standby [of K c params fenced "pods ! j" "results ! j"]
    by (cases "j = k") auto
qed (use assms(2,3) in auto)

lemma buildSnapshot_total:
  assumes "length pods \<le> length results"
  shows "\<exists>s. buildSnapshot K c pods results params at ttl = Some s"
proof (cases "cluster_fencing K c")
  case (Some fenced)
  let ?e = "\<lambda>p. podName p = fst (primaryNames K c) \<and> \<not> transitioning K c"
  obtain ms pi pc where "member_loop (initial_member K c params fenced) ?e results 0 pods [] None 0 = Some (ms, pi, pc)"
    using member_loop_total [of 0 pods results "initial_member K c params fenced" ?e "[]" None 0] assms by auto
  with Some show ?thesis by (simp add: buildSnapshot_eq)
qed (simp add: buildSnapshot_eq)

text \<open>
  C40: building a snapshot never panics when there is a result for each Pod, and what it builds is
  well formed: it describes the Cluster it was given, expires \<open>ttl\<close> after the observation, lists one
  member per Pod in order with the Pod's identity (none when the fencing is unreadable), and uses
  only the roles and synchronisation states of the protocol.
\<close>

theorem buildSnapshot_well_formed:
  assumes "length pods \<le> length results"
  shows "\<exists>s. buildSnapshot K c pods results params at ttl = Some s \<and>
    sAPIVersion s = APIVersion \<and> sCluster s = clusterRef K c \<and> sObservedAt s = at \<and> sValidUntil s = at + ttl \<and>
    (if cluster_fencing K c = None then sMembers s = []
     else map mID (sMembers s) = map podUID pods \<and> map mName (sMembers s) = map podName pods) \<and>
    list_all legal_member (sMembers s)"
proof -
  obtain s where s: "buildSnapshot K c pods results params at ttl = Some s" using buildSnapshot_total [OF assms] by blast
  have init: "list_all legal_member (initial_members K c params fenced pods results)"
    "map mID (initial_members K c params fenced pods results) = map podUID pods"
    "map mName (initial_members K c params fenced pods results) = map podName pods" for fenced
    using assms initial_member_role
    by (auto simp: list_eq_iff_nth_eq list_all_length initial_members_nth legal_member_def legal_sync_states_def)
  from s show ?thesis
  proof (cases rule: buildSnapshot_cases)
    case (verified fenced k)
    let ?ms = "initial_members K c params fenced pods results"
    have ml: "length ?ms \<le> length results" "k < length ?ms"
      using verified(2,3) by (simp_all add: initial_members_nth sole_primary_def)
    note nth = verified_members_nth [OF ml]
    have "legal_member (verified_members ?ms results k ! j)" if "j < length ?ms" for j
    proof -
      have "legal_member (?ms ! j)" using init(1) that by (simp add: list_all_length)
      then have "legal_member (if j = k then (?ms ! k)\<lparr>mReady := True, mReason := []\<rparr> else ?ms ! j)"
        by (cases "j = k") (simp_all add: legal_member_def)
      then show ?thesis unfolding nth(2) [OF that] by (rule verify_standby_legal)
    qed
    moreover have "map mID (verified_members ?ms results k) = map podUID pods"
      "map mName (verified_members ?ms results k) = map podName pods"
      using init(2,3) [of fenced] nth by (auto simp: list_eq_iff_nth_eq)
    ultimately show ?thesis
      using s verified nth(1) by (simp add: unavailable_def list_all_length)
  qed (use s init in \<open>simp_all add: unavailable_def zero_Snapshot_def\<close>)
qed

section \<open>A concrete cluster\<close>

text \<open>Accessors that follow a path through nested maps, and a cluster of three instances.\<close>

fun nested_value :: "gomap \<Rightarrow> string list \<Rightarrow> goany option" where
  "nested_value m [] = None"
| "nested_value m [f] = fmlookup m f"
| "nested_value m (f # g # fs) = (case fmlookup m f of Some (AMap n) \<Rightarrow> nested_value n (g # fs) | _ \<Rightarrow> None)"

definition nested_string :: "gomap \<Rightarrow> string list \<Rightarrow> string \<times> bool \<times> string option" where
  "nested_string m fs = (case nested_value m fs of
     Some (AString s) \<Rightarrow> (s, True, None) | None \<Rightarrow> ([], False, None) | _ \<Rightarrow> ([], False, Some ''type''))"

definition string_entries :: "gomap \<Rightarrow> string \<rightharpoonup> string" where
  "string_entries m k = (case fmlookup m k of Some (AString s) \<Rightarrow> Some s | _ \<Rightarrow> None)"

definition sample_k8s :: apimachinery where
  "sample_k8s = \<lparr>go = sample_golib,
     GetNamespace = (\<lambda>m. fst (nested_string m [''metadata'', ''namespace''])),
     GetName = (\<lambda>m. fst (nested_string m [''metadata'', ''name''])),
     GetUID = (\<lambda>m. fst (nested_string m [''metadata'', ''uid''])),
     GetAnnotations = (\<lambda>m. case nested_value m [''metadata'', ''annotations''] of Some (AMap n) \<Rightarrow> string_entries n | _ \<Rightarrow> Map.empty),
     GetDeletionTimestamp = (\<lambda>m. case nested_value m [''metadata'', ''deletionTimestamp''] of Some (AInt n) \<Rightarrow> Some n | _ \<Rightarrow> None),
     NestedString = nested_string,
     NestedBool = (\<lambda>m fs. case nested_value m fs of
        Some (ABool b) \<Rightarrow> (b, True, None) | None \<Rightarrow> (False, False, None) | _ \<Rightarrow> (False, False, Some ''type'')),
     NestedSlice = (\<lambda>m fs. case nested_value m fs of
        Some (ASlice vs) \<Rightarrow> (vs, True, None) | None \<Rightarrow> ([], False, None) | _ \<Rightarrow> ([], False, Some ''type'')),
     NestedStringMap = (\<lambda>m fs. case nested_value m fs of
        Some (AMap n) \<Rightarrow> (fmmap (\<lambda>v. case v of AString s \<Rightarrow> s | _ \<Rightarrow> []) n, True, None) | None \<Rightarrow> (fmempty, False, None) | _ \<Rightarrow> (fmempty, False, Some ''type'')),
     NestedFieldNoCopy = (\<lambda>m fs. (nested_value m fs, nested_value m fs \<noteq> None, None))\<rparr>"

definition sample_cluster :: "string \<Rightarrow> string \<Rightarrow> gomap" where
  "sample_cluster current target = fmap_of_list
     [(''metadata'', AMap (fmap_of_list [(''namespace'', AString ''db''), (''name'', AString ''app''), (''uid'', AString ''u1'')])),
      (''status'', AMap (fmap_of_list [(''currentPrimary'', AString current), (''targetPrimary'', AString target)]))]"

definition sample_pod :: "string \<Rightarrow> pod" where
  "sample_pod n = \<lparr>podName = n, podNamespace = ''db'', podUID = n @ ''-uid'', podResourceVersion = ''1'', podGeneration = 1,
     podDeletionTimestamp = None, podLabels = Map.empty,
     podOwnerReferences = [\<lparr>ownerAPIVersion = ''postgresql.cnpg.io/v1'', ownerKind = ''Cluster'', ownerName = ''app'',
       ownerUID = ''u1'', ownerController = None, ownerBlockOwnerDeletion = None\<rparr>],
     podNodeName = ''node'', podContainers = [], podPhase = ''Running'', podIP = ''10.0.0.1'',
     podConditions = [\<lparr>conditionType = ''Ready'', conditionStatus = ''True''\<rparr>], podContainerStatuses = []\<rparr>"

definition sample_result :: "bool \<Rightarrow> replicationStatus list \<Rightarrow> statusResult" where
  "sample_result primary senders = \<lparr>srStatus = zero_instanceStatus\<lparr>stIsPrimary := Some primary, stSystemID := ''sys'', stTimeline := 1,
     stWalReceiverActive := \<not> primary, stReplication := senders\<rparr>, srErr = None\<rparr>"

definition sample_pods :: "pod list" where
  "sample_pods = [sample_pod ''p1'', sample_pod ''p2'', sample_pod ''p3'']"

definition sample_results :: "statusResult list" where
  "sample_results = [sample_result True [\<lparr>rsApplicationName = ''p2'', rsState = ''streaming'', rsSyncState = ''sync''\<rparr>],
     sample_result False [], sample_result False []]"

definition sample_built :: v1_Snapshot where
  "sample_built = the (buildSnapshot sample_k8s (sample_cluster ''p1'' ''p1'') sample_pods sample_results zero_Parameters 100 15)"

lemma sample_built_Some:
  "buildSnapshot sample_k8s (sample_cluster ''p1'' ''p1'') sample_pods sample_results zero_Parameters 100 15 = Some sample_built"
proof -
  have "buildSnapshot sample_k8s (sample_cluster ''p1'' ''p1'') sample_pods sample_results zero_Parameters 100 15 \<noteq> None"
    by code_simp
  then show ?thesis by (simp add: sample_built_def)
qed

lemma sample_built_facts:
  "sAvailable sample_built" "map mReady (sMembers sample_built) = [True, True, False]"
  "cluster_fencing sample_k8s (sample_cluster ''p1'' ''p1'') = Some []"
  by code_simp+

lemma sample_sole_primary: "sole_primary sample_k8s (sample_cluster ''p1'' ''p1'') [] sample_pods sample_results 0"
proof -
  have "\<not> transitioning sample_k8s (sample_cluster ''p1'' ''p1'')" "length sample_pods = 3"
    "podName (sample_pods ! 0) = fst (primaryNames sample_k8s (sample_cluster ''p1'' ''p1''))"
    "claims_primary [] (sample_pods ! 0) (sample_results ! 0)" "\<not> claims_primary [] (sample_pods ! 1) (sample_results ! 1)"
    "\<not> claims_primary [] (sample_pods ! 2) (sample_results ! 2)"
    by code_simp+
  moreover have "j = 0 \<or> j = 1 \<or> j = 2" if "j < 3" for j :: nat using that by auto
  ultimately show ?thesis unfolding sole_primary_def by (metis zero_less_numeral zero_neq_one zero_neq_numeral)
qed

theorem available_iff_sole_primary_witness: "sAvailable sample_built \<and> sPrimaryID sample_built = podUID (sample_pods ! 0)"
  using available_iff_sole_primary [OF sample_built_Some] sample_built_facts(1,3) sample_sole_primary by blast

definition split_results :: "statusResult list" where
  "split_results = [sample_result True [], sample_result False [], sample_result True []]"

theorem unavailable_fails_closed_witness:
  "\<exists>s. buildSnapshot sample_k8s (sample_cluster ''p1'' ''p1'') sample_pods split_results zero_Parameters 100 15 = Some s \<and>
     \<not> sAvailable s \<and> sReason s = ''multiple_primaries_observed'' \<and> withdrawn s"
proof -
  have "buildSnapshot sample_k8s (sample_cluster ''p1'' ''p1'') sample_pods split_results zero_Parameters 100 15 \<noteq> None"
    by code_simp
  then obtain s where s: "buildSnapshot sample_k8s (sample_cluster ''p1'' ''p1'') sample_pods split_results zero_Parameters 100 15 = Some s"
    by auto
  have "claims_primary [] (sample_pods ! 0) (split_results ! 0)" "claims_primary [] (sample_pods ! 2) (split_results ! 2)"
    "length sample_pods = 3" by code_simp+
  then have "\<not> sAvailable s \<and> sReason s = ''multiple_primaries_observed''"
    using conjunct2 [OF unavailable_fails_closed [OF s], rule_format, of "[]" 0 2] sample_built_facts(3) by simp
  then show ?thesis using unavailable_fails_closed [OF s] s by blast
qed

theorem member_ready_exactly_witness:
  "length (sMembers sample_built) = 3 \<and> mReady (sMembers sample_built ! 1) \<and>
   replays [] (sample_pods ! 1) (sample_results ! 1) \<and> streams (srStatus (sample_results ! 0)) ''p2'' (mSyncState (sMembers sample_built ! 1))"
proof -
  have "mReady (sMembers sample_built ! 1)" "podName (sample_pods ! 1) = ''p2''" "length sample_pods = 3" by code_simp+
  with member_ready_exactly [OF sample_built_Some sample_built_facts(3) sample_sole_primary, of 1] show ?thesis by simp
qed

theorem buildSnapshot_well_formed_witness:
  "sCluster sample_built = clusterRef sample_k8s (sample_cluster ''p1'' ''p1'') \<and> sValidUntil sample_built = 115 \<and>
   map mID (sMembers sample_built) = map podUID sample_pods \<and> list_all legal_member (sMembers sample_built)"
proof -
  have "length sample_pods \<le> length sample_results" by code_simp
  from buildSnapshot_well_formed [OF this, of sample_k8s "sample_cluster ''p1'' ''p1''" zero_Parameters 100 15]
  show ?thesis using sample_built_Some sample_built_facts(3) by auto
qed

end
