(* ===== verification/Evidence.thy ===== *)
theory Evidence
  imports Topology_Props
begin

text \<open>
  Negative safety evidence (\<open>internal/observer/primary_evidence.go\<close>) and the matching of probe
  results to the current Pods (\<open>matchInstanceResults\<close> of \<open>collection.go\<close>). The evidence remembers which
  instances claimed to be primary against the Cluster, until a verified demotion or a replacement; a lone entry of the
  primary a collection started from is cleared as well.
\<close>

section \<open>State and operations\<close>

record primaryEvidence =
  evClusterUID :: string
  evMembers :: "(string, string) fmap"

type_synonym primaries = "clusterKey \<rightharpoonup> primaryEvidence"

definition zero_str :: "string option \<Rightarrow> string" where
  "zero_str v = (case v of None \<Rightarrow> [] | Some s \<Rightarrow> s)"

text \<open>The loop over the current Pods: their UIDs by name, and entries of replaced Pods dropped.\<close>

fun current_loop :: "pod list \<Rightarrow> (string \<rightharpoonup> string) \<Rightarrow> (string, string) fmap \<Rightarrow> (string \<rightharpoonup> string) \<times> (string, string) fmap" where
  "current_loop [] uids members = (uids, members)"
| "current_loop (p # ps) uids members =
     current_loop ps (uids(podName p \<mapsto> podUID p))
       (case fmlookup members (podName p) of
          Some uid \<Rightarrow> if uid \<noteq> podUID p then fmdrop (podName p) members else members
        | None \<Rightarrow> members)"

text \<open>The loop over the probed Pods; indexing past the results panics.\<close>

fun probed_loop ::
  "(string \<rightharpoonup> string) \<Rightarrow> statusResult list \<Rightarrow> nat \<Rightarrow> pod list \<Rightarrow> (string, string) fmap \<Rightarrow> (string, string) fmap option" where
  "probed_loop uids results i [] members = Some members"
| "probed_loop uids results i (p # ps) members =
     (if (case uids (podName p) of Some uid \<Rightarrow> uid \<noteq> podUID p | None \<Rightarrow> False)
      then probed_loop uids results (Suc i) ps members
      else if i \<ge> length results then None
      else
        let r = results ! i in
          if srErr r \<noteq> None \<or> stIsPrimary (srStatus r) = None then probed_loop uids results (Suc i) ps members
          else if stIsPrimary (srStatus r) = Some True
            then probed_loop uids results (Suc i) ps (fmupd (podName p) (podUID p) members)
          else if zero_str (fmlookup members (podName p)) = podUID p
            then probed_loop uids results (Suc i) ps (fmdrop (podName p) members)
          else probed_loop uids results (Suc i) ps members)"

text \<open>A lone entry for the primary expected at the start of the collection is no conflict.\<close>

definition settle :: "string \<Rightarrow> (string, string) fmap \<Rightarrow> (string, string) fmap" where
  "settle expectedAtCollection members =
     (if fcard (fmdom members) = 1 \<and> fmlookup members expectedAtCollection \<noteq> None then fmempty else members)"

definition conflictingPrimary ::
  "apimachinery \<Rightarrow> gomap \<Rightarrow> gomap \<Rightarrow> pod list \<Rightarrow> pod list \<Rightarrow> statusResult list \<Rightarrow> primaries \<Rightarrow> (bool \<times> primaries) option" where
  "conflictingPrimary K observed cluster probed current results primaries =
     (let key = ClusterKey (GetNamespace K cluster) (GetName K cluster);
          evidence = (case primaries key of
                        Some e \<Rightarrow> if evClusterUID e \<noteq> GetUID K cluster
                                  then \<lparr>evClusterUID = GetUID K cluster, evMembers = fmempty\<rparr> else e
                      | None \<Rightarrow> \<lparr>evClusterUID = GetUID K cluster, evMembers = fmempty\<rparr>);
          (currentUIDs, members) = current_loop current Map.empty (evMembers evidence)
      in case probed_loop currentUIDs results 0 probed members of
           None \<Rightarrow> None
         | Some members \<Rightarrow>
             (let members = settle (fst (primaryNames K observed)) members;
                  primaries = primaries(key \<mapsto> evidence\<lparr>evMembers := members\<rparr>);
                  raw = str_at (GetAnnotations K cluster) fenced_annotation
              in case (if raw = [] then Some [] else decode_fenced K raw) of
                   None \<Rightarrow> Some (True, primaries)
                 | Some fenced \<Rightarrow>
                     Some (fBex (fmdom members) (\<lambda>name. name \<noteq> fst (primaryNames K cluster) \<and> \<not> is_fenced fenced name),
                           primaries)))"

text \<open>
  The results of the probed Pods, by the names of the current ones; a Pod that changed meanwhile
  gets an error.
\<close>

definition index_by_name :: "pod list \<Rightarrow> string \<rightharpoonup> nat" where
  "index_by_name pods = fold (\<lambda>i m. m(podName (pods ! i) \<mapsto> i)) [0..<length pods] Map.empty"

definition changed_result :: statusResult where
  "changed_result = \<lparr>srStatus = zero_instanceStatus, srErr = Some ''member changed during observation''\<rparr>"

fun match_loop :: "pod list \<Rightarrow> (string \<rightharpoonup> nat) \<Rightarrow> statusResult list \<Rightarrow> pod list \<Rightarrow> statusResult list option" where
  "match_loop probedPods byName results [] = Some []"
| "match_loop probedPods byName results (p # ps) =
     (case byName (podName p) of
        None \<Rightarrow> map_option (Cons changed_result) (match_loop probedPods byName results ps)
      | Some previous \<Rightarrow>
          (if \<not> samePodRoute (probedPods ! previous) p
           then map_option (Cons changed_result) (match_loop probedPods byName results ps)
           else if previous \<ge> length results then None
           else map_option (Cons (results ! previous)) (match_loop probedPods byName results ps)))"

definition matchInstanceResults :: "pod list \<Rightarrow> pod list \<Rightarrow> statusResult list \<Rightarrow> statusResult list option" where
  "matchInstanceResults probedPods currentPods results =
     match_loop probedPods (index_by_name probedPods) results currentPods"

section \<open>The evidence, entry by entry\<close>

lemma current_loop_members:
  "fmlookup (snd (current_loop ps uids m)) n =
     (case fmlookup m n of
        Some u \<Rightarrow> if \<exists>p\<in>set ps. podName p = n \<and> podUID p \<noteq> u then None else Some u
      | None \<Rightarrow> None)"
proof (induction ps arbitrary: uids m)
  case (Cons p ps)
  show ?case unfolding current_loop.simps Cons.IH by (auto split: option.splits)
qed (simp split: option.splits)

lemma current_loop_uids:
  "n \<notin> podName ` set ps \<Longrightarrow> fst (current_loop ps uids m) n = uids n"
  "distinct (map podName ps) \<Longrightarrow> q \<in> set ps \<Longrightarrow> fst (current_loop ps uids m) (podName q) = Some (podUID q)"
proof -
  show other: "n \<notin> podName ` set ps \<Longrightarrow> fst (current_loop ps uids m) n = uids n" for n ps uids m
    by (induction ps arbitrary: uids m) auto
  show "distinct (map podName ps) \<Longrightarrow> q \<in> set ps \<Longrightarrow> fst (current_loop ps uids m) (podName q) = Some (podUID q)"
    by (induction ps arbitrary: uids m) (auto simp: other)
qed

text \<open>A current Pod has the name of \<open>p\<close> and another UID.\<close>

definition replaced :: "pod list \<Rightarrow> pod \<Rightarrow> bool" where
  "replaced current p \<longleftrightarrow> (\<exists>q\<in>set current. podName q = podName p \<and> podUID q \<noteq> podUID p)"

lemma replaced_uids:
  assumes "distinct (map podName current)"
  shows "(case fst (current_loop current Map.empty m) (podName p) of Some uid \<Rightarrow> uid \<noteq> podUID p | None \<Rightarrow> False) \<longleftrightarrow> replaced current p"
proof (cases "podName p \<in> podName ` set current")
  case True
  then obtain q where q: "q \<in> set current" "podName q = podName p" by auto
  have "inj_on podName (set current)" using assms by (simp add: distinct_map)
  then have "q' = q" if "q' \<in> set current" "podName q' = podName p" for q'
    by (rule inj_onD) (simp_all only: q that)
  then have "replaced current p \<longleftrightarrow> podUID q \<noteq> podUID p" unfolding replaced_def using q by blast
  moreover have "fst (current_loop current Map.empty m) (podName p) = Some (podUID q)"
    using current_loop_uids(2) [OF assms q(1)] q(2) by simp
  ultimately show ?thesis by simp
next
  case False
  have "fst (current_loop current Map.empty m) (podName p) = None" using current_loop_uids(1) [OF False] by simp
  moreover have "\<not> replaced current p" unfolding replaced_def using False by (metis image_eqI)
  ultimately show ?thesis by simp
qed

text \<open>What a probe establishes about a Pod that has not been replaced.\<close>

definition asserts_primary :: "pod list \<Rightarrow> pod \<Rightarrow> statusResult \<Rightarrow> bool" where
  "asserts_primary current p r \<longleftrightarrow> \<not> replaced current p \<and> srErr r = None \<and> stIsPrimary (srStatus r) = Some True"

definition demoted :: "pod list \<Rightarrow> pod \<Rightarrow> statusResult \<Rightarrow> bool" where
  "demoted current p r \<longleftrightarrow> \<not> replaced current p \<and> srErr r = None \<and> stIsPrimary (srStatus r) = Some False"

lemma probed_loop_lookup:
  assumes "\<And>p. (case uids (podName p) of Some uid \<Rightarrow> uid \<noteq> podUID p | None \<Rightarrow> False) \<longleftrightarrow> replaced current p"
  shows "probed_loop uids results i ps m = Some m' \<Longrightarrow> distinct (map podName ps) \<Longrightarrow>
    (n \<notin> podName ` set ps \<longrightarrow> fmlookup m' n = fmlookup m n) \<and>
    (\<forall>j<length ps. podName (ps ! j) = n \<longrightarrow> fmlookup m' n =
       (if asserts_primary current (ps ! j) (results ! (i + j)) then Some (podUID (ps ! j))
        else if demoted current (ps ! j) (results ! (i + j)) \<and> zero_str (fmlookup m n) = podUID (ps ! j) then None
        else fmlookup m n))"
proof (induction ps arbitrary: i m)
  case (Cons p ps)
  let ?r = "results ! i"
  let ?m = "if asserts_primary current p ?r then fmupd (podName p) (podUID p) m
     else if demoted current p ?r \<and> zero_str (fmlookup m (podName p)) = podUID p then fmdrop (podName p) m else m"
  have "probed_loop uids results (Suc i) ps ?m = Some m'"
    using Cons.prems(1) assms [of p]
    by (auto simp: Let_def asserts_primary_def demoted_def split: if_split_asm)
  note IH = Cons.IH [OF this, rule_format]
  have p: "podName p \<notin> podName ` set ps" "distinct (map podName ps)" using Cons.prems(2) by auto
  have other: "fmlookup ?m n = fmlookup m n" if "n \<noteq> podName p" using that by auto
  have idx: "podName (ps ! j) \<noteq> podName p" if "j < length ps" for j using p(1) that by (metis image_eqI nth_mem)
  show ?case
  proof (intro conjI impI allI)
    assume "n \<notin> podName ` set (p # ps)"
    then show "fmlookup m' n = fmlookup m n" using IH p other by auto
  next
    fix j assume j: "j < length (p # ps)" "podName ((p # ps) ! j) = n"
    show "fmlookup m' n =
       (if asserts_primary current ((p # ps) ! j) (results ! (i + j)) then Some (podUID ((p # ps) ! j))
        else if demoted current ((p # ps) ! j) (results ! (i + j)) \<and> zero_str (fmlookup m n) = podUID ((p # ps) ! j) then None
        else fmlookup m n)"
    proof (cases j)
      case 0
      then have n: "n = podName p" using j(2) by simp
      then have "fmlookup m' n = fmlookup ?m n" using IH p by blast
      then show ?thesis using 0 n by simp
    next
      case (Suc k)
      then have k: "k < length ps" "podName (ps ! k) = n" "n \<noteq> podName p" using j idx by auto
      then show ?thesis using conjunct2 [OF IH [OF p(2)], rule_format, of k] other Suc by simp
    qed
  qed
qed simp

section \<open>Conflicts\<close>

text \<open>The evidence a call starts from, and the entries it keeps before settling.\<close>

definition starting_evidence :: "apimachinery \<Rightarrow> gomap \<Rightarrow> primaries \<Rightarrow> (string, string) fmap" where
  "starting_evidence K cluster primaries =
     (case primaries (ClusterKey (GetNamespace K cluster) (GetName K cluster)) of
        Some e \<Rightarrow> if evClusterUID e \<noteq> GetUID K cluster then fmempty else evMembers e
      | None \<Rightarrow> fmempty)"

definition evidence_of :: "apimachinery \<Rightarrow> gomap \<Rightarrow> primaries \<Rightarrow> (string, string) fmap" where
  "evidence_of K cluster primaries =
     (case primaries (ClusterKey (GetNamespace K cluster) (GetName K cluster)) of Some e \<Rightarrow> evMembers e | None \<Rightarrow> fmempty)"

definition tolerated :: "apimachinery \<Rightarrow> gomap \<Rightarrow> string \<Rightarrow> bool" where
  "tolerated K cluster name \<longleftrightarrow> (let raw = str_at (GetAnnotations K cluster) fenced_annotation in
     case (if raw = [] then Some [] else decode_fenced K raw) of None \<Rightarrow> False | Some fenced \<Rightarrow> is_fenced fenced name)"

lemma conflictingPrimary_cases:
  assumes "conflictingPrimary K observed cluster probed current results primaries = Some (conflict, primaries')"
    and "distinct (map podName probed)" and "distinct (map podName current)"
  obtains m where
    "probed_loop (fst (current_loop current Map.empty (starting_evidence K cluster primaries))) results 0 probed
       (snd (current_loop current Map.empty (starting_evidence K cluster primaries))) = Some m"
    "evidence_of K cluster primaries' = settle (fst (primaryNames K observed)) m"
    "\<And>n. fmlookup (settle (fst (primaryNames K observed)) m) n \<noteq> None \<Longrightarrow> n \<noteq> fst (primaryNames K cluster) \<Longrightarrow>
       \<not> tolerated K cluster n \<Longrightarrow> conflict"
    "conflict \<Longrightarrow> str_at (GetAnnotations K cluster) fenced_annotation = [] \<Longrightarrow>
       \<exists>n. fmlookup (settle (fst (primaryNames K observed)) m) n \<noteq> None \<and> n \<noteq> fst (primaryNames K cluster)"
proof -
  let ?e = "case primaries (ClusterKey (GetNamespace K cluster) (GetName K cluster)) of
      Some e \<Rightarrow> if evClusterUID e \<noteq> GetUID K cluster then \<lparr>evClusterUID = GetUID K cluster, evMembers = fmempty\<rparr> else e
    | None \<Rightarrow> \<lparr>evClusterUID = GetUID K cluster, evMembers = fmempty\<rparr>"
  have e: "evMembers ?e = starting_evidence K cluster primaries"
    by (simp add: starting_evidence_def split: option.splits)
  let ?L = "current_loop current Map.empty (starting_evidence K cluster primaries)"
  from assms(1) obtain m where m: "probed_loop (fst ?L) results 0 probed (snd ?L) = Some m"
    unfolding conflictingPrimary_def Let_def case_prod_beta e by (auto split: option.splits)
  let ?raw = "str_at (GetAnnotations K cluster) fenced_annotation"
  let ?f = "if ?raw = [] then Some [] else decode_fenced K ?raw"
  let ?s = "settle (fst (primaryNames K observed)) m"
  from assms(1) m have p': "primaries' = primaries(ClusterKey (GetNamespace K cluster) (GetName K cluster) \<mapsto> ?e\<lparr>evMembers := ?s\<rparr>)"
    and c: "conflict = (case ?f of None \<Rightarrow> True
         | Some fenced \<Rightarrow> fBex (fmdom ?s) (\<lambda>name. name \<noteq> fst (primaryNames K cluster) \<and> \<not> is_fenced fenced name))"
    unfolding conflictingPrimary_def Let_def case_prod_beta e by (auto split: option.splits)
  show thesis
  proof (rule that [OF m])
    show "evidence_of K cluster primaries' = ?s" unfolding p' by (simp add: evidence_of_def)
    show "conflict" if "fmlookup ?s n \<noteq> None" "n \<noteq> fst (primaryNames K cluster)" "\<not> tolerated K cluster n" for n
    proof (cases ?f)
      case (Some fenced)
      with that(3) have "\<not> is_fenced fenced n" unfolding tolerated_def Let_def by simp
      moreover have "n |\<in>| fmdom ?s" using that(1) by (simp add: fmlookup_dom_iff)
      ultimately show ?thesis unfolding c Some using that(2) by auto
    qed (simp add: c)
    show "\<exists>n. fmlookup ?s n \<noteq> None \<and> n \<noteq> fst (primaryNames K cluster)" if "conflict" "?raw = []"
      using that unfolding c by (auto simp: fmlookup_dom_iff)
  qed
qed

lemma settle_keeps: "n \<noteq> expected \<Longrightarrow> fmlookup (settle expected m) n = fmlookup m n"
proof (cases "fcard (fmdom m) = 1 \<and> fmlookup m expected \<noteq> None")
  case True
  assume n: "n \<noteq> expected"
  from True have "card (fset (fmdom m)) = 1" by (simp add: fcard.rep_eq)
  then obtain x where x: "fset (fmdom m) = {x}" by (rule card_1_singletonE)
  moreover have "expected \<in> fset (fmdom m)" using True by (auto simp: fmlookup_dom_iff)
  ultimately have "n \<notin> fset (fmdom m)" using n by simp
  then have "fmlookup m n = None" by (rule fmdom_notD)
  then show ?thesis using True by (simp add: settle_def)
qed (auto simp: settle_def)

text \<open>
  A conflicting primary is detected. When a probed Pod that has not been replaced reports
  itself primary, although neither the Cluster the collection started from nor the current one
  names it, the observation is in conflict and the claim is remembered, unless the instance is fenced.
\<close>

theorem conflict_detected:
  assumes "conflictingPrimary K observed cluster probed current results primaries = Some (conflict, primaries')"
    and "distinct (map podName probed)" and "distinct (map podName current)"
    and "j < length probed" and "asserts_primary current (probed ! j) (results ! j)"
    and "podName (probed ! j) \<noteq> fst (primaryNames K observed)"
  shows "fmlookup (evidence_of K cluster primaries') (podName (probed ! j)) = Some (podUID (probed ! j)) \<and>
    (podName (probed ! j) \<noteq> fst (primaryNames K cluster) \<and> \<not> tolerated K cluster (podName (probed ! j)) \<longrightarrow> conflict)"
proof -
  obtain m where m: "probed_loop (fst (current_loop current Map.empty (starting_evidence K cluster primaries))) results 0 probed
       (snd (current_loop current Map.empty (starting_evidence K cluster primaries))) = Some m"
    and ev: "evidence_of K cluster primaries' = settle (fst (primaryNames K observed)) m"
    and c: "\<And>n. fmlookup (settle (fst (primaryNames K observed)) m) n \<noteq> None \<Longrightarrow> n \<noteq> fst (primaryNames K cluster) \<Longrightarrow>
       \<not> tolerated K cluster n \<Longrightarrow> conflict"
    using conflictingPrimary_cases [OF assms(1-3)] by metis
  have "fmlookup m (podName (probed ! j)) = Some (podUID (probed ! j))"
    using conjunct2 [OF probed_loop_lookup [OF replaced_uids [OF assms(3)] m assms(2)], rule_format, OF assms(4) refl] assms(5)
    by simp
  then have "fmlookup (settle (fst (primaryNames K observed)) m) (podName (probed ! j)) = Some (podUID (probed ! j))"
    using settle_keeps [OF assms(6)] by simp
  then show ?thesis using ev c by auto
qed





text \<open>
  A healthy cluster raises no alarm. Without remembered conflicts, when only the primary the
  collection started from claims to be primary and nothing is fenced, there is no conflict and
  nothing is remembered, even if the Cluster has been failed over to another instance meanwhile.
\<close>

theorem healthy_no_conflict:
  assumes "conflictingPrimary K observed cluster probed current results primaries = Some (conflict, primaries')"
    and "distinct (map podName probed)" and "distinct (map podName current)"
    and "starting_evidence K cluster primaries = fmempty"
    and "\<And>j. j < length probed \<Longrightarrow> asserts_primary current (probed ! j) (results ! j) \<Longrightarrow>
       podName (probed ! j) = fst (primaryNames K observed)"
    and "str_at (GetAnnotations K cluster) fenced_annotation = []"
  shows "\<not> conflict \<and> evidence_of K cluster primaries' = fmempty"
proof -
  let ?L = "current_loop current Map.empty (starting_evidence K cluster primaries)"
  obtain m where m: "probed_loop (fst ?L) results 0 probed (snd ?L) = Some m"
    and ev: "evidence_of K cluster primaries' = settle (fst (primaryNames K observed)) m"
    and c: "conflict \<Longrightarrow> \<exists>n. fmlookup (settle (fst (primaryNames K observed)) m) n \<noteq> None \<and> n \<noteq> fst (primaryNames K cluster)"
    using conflictingPrimary_cases [OF assms(1-3)] assms(6) by metis
  have none: "fmlookup m n = None" if "n \<noteq> fst (primaryNames K observed)" for n
  proof (cases "n \<in> podName ` set probed")
    case True
    then obtain j where j: "j < length probed" "podName (probed ! j) = n" by (auto simp: in_set_conv_nth)
    with assms(5) [OF j(1)] that conjunct2 [OF probed_loop_lookup [OF replaced_uids [OF assms(3)] m assms(2)], rule_format, OF j]
    show ?thesis by (auto simp: current_loop_members assms(4))
  next
    case False
    with conjunct1 [OF probed_loop_lookup [OF replaced_uids [OF assms(3)] m assms(2), of n]]
    show ?thesis by (simp add: current_loop_members assms(4))
  qed
  have "settle (fst (primaryNames K observed)) m = fmempty"
  proof (cases "fmlookup m (fst (primaryNames K observed)) = None")
    case True
    then have "m = fmempty" using none by (metis fmap_ext fmempty_lookup)
    then show ?thesis by (simp add: settle_def)
  next
    case False
    have "fmdom m = {|fst (primaryNames K observed)|}"
      using False none by (metis fmdomE fmdomI fset_eqI finsert_iff fempty_iff not_None_eq option.distinct(1))
    then show ?thesis using False by (simp add: settle_def fcard.rep_eq)
  qed
  then show ?thesis using ev c by auto
qed

section \<open>Matching results\<close>

lemma index_by_name_Some:
  assumes "index_by_name pods n = Some i"
  shows "i < length pods \<and> podName (pods ! i) = n"
proof -
  have "fold (\<lambda>i m. m(podName (pods ! i) \<mapsto> i)) is m n = Some i \<Longrightarrow>
      (i \<in> set is \<and> podName (pods ! i) = n) \<or> m n = Some i" for "is" m
  proof (induction "is" arbitrary: m)
    case (Cons j "is")
    from Cons.IH [of "m(podName (pods ! j) \<mapsto> j)"] Cons.prems show ?case by (auto split: if_splits)
  qed simp
  then show ?thesis using assms unfolding index_by_name_def by fastforce
qed

lemma match_loop_spec:
  assumes "length probed \<le> length results"
  shows "\<exists>mapped. match_loop probed (index_by_name probed) results ps = Some mapped \<and> length mapped = length ps \<and>
    (\<forall>i<length ps. mapped ! i = changed_result \<or>
       (\<exists>j<length probed. mapped ! i = results ! j \<and> samePodRoute (probed ! j) (ps ! i)))"
proof (induction ps)
  case (Cons p ps)
  then obtain mapped where m: "match_loop probed (index_by_name probed) results ps = Some mapped" "length mapped = length ps"
    and spec: "\<And>i. i < length ps \<Longrightarrow> mapped ! i = changed_result \<or>
       (\<exists>j<length probed. mapped ! i = results ! j \<and> samePodRoute (probed ! j) (ps ! i))" by blast
  have ext: "\<forall>i<length (p # ps). (x # mapped) ! i = changed_result \<or>
       (\<exists>j<length probed. (x # mapped) ! i = results ! j \<and> samePodRoute (probed ! j) ((p # ps) ! i))"
    if "x = changed_result \<or> (\<exists>j<length probed. x = results ! j \<and> samePodRoute (probed ! j) p)" for x
    using that spec by (auto simp: nth_Cons split: nat.splits)
  show ?case
  proof (cases "index_by_name probed (podName p)")
    case None
    then show ?thesis using m ext [of changed_result] by simp
  next
    case (Some k)
    have k: "k < length probed" using index_by_name_Some [OF Some] by simp
    show ?thesis
    proof (cases "samePodRoute (probed ! k) p")
      case True
      then show ?thesis using m ext [of "results ! k"] k Some assms by auto
    next
      case False
      then show ?thesis using m ext [of changed_result] Some by simp
    qed
  qed
qed simp

text \<open>
  Results are attributed to the right instance. Matching never panics when each probed Pod has
  a result; it gives one result per current Pod, which is an error or the result of a probed Pod
  with the same route: the same name, UID, address, readiness, node, scheme, container and owners.
\<close>

theorem matched_results_same_route:
  assumes "length probed \<le> length results"
  shows "\<exists>mapped. matchInstanceResults probed current results = Some mapped \<and> length mapped = length current \<and>
    (\<forall>i<length current. srErr (mapped ! i) \<noteq> None \<or>
       (\<exists>j<length probed. mapped ! i = results ! j \<and> samePodRoute (probed ! j) (current ! i)))"
proof -
  from match_loop_spec [OF assms, of current] obtain mapped where
    "match_loop probed (index_by_name probed) results current = Some mapped" "length mapped = length current"
    "\<forall>i<length current. mapped ! i = changed_result \<or>
       (\<exists>j<length probed. mapped ! i = results ! j \<and> samePodRoute (probed ! j) (current ! i))" by blast
  then show ?thesis unfolding matchInstanceResults_def by (metis changed_result_def option.distinct(1) statusResult.select_convs(2))
qed

section \<open>Concrete runs\<close>

definition split_call :: "bool \<times> primaries" where
  "split_call = the (conflictingPrimary sample_k8s (sample_cluster ''p1'' ''p1'') (sample_cluster ''p1'' ''p1'')
     sample_pods sample_pods split_results Map.empty)"

lemma split_call_Some:
  "conflictingPrimary sample_k8s (sample_cluster ''p1'' ''p1'') (sample_cluster ''p1'' ''p1'') sample_pods sample_pods split_results Map.empty
     = Some (fst split_call, snd split_call)"
proof -
  have "conflictingPrimary sample_k8s (sample_cluster ''p1'' ''p1'') (sample_cluster ''p1'' ''p1'')
     sample_pods sample_pods split_results Map.empty \<noteq> None" by code_simp
  then show ?thesis by (simp add: split_call_def)
qed

lemma sample_pods_distinct: "distinct (map podName sample_pods)" by code_simp

theorem conflict_detected_witness:
  "fst split_call \<and> fmlookup (evidence_of sample_k8s (sample_cluster ''p1'' ''p1'') (snd split_call)) ''p3'' = Some ''p3-uid''"
proof -
  have "2 < length sample_pods" "asserts_primary sample_pods (sample_pods ! 2) (split_results ! 2)"
    "podName (sample_pods ! 2) = ''p3''" "podUID (sample_pods ! 2) = ''p3-uid''"
    "fst (primaryNames sample_k8s (sample_cluster ''p1'' ''p1'')) = ''p1''"
    "\<not> tolerated sample_k8s (sample_cluster ''p1'' ''p1'') ''p3''" by code_simp+
  with conflict_detected [OF split_call_Some sample_pods_distinct sample_pods_distinct, of 2] show ?thesis by simp
qed




text \<open>
  The exception needs neither a demotion nor a replacement of the instance itself: when a lone remembered instance has
  become the primary that the Cluster names, the next collection clears the evidence even if all of its probes fail.
\<close>

definition lone_evidence :: primaries where
  "lone_evidence = [ClusterKey ''db'' ''app'' \<mapsto> \<lparr>evClusterUID = ''u1'', evMembers = fmap_of_list [(''p3'', ''p3-uid'')]\<rparr>]"

definition lone_call :: "bool \<times> primaries" where
  "lone_call = the (conflictingPrimary sample_k8s (sample_cluster ''p3'' ''p3'') (sample_cluster ''p3'' ''p3'') sample_pods sample_pods
     [changed_result, changed_result, changed_result] lone_evidence)"

theorem lone_evidence_cleared:
  "fmlookup (evidence_of sample_k8s (sample_cluster ''p3'' ''p3'') lone_evidence) ''p3'' = Some ''p3-uid'' \<and>
   fmlookup (evidence_of sample_k8s (sample_cluster ''p3'' ''p3'') (snd lone_call)) ''p3'' = None \<and> \<not> fst lone_call"
  by (intro conjI) code_simp+

definition healthy_call :: "bool \<times> primaries" where
  "healthy_call = the (conflictingPrimary sample_k8s (sample_cluster ''p1'' ''p1'') (sample_cluster ''p2'' ''p2'')
     sample_pods sample_pods sample_results Map.empty)"

theorem healthy_no_conflict_witness:
  "\<not> fst healthy_call \<and> evidence_of sample_k8s (sample_cluster ''p2'' ''p2'') (snd healthy_call) = fmempty"
proof -
  let ?a = "sample_cluster ''p1'' ''p1''" and ?b = "sample_cluster ''p2'' ''p2''"
  have "conflictingPrimary sample_k8s ?a ?b sample_pods sample_pods sample_results Map.empty \<noteq> None" by code_simp
  then have call: "conflictingPrimary sample_k8s ?a ?b sample_pods sample_pods sample_results Map.empty
      = Some (fst healthy_call, snd healthy_call)" by (simp add: healthy_call_def)
  have "list_all (\<lambda>(p, r). asserts_primary sample_pods p r \<longrightarrow> podName p = fst (primaryNames sample_k8s ?a)) (zip sample_pods sample_results)"
    "length sample_results = length sample_pods" by code_simp+
  then have only: "\<And>j. j < length sample_pods \<Longrightarrow> asserts_primary sample_pods (sample_pods ! j) (sample_results ! j) \<Longrightarrow>
       podName (sample_pods ! j) = fst (primaryNames sample_k8s ?a)" by (auto simp: list_all_length)
  have "str_at (GetAnnotations sample_k8s ?b) fenced_annotation = []" by code_simp
  from healthy_no_conflict [OF call sample_pods_distinct sample_pods_distinct _ only this] show ?thesis
    by (simp add: starting_evidence_def)
qed

theorem matched_results_same_route_witness:
  "\<exists>mapped. matchInstanceResults sample_pods sample_pods sample_results = Some mapped \<and> length mapped = 3 \<and>
     srErr (mapped ! 0) = None \<and> (\<exists>j<3. mapped ! 0 = sample_results ! j)"
proof -
  have l: "length sample_pods \<le> length sample_results" "length sample_pods = 3" by code_simp+
  have "srErr (the (matchInstanceResults sample_pods sample_pods sample_results) ! 0) = None" by code_simp
  with matched_results_same_route [OF l(1), of sample_pods] l(2) show ?thesis by fastforce
qed

end
