(* ===== verification/Publication.thy ===== *)
theory Publication
  imports Api_Types
begin

text \<open>
  \<open>internal/discovery/publication.go\<close>: immutable publications, the one-slot mailbox of a
  subscription, delivery that rejects older publications, and closing. A send on a closed channel
  and a second close panic in Go; the operations return \<open>None\<close> there. The interface the rest of
  the package relies on, a mailbox that holds the latest publication and never rewinds, is the
  locale \<open>latest_mailbox\<close>.
\<close>

section \<open>Publications and notifications\<close>

text \<open>
  The lazily built \<open>wire\<close> message is a function of the snapshot (\<open>publication.protobuf\<close>), so
  it is not part of the state.
\<close>

record publication =
  pSnapshot :: v1_Snapshot
  pOrder :: nat

definition protobuf :: "(time \<Rightarrow> 'ts) \<Rightarrow> publication \<Rightarrow> 'ts pb_Snapshot" where
  "protobuf tsNew p = toProto tsNew (pSnapshot p)"

text \<open>Watchers are named by the address of their subscription.\<close>

record notification =
  nPublication :: "publication option"
  nWatchers :: "nat list"

definition no_notification :: notification where
  "no_notification = \<lparr>nPublication = None, nWatchers = []\<rparr>"

section \<open>Subscriptions\<close>

text \<open>Exactly one of the two channels of a subscription is non-nil.\<close>

datatype mailbox = Snapshots "v1_Snapshot chan" | Publications "publication chan"

text \<open>\<open>subOnce\<close> is the \<open>sync.Once\<close> of the subscription's cancel function.\<close>

record subscription =
  subOrder :: nat
  subClosed :: bool
  subMailbox :: mailbox
  subOnce :: bool

definition new_subscription :: "mailbox \<Rightarrow> subscription" where
  "new_subscription mb = \<lparr>subOrder = 0, subClosed = False, subMailbox = mb, subOnce = False\<rparr>"

text \<open>
  \<open>replacePending\<close>: drain the slot without blocking (a closed channel yields at once), then
  send. The send cannot block, because the slot has just been drained.
\<close>

definition replacePending :: "'a chan \<Rightarrow> 'a \<Rightarrow> ('a chan \<times> bool) option" where
  "replacePending updates latest =
     (let replaced = (slot updates \<noteq> None \<or> chClosed updates);
          drained = updates\<lparr>slot := None\<rparr>
      in if chClosed drained then None
         else Some (drained\<lparr>slot := Some latest\<rparr>, replaced))"

definition clone :: "v1_Snapshot \<Rightarrow> v1_Snapshot" where
  "clone s = s\<lparr>sConnection := (sConnection s)\<lparr>cServerCAPEM := cServerCAPEM (sConnection s)\<rparr>,
               sMembers := map (\<lambda>m. m\<lparr>mEndpoints := (\<lambda>network. mEndpoints m network)\<rparr>) (sMembers s)\<rparr>"

definition mailbox_replace :: "mailbox \<Rightarrow> publication \<Rightarrow> (mailbox \<times> bool) option" where
  "mailbox_replace mb published =
     (case mb of
        Publications c \<Rightarrow> map_option (\<lambda>(c', r). (Publications c', r)) (replacePending c published)
      | Snapshots c \<Rightarrow> map_option (\<lambda>(c', r). (Snapshots c', r)) (replacePending c (clone (pSnapshot published))))"

text \<open>\<open>subscription.deliver\<close>: the new subscription and whether a pending one was coalesced.\<close>

definition subscription_deliver :: "publication \<Rightarrow> subscription \<Rightarrow> (subscription \<times> bool) option" where
  "subscription_deliver published sub =
     (if subClosed sub \<or> pOrder published \<le> subOrder sub then Some (sub, False)
      else map_option (\<lambda>(mb, replaced). (sub\<lparr>subOrder := pOrder published, subMailbox := mb\<rparr>, replaced))
             (mailbox_replace (subMailbox sub) published))"

definition mailbox_close :: "mailbox \<Rightarrow> mailbox option" where
  "mailbox_close mb =
     (case mb of
        Publications c \<Rightarrow> if chClosed c then None else Some (Publications (c\<lparr>chClosed := True\<rparr>))
      | Snapshots c \<Rightarrow> if chClosed c then None else Some (Snapshots (c\<lparr>chClosed := True\<rparr>)))"

definition subscription_close :: "subscription \<Rightarrow> subscription option" where
  "subscription_close sub =
     map_option (\<lambda>mb. sub\<lparr>subClosed := True, subMailbox := mb\<rparr>) (mailbox_close (subMailbox sub))"

text \<open>
  A consumer's receive: what is pending, and the emptied slot. \<open>Closed\<close> is Go's
  \<open>v, ok := <-ch\<close> with \<open>ok\<close> false, \<open>Blocked\<close> an open, empty channel.
\<close>

datatype 'a received = Value 'a | Closed | Blocked

definition chan_receive :: "'a chan \<Rightarrow> 'a received \<times> 'a chan" where
  "chan_receive c =
     (case slot c of
        Some v \<Rightarrow> (Value v, c\<lparr>slot := None\<rparr>)
      | None \<Rightarrow> (if chClosed c then Closed else Blocked, c))"

section \<open>Facts\<close>

lemma clone_id [simp]: "clone s = s"
  by (simp add: clone_def)

definition mailbox_closed :: "mailbox \<Rightarrow> bool" where
  "mailbox_closed mb = (case mb of Publications c \<Rightarrow> chClosed c | Snapshots c \<Rightarrow> chClosed c)"

text \<open>
  A subscription is well formed when its flag and its channel agree on being closed, and a
  pending publication is the one the subscription last recorded.
\<close>

definition sub_wf :: "subscription \<Rightarrow> bool" where
  "sub_wf sub \<longleftrightarrow> subClosed sub = mailbox_closed (subMailbox sub) \<and>
     (\<forall>c p. subMailbox sub = Publications c \<and> slot c = Some p \<longrightarrow> pOrder p = subOrder sub)"

lemma sub_wf_new [simp]:
  "sub_wf (new_subscription (Publications make_chan))"
  "sub_wf (new_subscription (Snapshots make_chan))"
  by (simp_all add: sub_wf_def new_subscription_def make_chan_def mailbox_closed_def)

lemmas deliver_defs = subscription_deliver_def mailbox_replace_def replacePending_def Let_def

lemma deliver_no_panic:
  "sub_wf sub \<Longrightarrow> \<exists>sub' c. subscription_deliver p sub = Some (sub', c)"
  by (auto simp: sub_wf_def deliver_defs mailbox_closed_def split: mailbox.splits)

lemma deliver_wf:
  "sub_wf sub \<Longrightarrow> subscription_deliver p sub = Some (sub', c) \<Longrightarrow> sub_wf sub'"
  by (auto simp: sub_wf_def deliver_defs mailbox_closed_def split: mailbox.splits if_splits)

lemma deliver_order:
  "subscription_deliver p sub = Some (sub', c) \<Longrightarrow>
   subOrder sub' = (if subClosed sub then subOrder sub else max (subOrder sub) (pOrder p))"
  by (auto simp: deliver_defs split: mailbox.splits if_splits)

lemma deliver_closed:
  "subscription_deliver p sub = Some (sub', c) \<Longrightarrow> subClosed sub' = subClosed sub"
  by (auto simp: deliver_defs split: mailbox.splits if_splits)

lemma deliver_once:
  "subscription_deliver p sub = Some (sub', c) \<Longrightarrow> subOnce sub' = subOnce sub"
  by (auto simp: deliver_defs split: mailbox.splits if_splits)

lemma deliver_fresh_pending:
  "sub_wf sub \<Longrightarrow> \<not> subClosed sub \<Longrightarrow> subOrder sub < pOrder p \<Longrightarrow> subMailbox sub = Publications ch \<Longrightarrow>
   subscription_deliver p sub = Some (sub', c) \<Longrightarrow>
   subMailbox sub' = Publications \<lparr>slot = Some p, chClosed = False\<rparr> \<and> c = (slot ch \<noteq> None)"
  by (cases ch) (auto simp: deliver_defs sub_wf_def mailbox_closed_def)

lemma close_no_panic:
  "sub_wf sub \<Longrightarrow> \<not> subClosed sub \<Longrightarrow> \<exists>sub'. subscription_close sub = Some sub'"
  by (auto simp: sub_wf_def subscription_close_def mailbox_close_def mailbox_closed_def
           split: mailbox.splits)

lemma close_wf: "sub_wf sub \<Longrightarrow> subscription_close sub = Some sub' \<Longrightarrow> sub_wf sub' \<and> subClosed sub'"
  by (auto simp: sub_wf_def subscription_close_def mailbox_close_def mailbox_closed_def
           split: mailbox.splits if_splits)

lemma close_frame:
  "subscription_close sub = Some sub' \<Longrightarrow> subOrder sub' = subOrder sub \<and> subOnce sub' = subOnce sub"
  by (auto simp: subscription_close_def)


section \<open>The mailbox contract\<close>

text \<open>
  What the stream handler relies on: a delivery either installs a newer publication, replacing
  whatever was pending, or changes nothing; taking empties the slot. The locale derives from it
  that no interleaving of deliveries and receives lets a consumer see an older publication after
  a newer one, and that the newest delivered publication is never lost.
\<close>

datatype 'p mail_event = Deliver 'p | Take

locale latest_mailbox =
  fixes invar :: "'m \<Rightarrow> bool"
    and ord :: "'p \<Rightarrow> nat"
    and deliver :: "'p \<Rightarrow> 'm \<Rightarrow> 'm"
    and take_pending :: "'m \<Rightarrow> 'p option \<times> 'm"
    and seen :: "'m \<Rightarrow> nat"
    and pending :: "'m \<Rightarrow> 'p option"
  assumes invar_deliver: "invar m \<Longrightarrow> invar (deliver p m)"
    and invar_take: "invar m \<Longrightarrow> invar (snd (take_pending m))"
    and pending_seen: "invar m \<Longrightarrow> pending m = Some p \<Longrightarrow> ord p = seen m"
    and deliver_new: "invar m \<Longrightarrow> seen m < ord p \<Longrightarrow>
          pending (deliver p m) = Some p \<and> seen (deliver p m) = ord p"
    and deliver_old: "invar m \<Longrightarrow> ord p \<le> seen m \<Longrightarrow> deliver p m = m"
    and take_value: "invar m \<Longrightarrow> fst (take_pending m) = pending m"
    and take_state: "invar m \<Longrightarrow> pending (snd (take_pending m)) = None \<and> seen (snd (take_pending m)) = seen m"
begin

fun mail_step :: "'p mail_event \<Rightarrow> 'p list \<times> 'm \<Rightarrow> 'p list \<times> 'm" where
  "mail_step (Deliver p) (h, m) = (h, deliver p m)"
| "mail_step Take (h, m) =
     (case take_pending m of (None, m') \<Rightarrow> (h, m') | (Some p, m') \<Rightarrow> (p # h, m'))"

text \<open>
  The history \<open>h\<close> lists what was received, newest first. It is strictly decreasing and below
  what may still come; and a mailbox that has moved past \<open>s0\<close> still shows, pending or as the
  last received, the publication it moved to.
\<close>

definition next_floor :: "'m \<Rightarrow> nat" where
  "next_floor m = (case pending m of None \<Rightarrow> Suc (seen m) | Some p \<Rightarrow> ord p)"

definition consistent :: "nat \<Rightarrow> 'p list \<times> 'm \<Rightarrow> bool" where
  "consistent s0 = (\<lambda>(h, m). invar m \<and> sorted_wrt (>) (map ord h) \<and>
     (\<forall>p\<in>set h. ord p < next_floor m) \<and> s0 \<le> seen m \<and>
     (s0 < seen m \<longrightarrow> pending m \<noteq> None \<or> h \<noteq> [] \<and> ord (hd h) = seen m))"

lemma floor_deliver:
  assumes "invar m"
  shows "next_floor m \<le> next_floor (deliver p m) \<and> seen (deliver p m) = max (seen m) (ord p)"
proof (cases "seen m < ord p")
  case True
  with deliver_new [OF assms True] pending_seen [OF assms] show ?thesis
    by (auto simp: next_floor_def split: option.splits)
next
  case False
  with deliver_old [OF assms] show ?thesis by simp
qed

lemma consistent_deliver:
  assumes "consistent s0 (h, m)"
  shows "consistent s0 (h, deliver p m)"
proof -
  from assms have inv: "invar m" by (simp add: consistent_def)
  from floor_deliver [OF inv, of p] assms
  have "\<forall>q\<in>set h. ord q < next_floor (deliver p m)" and "s0 \<le> seen (deliver p m)"
    by (auto simp: consistent_def)
  moreover have "s0 < seen (deliver p m) \<longrightarrow>
      pending (deliver p m) \<noteq> None \<or> h \<noteq> [] \<and> ord (hd h) = seen (deliver p m)"
    using deliver_new [OF inv, of p] deliver_old [OF inv, of p] assms
    by (cases "seen m < ord p") (auto simp: consistent_def)
  ultimately show ?thesis using assms invar_deliver [OF inv] by (simp add: consistent_def)
qed

lemma consistent_take:
  assumes c: "consistent s0 (h, m)" and t: "take_pending m = (q, m')"
  shows "consistent s0 (case q of None \<Rightarrow> h | Some p \<Rightarrow> p # h, m')"
proof -
  from c have inv: "invar m" by (simp add: consistent_def)
  from invar_take [OF inv] take_value [OF inv] take_state [OF inv] t
  have inv': "invar m'" and q: "q = pending m" and fl: "next_floor m' = Suc (seen m)"
    and seen': "seen m' = seen m" and none: "pending m' = None"
    by (simp_all add: next_floor_def)
  show ?thesis
  proof (cases q)
    case None
    with c q inv' fl seen' show ?thesis by (auto simp: consistent_def next_floor_def)
  next
    case (Some p)
    with q have p: "pending m = Some p" by simp
    with pending_seen [OF inv] have "ord p = seen m" and "next_floor m = ord p"
      by (simp_all add: next_floor_def)
    with c Some inv' fl seen' show ?thesis by (auto simp: consistent_def intro: less_SucI)
  qed
qed

lemma consistent_step: "consistent s0 c \<Longrightarrow> consistent s0 (mail_step e c)"
  by (cases c; cases e)
    (auto simp: consistent_deliver split: option.splits prod.splits dest: consistent_take)

lemma consistent_run: "consistent s0 c \<Longrightarrow> consistent s0 (fold mail_step es c)"
  by (induction es arbitrary: c) (auto simp: consistent_step)

lemma step_seen:
  assumes "invar (snd c)"
  shows "seen (snd c) \<le> seen (snd (mail_step e c)) \<and> invar (snd (mail_step e c)) \<and>
         (\<forall>p. e = Deliver p \<longrightarrow> ord p \<le> seen (snd (mail_step e c)))"
  using assms invar_take [of "snd c"] take_state [of "snd c"]
  by (cases c; cases e) (auto simp: floor_deliver invar_deliver split: option.splits prod.splits)

lemma run_mono: "invar (snd c) \<Longrightarrow> seen (snd c) \<le> seen (snd (fold mail_step es c))"
proof (induction es arbitrary: c)
  case (Cons e es)
  with step_seen [of c e] have "seen (snd (mail_step e c)) \<le> seen (snd (fold mail_step es (mail_step e c)))"
    by blast
  with step_seen [of c e] Cons.prems show ?case by simp
qed simp

lemma run_seen:
  "invar (snd c) \<Longrightarrow> Deliver p \<in> set es \<Longrightarrow> ord p \<le> seen (snd (fold mail_step es c))"
proof (induction es arbitrary: c)
  case (Cons e es)
  from step_seen [OF Cons.prems(1), of e] have inv: "invar (snd (mail_step e c))" by blast
  show ?case
  proof (cases "Deliver p = e")
    case True
    with step_seen [OF Cons.prems(1), of e] run_mono [OF inv, of es] show ?thesis by fastforce
  next
    case False
    with Cons.prems(2) have "Deliver p \<in> set es" by simp
    with Cons.IH [OF inv] show ?thesis by simp
  qed
qed simp

theorem received_in_order:
  assumes "invar m" and "pending m = None" and "fold mail_step es ([], m) = (h, m')"
  shows "sorted_wrt (<) (map ord (rev h))"
proof -
  have "consistent (seen m) ([], m)" using assms by (simp add: consistent_def)
  from consistent_run [OF this, of es] assms(3) have "sorted_wrt (>) (map ord h)"
    by (simp add: consistent_def)
  then show ?thesis by (simp add: sorted_wrt_rev rev_map [symmetric])
qed

theorem newest_not_lost:
  assumes "invar m" and "pending m = None" and "fold mail_step es ([], m) = (h, m')"
    and "Deliver p \<in> set es" and "seen m < ord p"
  shows "\<exists>q. (pending m' = Some q \<or> h \<noteq> [] \<and> hd h = q) \<and> ord p \<le> ord q"
proof -
  have "consistent (seen m) ([], m)" using assms by (simp add: consistent_def)
  from consistent_run [OF this, of es] assms(3) have c: "consistent (seen m) (h, m')" by simp
  have "ord p \<le> seen m'" using run_seen [of "([], m)" p es] assms by simp
  with c assms(5) pending_seen [of m'] show ?thesis by (fastforce simp: consistent_def)
qed

end

text \<open>The open gRPC subscription of \<open>publication.go\<close> keeps the contract.\<close>

definition shared_open :: "subscription \<Rightarrow> bool" where
  "shared_open sub \<longleftrightarrow> sub_wf sub \<and> \<not> subClosed sub \<and> (\<exists>c. subMailbox sub = Publications c)"

definition sub_deliver :: "publication \<Rightarrow> subscription \<Rightarrow> subscription" where
  "sub_deliver p sub = (case subscription_deliver p sub of Some (sub', _) \<Rightarrow> sub' | None \<Rightarrow> sub)"

definition sub_pending :: "subscription \<Rightarrow> publication option" where
  "sub_pending sub = (case subMailbox sub of Publications c \<Rightarrow> slot c | Snapshots c \<Rightarrow> None)"

definition sub_take :: "subscription \<Rightarrow> publication option \<times> subscription" where
  "sub_take sub =
     (case subMailbox sub of
        Snapshots c \<Rightarrow> (None, sub)
      | Publications c \<Rightarrow>
          (case chan_receive c of
             (Value p, c') \<Rightarrow> (Some p, sub\<lparr>subMailbox := Publications c'\<rparr>)
           | (_, c') \<Rightarrow> (None, sub\<lparr>subMailbox := Publications c'\<rparr>)))"

interpretation shared: latest_mailbox shared_open pOrder sub_deliver sub_take subOrder sub_pending
proof (unfold_locales, goal_cases)
  case (1 m p)
  then show ?case
    by (auto simp: shared_open_def sub_deliver_def sub_wf_def mailbox_closed_def deliver_defs)
next
  case (2 m)
  then show ?case
    by (auto simp: shared_open_def sub_take_def chan_receive_def sub_wf_def mailbox_closed_def
             split: option.splits)
next
  case (3 m p)
  then show ?case by (auto simp: shared_open_def sub_pending_def sub_wf_def)
next
  case (4 m p)
  then show ?case
    by (auto simp: shared_open_def sub_deliver_def sub_wf_def mailbox_closed_def deliver_defs
             sub_pending_def)
next
  case (5 m p)
  then show ?case by (simp add: sub_deliver_def subscription_deliver_def)
next
  case (6 m)
  then show ?case
    by (auto simp: shared_open_def sub_take_def sub_pending_def chan_receive_def split: option.splits)
next
  case (7 m)
  then show ?case
    by (auto simp: shared_open_def sub_take_def sub_pending_def chan_receive_def split: option.splits)
qed

end
