(* ===== verification/Store.thy ===== *)
theory Store
  imports Publication
begin

text \<open>
  \<open>internal/discovery/store.go\<close>: the snapshot store. Every critical section of the Go code
  (between \<open>s.mu.Lock\<close> and \<open>s.mu.Unlock\<close>) is one function from store to store; the
  deliveries it leaves for later are returned as \<open>notification\<close>s. Each \<open>time.Now()\<close> of the code
  is an argument. The store's subscriptions are kept in a heap, because a notification captured
  before a cancellation still refers to the cancelled subscription.
\<close>

section \<open>State\<close>

text \<open>
  \<open>'d\<close> is the type of routing digests. \<open>H\<close> below stands for \<open>sha256.Sum256\<close> of the JSON
  encoding of a normalised snapshot.
\<close>

record 'd store_record =
  rPublication :: publication
  rRouting :: 'd
  rExpired :: bool

text \<open>
  \<open>onDemand\<close> records whether a demand handler is installed; the operations that call it return
  whether they do. \<open>panicked\<close> is set by a send on, or a second close of, a closed channel.
  The counters are unbounded: \<open>2^64\<close> publications are out of reach of a process.
\<close>

record 'd store =
  coalesced :: nat
  expirations :: nat
  records :: "clusterKey \<rightharpoonup> 'd store_record"
  subscribers :: "clusterKey \<rightharpoonup> nat list"
  unaryDemand :: "clusterKey \<rightharpoonup> time"
  onDemand :: bool
  unaryLease :: duration
  processID :: string
  sequence :: nat
  publicationOrder :: nat
  heap :: "nat \<rightharpoonup> subscription"
  nextSub :: nat
  panicked :: bool

text \<open>\<open>NewStore\<close>: \<open>None\<close> is the panic when the random source fails.\<close>

definition NewStore :: "8 word list option \<Rightarrow> 'd store option" where
  "NewStore rand = map_option (\<lambda>bytes.
     \<lparr>coalesced = 0, expirations = 0, records = Map.empty, subscribers = Map.empty,
      unaryDemand = Map.empty, onDemand = False, unaryLease = 0,
      processID = hex_EncodeToString bytes, sequence = 0, publicationOrder = 0,
      heap = Map.empty, nextSub = 0, panicked = False\<rparr>) rand"

definition SetDemandHandler :: "bool \<Rightarrow> duration \<Rightarrow> 'd store \<Rightarrow> 'd store" where
  "SetDemandHandler handler lease s = s\<lparr>onDemand := handler, unaryLease := lease\<rparr>"

section \<open>Helpers that require the lock\<close>

definition watchers_of :: "clusterKey \<Rightarrow> 'd store \<Rightarrow> nat list" where
  "watchers_of key s = (case subscribers s key of None \<Rightarrow> [] | Some ws \<Rightarrow> ws)"

definition hasDemand :: "clusterKey \<Rightarrow> time \<Rightarrow> 'd store \<Rightarrow> bool \<times> 'd store" where
  "hasDemand key now s =
     (let deadline = (case unaryDemand s key of None \<Rightarrow> 0 | Some d \<Rightarrow> d);
          unary = now < deadline;
          s' = (if \<not> unary then s\<lparr>unaryDemand := (unaryDemand s)(key := None)\<rparr> else s)
      in (length (watchers_of key s') > 0 \<or> unary, s'))"

definition nextRevision :: "'d store \<Rightarrow> string \<times> 'd store" where
  "nextRevision s =
     (let s' = s\<lparr>sequence := sequence s + 1\<rparr>
      in (processID s' @ '':'' @ show_nat (sequence s'), s'))"

definition newPublication :: "v1_Snapshot \<Rightarrow> 'd store \<Rightarrow> publication \<times> 'd store" where
  "newPublication snapshot s =
     (let s' = s\<lparr>publicationOrder := publicationOrder s + 1\<rparr>
      in (\<lparr>pSnapshot = snapshot, pOrder = publicationOrder s'\<rparr>, s'))"

definition notification_for :: "clusterKey \<Rightarrow> publication \<Rightarrow> 'd store \<Rightarrow> notification" where
  "notification_for key published s = \<lparr>nPublication = Some published, nWatchers = watchers_of key s\<rparr>"

definition invalidate :: "v1_Snapshot \<Rightarrow> v1_Snapshot" where
  "invalidate s = s\<lparr>sAvailable := False, sReason := ''expired'', sPrimaryID := [],
     sMembers := map (\<lambda>m. m\<lparr>mReady := False, mReason := ''expired''\<rparr>) (sMembers s)\<rparr>"

text \<open>
  \<open>routingDigest\<close> hashes the snapshot without revision, timestamps and replay positions, members
  ordered by ID, then name. (Members with equal ID and name are the only ones whose order Go's
  unstable sort leaves open.)
\<close>

definition routing_view :: "v1_Snapshot \<Rightarrow> v1_Snapshot" where
  "routing_view s = s\<lparr>sRevision := [], sObservedAt := 0, sValidUntil := 0,
     sMembers := sort_key (\<lambda>m. (mID m, mName m)) (map (\<lambda>m. m\<lparr>mReplayLSN := []\<rparr>) (sMembers s))\<rparr>"

definition routingDigest :: "(v1_Snapshot \<Rightarrow> 'd) \<Rightarrow> v1_Snapshot \<Rightarrow> 'd" where
  "routingDigest H s = H (routing_view s)"

definition expireRecord ::
  "(v1_Snapshot \<Rightarrow> 'd) \<Rightarrow> clusterKey \<Rightarrow> 'd store_record \<Rightarrow> time \<Rightarrow> 'd store
     \<Rightarrow> 'd store_record \<times> notification \<times> 'd store" where
  "expireRecord H key current now s =
     (if rExpired current \<or> now < sValidUntil (pSnapshot (rPublication current))
      then (current, no_notification, s)
      else
        (let expired = invalidate (pSnapshot (rPublication current));
             (revision, s1) = nextRevision s;
             expired = expired\<lparr>sRevision := revision\<rparr>;
             (published, s2) = newPublication expired s1;
             current' = \<lparr>rPublication = published, rRouting = routingDigest H expired, rExpired = True\<rparr>;
             s3 = s2\<lparr>records := (records s2)(key \<mapsto> current'), expirations := expirations s2 + 1\<rparr>
         in (current', notification_for key published s3, s3)))"

section \<open>Delivery, outside the lock\<close>

definition deliver_one :: "publication \<Rightarrow> nat \<Rightarrow> 'd store \<Rightarrow> 'd store" where
  "deliver_one published w s =
     (case heap s w of
        None \<Rightarrow> s
      | Some sub \<Rightarrow>
          (case subscription_deliver published sub of
             None \<Rightarrow> s\<lparr>panicked := True\<rparr>
           | Some (sub', replaced) \<Rightarrow>
               s\<lparr>heap := (heap s)(w \<mapsto> sub'),
                 coalesced := coalesced s + (if replaced then 1 else 0)\<rparr>))"

definition notification_deliver :: "notification \<Rightarrow> 'd store \<Rightarrow> 'd store" where
  "notification_deliver n s =
     (case nPublication n of None \<Rightarrow> s | Some p \<Rightarrow> fold (deliver_one p) (nWatchers n) s)"

section \<open>Operations\<close>

text \<open>The result is the returned flag, whether the demand handler is called, and the store.\<close>

definition RequestRefresh :: "time \<Rightarrow> clusterKey \<Rightarrow> 'd store \<Rightarrow> bool \<times> bool \<times> 'd store" where
  "RequestRefresh now key s =
     (if records s key = None then (False, False, s)
      else
        (let (active, s1) = hasDemand key now s;
             s2 = (if unaryLease s1 > 0
                   then s1\<lparr>unaryDemand := (unaryDemand s1)(key \<mapsto> now + unaryLease s1)\<rparr> else s1)
         in (True, \<not> active \<and> onDemand s2, s2)))"

definition HasDemand :: "time \<Rightarrow> clusterKey \<Rightarrow> 'd store \<Rightarrow> bool \<times> 'd store" where
  "HasDemand now key s = hasDemand key now s"

text \<open>
  \<open>ActiveClusters\<close>: \<open>order\<close> is the order in which Go ranges over the collected \<open>active\<close> keys;
  the final sort removes it from the result.
\<close>

definition is_active :: "time \<Rightarrow> 'd store \<Rightarrow> clusterKey \<Rightarrow> bool" where
  "is_active now s key \<longleftrightarrow> subscribers s key \<noteq> None \<or>
     (case unaryDemand s key of None \<Rightarrow> False | Some deadline \<Rightarrow> now < deadline)"

definition prune_unary :: "time \<Rightarrow> 'd store \<Rightarrow> 'd store" where
  "prune_unary now s =
     s\<lparr>unaryDemand := (\<lambda>key. case unaryDemand s key of
                          None \<Rightarrow> None
                        | Some deadline \<Rightarrow> if now < deadline then Some deadline else None)\<rparr>"

definition ActiveClusters :: "time \<Rightarrow> clusterKey list \<Rightarrow> 'd store \<Rightarrow> v1_ClusterRef list \<times> 'd store" where
  "ActiveClusters now order s =
     (let active = filter (is_active now s) order;
          s' = prune_unary now s;
          result = List.map_filter (\<lambda>key. map_option (\<lambda>r. sCluster (pSnapshot (rPublication r))) (records s' key)) active
      in (sort_key (\<lambda>r. (rNamespace r, rName r)) result, s'))"

definition PutDeferred ::
  "(v1_Snapshot \<Rightarrow> 'd) \<Rightarrow> time \<Rightarrow> time \<Rightarrow> v1_Snapshot \<Rightarrow> 'd store \<Rightarrow> bool \<times> notification \<times> 'd store" where
  "PutDeferred H now1 now2 snapshot s =
     (let snapshot = clone snapshot;
          snapshot = snapshot\<lparr>sAPIVersion := APIVersion\<rparr>;
          key = snapshot_key snapshot;
          expired = (\<not> now1 < sValidUntil snapshot);
          snapshot = (if expired then invalidate snapshot else snapshot);
          routing = routingDigest H snapshot;
          late = (\<not> expired \<and> \<not> now2 < sValidUntil snapshot);
          expired = (expired \<or> late);
          snapshot = (if late then invalidate snapshot else snapshot);
          routing = (if late then routingDigest H snapshot else routing);
          changed = (case records s key of None \<Rightarrow> True | Some previous \<Rightarrow> rRouting previous \<noteq> routing);
          (revision, s1) =
            (if changed then nextRevision s
             else (sRevision (pSnapshot (rPublication (the (records s key)))), s));
          snapshot = snapshot\<lparr>sRevision := revision\<rparr>;
          (published, s2) = newPublication snapshot s1;
          s3 = s2\<lparr>records := (records s2)(key \<mapsto>
                 \<lparr>rPublication = published, rRouting = routing, rExpired = expired\<rparr>)\<rparr>
      in (changed, notification_for key published s3, s3))"

definition Put :: "(v1_Snapshot \<Rightarrow> 'd) \<Rightarrow> time \<Rightarrow> time \<Rightarrow> v1_Snapshot \<Rightarrow> 'd store \<Rightarrow> bool \<times> 'd store" where
  "Put H now1 now2 snapshot s =
     (let (changed, n, s') = PutDeferred H now1 now2 snapshot s
      in (changed, notification_deliver n s'))"

definition tombstone :: "string \<Rightarrow> v1_Snapshot \<Rightarrow> v1_Snapshot" where
  "tombstone revision previous =
     previous\<lparr>sRevision := revision, sAvailable := False, sReason := ''deleted'', sPrimaryID := [],
              sTransitioning := False, sMembers := []\<rparr>"

definition DeleteDeferred :: "clusterKey \<Rightarrow> 'd store \<Rightarrow> notification \<times> 'd store" where
  "DeleteDeferred key s =
     (let s1 = s\<lparr>unaryDemand := (unaryDemand s)(key := None)\<rparr>
      in case records s1 key of
           None \<Rightarrow> (no_notification, s1)
         | Some previous \<Rightarrow>
             (let (revision, s2) = nextRevision s1;
                  deleted = tombstone revision (pSnapshot (rPublication previous));
                  s3 = s2\<lparr>records := (records s2)(key := None)\<rparr>;
                  (published, s4) = newPublication deleted s3
              in (notification_for key published s4, s4)))"

definition Delete :: "clusterKey \<Rightarrow> 'd store \<Rightarrow> 'd store" where
  "Delete key s = (let (n, s') = DeleteDeferred key s in notification_deliver n s')"

definition ClusterIdentity :: "clusterKey \<Rightarrow> 'd store \<Rightarrow> v1_ClusterRef option" where
  "ClusterIdentity key s = map_option (\<lambda>r. sCluster (pSnapshot (rPublication r))) (records s key)"

definition readPublication ::
  "(v1_Snapshot \<Rightarrow> 'd) \<Rightarrow> time \<Rightarrow> clusterKey \<Rightarrow> 'd store \<Rightarrow> publication option \<times> notification \<times> 'd store" where
  "readPublication H now key s =
     (case records s key of
        None \<Rightarrow> (None, no_notification, s)
      | Some current \<Rightarrow>
          (let (current', n, s') = expireRecord H key current now s
           in (Some (rPublication current'), n, s')))"

definition getPublication ::
  "(v1_Snapshot \<Rightarrow> 'd) \<Rightarrow> time \<Rightarrow> clusterKey \<Rightarrow> 'd store \<Rightarrow> publication option \<times> 'd store" where
  "getPublication H now key s =
     (let (p, n, s') = readPublication H now key s in (p, notification_deliver n s'))"

definition GetDeferred ::
  "(v1_Snapshot \<Rightarrow> 'd) \<Rightarrow> time \<Rightarrow> clusterKey \<Rightarrow> 'd store \<Rightarrow> v1_Snapshot option \<times> notification \<times> 'd store" where
  "GetDeferred H now key s =
     (let (p, n, s') = readPublication H now key s
      in (map_option (\<lambda>p. clone (pSnapshot p)) p, n, s'))"

definition Get :: "(v1_Snapshot \<Rightarrow> 'd) \<Rightarrow> time \<Rightarrow> clusterKey \<Rightarrow> 'd store \<Rightarrow> v1_Snapshot option \<times> 'd store" where
  "Get H now key s = (let (snap, n, s') = GetDeferred H now key s in (snap, notification_deliver n s'))"

text \<open>
  The critical section of \<open>register\<close>: \<open>None\<close> for a rejected unknown cluster, otherwise the new
  watcher, the expiry notification, the initial publication and whether the handler is called.
\<close>

definition register_commit ::
  "(v1_Snapshot \<Rightarrow> 'd) \<Rightarrow> time \<Rightarrow> time \<Rightarrow> clusterKey \<Rightarrow> bool \<Rightarrow> mailbox \<Rightarrow> 'd store
     \<Rightarrow> (nat \<times> notification \<times> publication option \<times> bool \<times> 'd store) option" where
  "register_commit H now1 now2 key requireExisting mb s =
     (if records s key = None \<and> requireExisting then None
      else
        (let w = nextSub s;
             s0 = s\<lparr>heap := (heap s)(w \<mapsto> new_subscription mb), nextSub := w + 1\<rparr>;
             (initial, expired, s1) = readPublication H now1 key s0;
             (active, s2) = hasDemand key now2 s1;
             s3 = s2\<lparr>subscribers := (subscribers s2)(key \<mapsto> watchers_of key s2 @ [w])\<rparr>
         in Some (w, expired, initial, \<not> active \<and> onDemand s3, s3)))"

definition register ::
  "(v1_Snapshot \<Rightarrow> 'd) \<Rightarrow> time \<Rightarrow> time \<Rightarrow> clusterKey \<Rightarrow> bool \<Rightarrow> mailbox \<Rightarrow> 'd store
     \<Rightarrow> (nat \<times> bool \<times> 'd store) option" where
  "register H now1 now2 key requireExisting mb s =
     map_option (\<lambda>(w, expired, initial, demand, s').
         (w, demand,
          (case initial of None \<Rightarrow> notification_deliver expired s'
           | Some p \<Rightarrow> deliver_one p w (notification_deliver expired s'))))
       (register_commit H now1 now2 key requireExisting mb s)"

definition Subscribe ::
  "(v1_Snapshot \<Rightarrow> 'd) \<Rightarrow> time \<Rightarrow> time \<Rightarrow> clusterKey \<Rightarrow> 'd store \<Rightarrow> (nat \<times> bool \<times> 'd store) option" where
  "Subscribe H now1 now2 key s = register H now1 now2 key False (Snapshots make_chan) s"

definition subscribeShared ::
  "(v1_Snapshot \<Rightarrow> 'd) \<Rightarrow> time \<Rightarrow> time \<Rightarrow> clusterKey \<Rightarrow> 'd store \<Rightarrow> (nat \<times> bool \<times> 'd store) option" where
  "subscribeShared H now1 now2 key s = register H now1 now2 key True (Publications make_chan) s"

text \<open>
  The cancel function returned by \<open>register\<close>: its first call unregisters the watcher and closes
  its channel, later calls do nothing.
\<close>

definition unregister :: "clusterKey \<Rightarrow> nat \<Rightarrow> 'd store \<Rightarrow> 'd store" where
  "unregister key w s =
     (let ws = filter (\<lambda>v. v \<noteq> w) (watchers_of key s)
      in s\<lparr>subscribers := (subscribers s)(key := (if ws = [] then None else Some ws))\<rparr>)"

definition close_watcher :: "nat \<Rightarrow> 'd store \<Rightarrow> 'd store" where
  "close_watcher w s =
     (case heap s w of
        None \<Rightarrow> s
      | Some sub \<Rightarrow>
          (case subscription_close sub of
             None \<Rightarrow> s\<lparr>panicked := True\<rparr>
           | Some sub' \<Rightarrow> s\<lparr>heap := (heap s)(w \<mapsto> sub')\<rparr>))"

definition cancel_begin :: "clusterKey \<Rightarrow> nat \<Rightarrow> 'd store \<Rightarrow> bool \<times> 'd store" where
  "cancel_begin key w s =
     (case heap s w of
        None \<Rightarrow> (False, s)
      | Some sub \<Rightarrow>
          if subOnce sub then (False, s)
          else (True, unregister key w (s\<lparr>heap := (heap s)(w \<mapsto> sub\<lparr>subOnce := True\<rparr>)\<rparr>)))"

definition cancel :: "clusterKey \<Rightarrow> nat \<Rightarrow> 'd store \<Rightarrow> 'd store" where
  "cancel key w s = (let (first, s') = cancel_begin key w s in if first then close_watcher w s' else s')"

text \<open>\<open>Expire\<close>: \<open>order\<close> is the order in which Go ranges over the records.\<close>

definition expire_key ::
  "(v1_Snapshot \<Rightarrow> 'd) \<Rightarrow> time \<Rightarrow> clusterKey \<Rightarrow> notification list \<times> 'd store \<Rightarrow> notification list \<times> 'd store" where
  "expire_key H now key acc =
     (case acc of (ns, s) \<Rightarrow>
        (case records s key of
           None \<Rightarrow> (ns, s)
         | Some current \<Rightarrow>
             (case expireRecord H key current now s of
                (_, n, s') \<Rightarrow> (if nPublication n \<noteq> None then ns @ [n] else ns, s'))))"

definition ExpireDeferred ::
  "(v1_Snapshot \<Rightarrow> 'd) \<Rightarrow> time \<Rightarrow> clusterKey list \<Rightarrow> 'd store \<Rightarrow> notification list \<times> 'd store" where
  "ExpireDeferred H now order s =
     (let (ns, s') = fold (expire_key H now) order ([], s) in (ns, prune_unary now s'))"

definition Expire :: "(v1_Snapshot \<Rightarrow> 'd) \<Rightarrow> time \<Rightarrow> clusterKey list \<Rightarrow> 'd store \<Rightarrow> 'd store" where
  "Expire H now order s =
     (let (ns, s') = ExpireDeferred H now order s in fold notification_deliver ns s')"

section \<open>The store invariant\<close>

definition revision_of :: "string \<Rightarrow> nat \<Rightarrow> string" where
  "revision_of pid n = pid @ '':'' @ show_nat n"

lemma revision_of_inject [simp]: "revision_of pid a = revision_of pid b \<longleftrightarrow> a = b"
  by (simp add: revision_of_def show_nat_inject)

text \<open>
  A stored record is published under its own key, carries the digest of what it routes, a revision
  this process issued, and offers no route once it is expired.
\<close>

definition record_ok :: "(v1_Snapshot \<Rightarrow> 'd) \<Rightarrow> 'd store \<Rightarrow> clusterKey \<Rightarrow> 'd store_record \<Rightarrow> bool" where
  "record_ok H s key r \<longleftrightarrow>
     (let snap = pSnapshot (rPublication r) in
      snapshot_key snap = key \<and> sAPIVersion snap = APIVersion \<and>
      rRouting r = routingDigest H snap \<and>
      (rExpired r \<longrightarrow> withdrawn snap) \<and>
      1 \<le> pOrder (rPublication r) \<and> pOrder (rPublication r) \<le> publicationOrder s \<and>
      (\<exists>n. 1 \<le> n \<and> n \<le> sequence s \<and> sRevision snap = revision_of (processID s) n))"

definition record_revision :: "'d store_record \<Rightarrow> string" where
  "record_revision r = sRevision (pSnapshot (rPublication r))"

definition records_inv :: "(v1_Snapshot \<Rightarrow> 'd) \<Rightarrow> 'd store \<Rightarrow> bool" where
  "records_inv H s \<longleftrightarrow>
     (\<forall>key r. records s key = Some r \<longrightarrow> record_ok H s key r) \<and>
     (\<forall>k1 k2 r1 r2. records s k1 = Some r1 \<and> records s k2 = Some r2 \<and>
        record_revision r1 = record_revision r2 \<longrightarrow> k1 = k2)"

text \<open>
  Subscriptions: a registered watcher is allocated, registered once and not cancelled; a closed
  channel belongs to a cancelled subscription; nothing has been delivered that was not published.
\<close>

definition subs_inv :: "'d store \<Rightarrow> bool" where
  "subs_inv s \<longleftrightarrow>
     (\<forall>key ws. subscribers s key = Some ws \<longrightarrow> ws \<noteq> [] \<and> distinct ws \<and>
        (\<forall>w\<in>set ws. \<exists>sub. heap s w = Some sub \<and> \<not> subOnce sub)) \<and>
     (\<forall>k1 k2 w. w \<in> set (watchers_of k1 s) \<and> w \<in> set (watchers_of k2 s) \<longrightarrow> k1 = k2) \<and>
     (\<forall>w sub. heap s w = Some sub \<longrightarrow> w < nextSub s \<and> sub_wf sub \<and>
        subOrder sub \<le> publicationOrder s \<and> (subClosed sub \<longrightarrow> subOnce sub)) \<and>
     \<not> panicked s"

definition store_inv :: "(v1_Snapshot \<Rightarrow> 'd) \<Rightarrow> 'd store \<Rightarrow> bool" where
  "store_inv H s \<longleftrightarrow> records_inv H s \<and> subs_inv s \<and> dom (unaryDemand s) \<subseteq> dom (records s)"

lemma store_invE:
  assumes "store_inv H s"
  obtains "records_inv H s" and "subs_inv s" and "dom (unaryDemand s) \<subseteq> dom (records s)"
  using assms by (simp add: store_inv_def)

subsection \<open>Facts about the pure helpers\<close>

lemma invalidate_withdrawn [simp]: "withdrawn (invalidate s)"
  by (auto simp: withdrawn_def invalidate_def)

lemma invalidate_frame [simp]:
  "sValidUntil (invalidate s) = sValidUntil s" "sObservedAt (invalidate s) = sObservedAt s"
  "sAPIVersion (invalidate s) = sAPIVersion s" "sCluster (invalidate s) = sCluster s"
  "snapshot_key (invalidate s) = snapshot_key s" "sConnection (invalidate s) = sConnection s"
  by (simp_all add: invalidate_def snapshot_key_def)

lemma snapshot_key_update [simp]:
  "snapshot_key (s\<lparr>sRevision := r\<rparr>) = snapshot_key s"
  "snapshot_key (s\<lparr>sAPIVersion := a\<rparr>) = snapshot_key s"
  by (simp_all add: snapshot_key_def)

lemma withdrawn_update [simp]: "withdrawn (s\<lparr>sRevision := r\<rparr>) = withdrawn s"
  by (simp add: withdrawn_def)

lemma routingDigest_revision [simp]: "routingDigest H (s\<lparr>sRevision := r\<rparr>) = routingDigest H s"
  by (simp add: routingDigest_def routing_view_def)

lemma tombstone_withdrawn: "withdrawn (tombstone r s)"
  by (simp add: withdrawn_def tombstone_def)

subsection \<open>Frame facts\<close>

lemma deliver_one_frame [frame_simps]:
  "records (deliver_one p w s) = records s"
  "subscribers (deliver_one p w s) = subscribers s"
  "unaryDemand (deliver_one p w s) = unaryDemand s"
  "sequence (deliver_one p w s) = sequence s"
  "publicationOrder (deliver_one p w s) = publicationOrder s"
  "processID (deliver_one p w s) = processID s"
  "onDemand (deliver_one p w s) = onDemand s"
  "unaryLease (deliver_one p w s) = unaryLease s"
  "expirations (deliver_one p w s) = expirations s"
  "nextSub (deliver_one p w s) = nextSub s"
  by (simp_all add: deliver_one_def split: option.splits)

lemma fold_deliver_frame [frame_simps]:
  "records (fold (deliver_one p) ws s) = records s"
  "subscribers (fold (deliver_one p) ws s) = subscribers s"
  "unaryDemand (fold (deliver_one p) ws s) = unaryDemand s"
  "sequence (fold (deliver_one p) ws s) = sequence s"
  "publicationOrder (fold (deliver_one p) ws s) = publicationOrder s"
  "processID (fold (deliver_one p) ws s) = processID s"
  "onDemand (fold (deliver_one p) ws s) = onDemand s"
  "unaryLease (fold (deliver_one p) ws s) = unaryLease s"
  "expirations (fold (deliver_one p) ws s) = expirations s"
  "nextSub (fold (deliver_one p) ws s) = nextSub s"
  by (induction ws arbitrary: s) (simp_all add: frame_simps)

lemma notification_deliver_frame [frame_simps]:
  "records (notification_deliver n s) = records s"
  "subscribers (notification_deliver n s) = subscribers s"
  "unaryDemand (notification_deliver n s) = unaryDemand s"
  "sequence (notification_deliver n s) = sequence s"
  "publicationOrder (notification_deliver n s) = publicationOrder s"
  "processID (notification_deliver n s) = processID s"
  "onDemand (notification_deliver n s) = onDemand s"
  "unaryLease (notification_deliver n s) = unaryLease s"
  "expirations (notification_deliver n s) = expirations s"
  "nextSub (notification_deliver n s) = nextSub s"
  by (simp_all add: notification_deliver_def frame_simps split: option.splits)

lemma watchers_of_cong: "subscribers s = subscribers t \<Longrightarrow> watchers_of key s = watchers_of key t"
  by (simp add: watchers_of_def)

text \<open>The records part of the invariant reads four fields only.\<close>

lemma records_inv_cong:
  "records s = records t \<Longrightarrow> sequence s = sequence t \<Longrightarrow> publicationOrder s = publicationOrder t \<Longrightarrow>
   processID s = processID t \<Longrightarrow> records_inv H s = records_inv H t"
  by (simp add: records_inv_def record_ok_def Let_def)

lemma record_ok_mono:
  "record_ok H s key r \<Longrightarrow> sequence s \<le> sequence t \<Longrightarrow> publicationOrder s \<le> publicationOrder t \<Longrightarrow>
   processID s = processID t \<Longrightarrow> record_ok H t key r"
  by (fastforce simp: record_ok_def Let_def)

text \<open>
  Storing a record keeps the invariant if the record is sound and its revision is fresh or the one
  its predecessor under the same key had; removing one always does.
\<close>

lemma records_inv_store:
  assumes inv: "records_inv H s" and pid: "processID t = processID s"
    and seq: "sequence s \<le> sequence t" and ord: "publicationOrder s \<le> publicationOrder t"
    and rec: "records t = (records s)(key \<mapsto> r)" and ok: "record_ok H t key r"
    and rev: "(\<exists>n > sequence s. record_revision r = revision_of (processID s) n) \<or>
              (\<exists>q. records s key = Some q \<and> record_revision r = record_revision q)"
  shows "records_inv H t"
proof -
  have old: "record_ok H s k q" if "records s k = Some q" for k q
    using inv that by (simp add: records_inv_def)
  have neq: "record_revision q \<noteq> record_revision r" if q: "records s k = Some q" "k \<noteq> key" for k q
    using rev
  proof
    assume "\<exists>n > sequence s. record_revision r = revision_of (processID s) n"
    with old [OF q(1)] show ?thesis
      by (auto simp: record_ok_def Let_def record_revision_def)
  next
    assume "\<exists>q. records s key = Some q \<and> record_revision r = record_revision q"
    with inv q show ?thesis by (metis records_inv_def)
  qed
  have "record_ok H t k q" if "records t k = Some q" for k q
    using that ok record_ok_mono [OF old seq ord] pid rec by (auto split: if_splits)
  moreover have "k1 = k2" if "records t k1 = Some r1" "records t k2 = Some r2"
    "record_revision r1 = record_revision r2" for k1 k2 r1 r2
    using that neq inv rec by (auto simp: records_inv_def split: if_splits)
  ultimately show ?thesis unfolding records_inv_def by blast
qed

lemma records_inv_remove:
  assumes "records_inv H s" and "processID t = processID s" and "sequence s \<le> sequence t"
    and "publicationOrder s \<le> publicationOrder t" and "records t = (records s)(key := None)"
  shows "records_inv H t"
  using assms record_ok_mono [of H s _ _ t]
  by (simp add: records_inv_def split: if_splits)

subsection \<open>Subscriptions keep their invariant\<close>

lemma subs_inv_cong:
  "subscribers s = subscribers t \<Longrightarrow> heap s = heap t \<Longrightarrow> nextSub s = nextSub t \<Longrightarrow>
   publicationOrder s \<le> publicationOrder t \<Longrightarrow> panicked s = panicked t \<Longrightarrow>
   subs_inv s \<Longrightarrow> subs_inv t"
  by (simp add: subs_inv_def watchers_of_def) (meson order_trans)

lemma subs_invD:
  assumes "subs_inv s" and "heap s w = Some sub"
  shows "w < nextSub s" "sub_wf sub" "subOrder sub \<le> publicationOrder s" "subClosed sub \<Longrightarrow> subOnce sub"
  using assms by (auto simp: subs_inv_def)

text \<open>Replacing one allocated subscription by another with the same \<open>sync.Once\<close>.\<close>

lemma subs_inv_heap:
  assumes inv: "subs_inv s" and old: "heap s w = Some sub"
    and new: "sub_wf sub'" "subOrder sub' \<le> publicationOrder s" "subOnce sub' = subOnce sub"
      "subClosed sub' \<longrightarrow> subOnce sub'"
  shows "subs_inv (s\<lparr>heap := (heap s)(w \<mapsto> sub'), coalesced := c\<rparr>)"
  using assms by (fastforce simp: subs_inv_def watchers_of_def)

lemma deliver_one_subs_inv [inv_intros]:
  assumes inv: "subs_inv s" and p: "pOrder p \<le> publicationOrder s"
  shows "subs_inv (deliver_one p w s)"
proof (cases "heap s w")
  case None
  with inv show ?thesis by (simp add: deliver_one_def)
next
  case (Some sub)
  note sub = subs_invD [OF inv Some]
  from deliver_no_panic [OF sub(2)] obtain sub' c where d: "subscription_deliver p sub = Some (sub', c)"
    by blast
  have "subs_inv (s\<lparr>heap := (heap s)(w \<mapsto> sub'), coalesced := coalesced s + (if c then 1 else 0)\<rparr>)"
    by (rule subs_inv_heap [OF inv Some])
      (use deliver_wf [OF sub(2) d] deliver_order [OF d] deliver_once [OF d] deliver_closed [OF d] p sub
       in \<open>auto split: if_splits\<close>)
  with Some d show ?thesis by (simp add: deliver_one_def)
qed

lemma fold_deliver_subs_inv [inv_intros]:
  "subs_inv s \<Longrightarrow> pOrder p \<le> publicationOrder s \<Longrightarrow> subs_inv (fold (deliver_one p) ws s)"
  by (induction ws arbitrary: s) (simp_all add: inv_intros frame_simps)

text \<open>A notification is issued for a publication of the store.\<close>

definition notification_ok :: "'d store \<Rightarrow> notification \<Rightarrow> bool" where
  "notification_ok s n \<longleftrightarrow> (\<forall>p. nPublication n = Some p \<longrightarrow> pOrder p \<le> publicationOrder s)"

lemma no_notification_ok [simp]: "notification_ok s no_notification"
  by (simp add: notification_ok_def no_notification_def)

lemma notification_deliver_subs_inv [inv_intros]:
  "subs_inv s \<Longrightarrow> notification_ok s n \<Longrightarrow> subs_inv (notification_deliver n s)"
  by (simp add: notification_deliver_def notification_ok_def inv_intros split: option.splits)

lemma store_inv_deliver [inv_intros]:
  "store_inv H s \<Longrightarrow> notification_ok s n \<Longrightarrow> store_inv H (notification_deliver n s)"
  using records_inv_cong [of "notification_deliver n s" s H]
  by (simp add: store_inv_def inv_intros frame_simps)

lemma store_inv_deliver_one [inv_intros]:
  "store_inv H s \<Longrightarrow> pOrder p \<le> publicationOrder s \<Longrightarrow> store_inv H (deliver_one p w s)"
  using records_inv_cong [of "deliver_one p w s" s H]
  by (simp add: store_inv_def inv_intros frame_simps)

subsection \<open>Every operation keeps the invariant\<close>

lemma NewStore_inv: "NewStore rand = Some s \<Longrightarrow> store_inv H s"
  by (auto simp: NewStore_def store_inv_def records_inv_def subs_inv_def watchers_of_def)

text \<open>A change to the demand bookkeeping alone.\<close>

lemma store_inv_demand:
  assumes "store_inv H s" and "dom d \<subseteq> dom (records s)"
  shows "store_inv H (s\<lparr>unaryDemand := d\<rparr>)"
  using assms records_inv_cong [of "s\<lparr>unaryDemand := d\<rparr>" s H] subs_inv_cong [of s "s\<lparr>unaryDemand := d\<rparr>"]
  by (simp add: store_inv_def)

lemma hasDemand_state: "snd (hasDemand key now s) = s \<or> 
  snd (hasDemand key now s) = s\<lparr>unaryDemand := (unaryDemand s)(key := None)\<rparr>"
  by (simp add: hasDemand_def Let_def)

lemma hasDemand_frame [frame_simps]:
  "records (snd (hasDemand key now s)) = records s"
  "subscribers (snd (hasDemand key now s)) = subscribers s"
  "sequence (snd (hasDemand key now s)) = sequence s"
  "publicationOrder (snd (hasDemand key now s)) = publicationOrder s"
  "processID (snd (hasDemand key now s)) = processID s"
  "onDemand (snd (hasDemand key now s)) = onDemand s"
  "unaryLease (snd (hasDemand key now s)) = unaryLease s"
  "heap (snd (hasDemand key now s)) = heap s"
  "nextSub (snd (hasDemand key now s)) = nextSub s"
  "panicked (snd (hasDemand key now s)) = panicked s"
  by (simp_all add: hasDemand_def Let_def)

lemma hasDemand_inv [inv_intros]:
  assumes "store_inv H s" shows "store_inv H (snd (hasDemand key now s))"
  using hasDemand_state [of key now s]
proof
  assume "snd (hasDemand key now s) = s"
  with assms show ?thesis by simp
next
  assume "snd (hasDemand key now s) = s\<lparr>unaryDemand := (unaryDemand s)(key := None)\<rparr>"
  moreover have "store_inv H (s\<lparr>unaryDemand := (unaryDemand s)(key := None)\<rparr>)"
    by (rule store_inv_demand [OF assms]) (use assms in \<open>auto simp: store_inv_def\<close>)
  ultimately show ?thesis by simp
qed

lemma RequestRefresh_inv [inv_intros]:
  assumes inv: "store_inv H s" and r: "RequestRefresh now key s = (ok, demand, s')"
  shows "store_inv H s'"
proof (cases "records s key")
  case None
  with inv r show ?thesis by (simp add: RequestRefresh_def)
next
  case (Some rec)
  obtain active s1 where h: "hasDemand key now s = (active, s1)" by fastforce
  from hasDemand_inv [OF inv, of key now] h have inv1: "store_inv H s1" by simp
  have "records s1 = records s" using hasDemand_frame(1) [of key now s] h by simp
  with Some inv1 have "store_inv H (s1\<lparr>unaryDemand := (unaryDemand s1)(key \<mapsto> t)\<rparr>)" for t
    by (intro store_inv_demand) (auto simp: store_inv_def)
  with Some inv1 h r show ?thesis by (auto simp: RequestRefresh_def split: if_splits)
qed

lemma prune_unary_inv [inv_intros]: "store_inv H s \<Longrightarrow> store_inv H (prune_unary now s)"
  unfolding prune_unary_def
  by (rule store_inv_demand) (fastforce simp: store_inv_def dom_def split: option.splits if_splits)+

lemma SetDemandHandler_inv [inv_intros]:
  assumes "store_inv H s" shows "store_inv H (SetDemandHandler h l s)"
  using assms records_inv_cong [of "SetDemandHandler h l s" s H] subs_inv_cong [of s "SetDemandHandler h l s"]
  by (simp add: store_inv_def SetDemandHandler_def)

subsection \<open>Commits\<close>

text \<open>What \<open>PutDeferred\<close> stores, without the intermediate steps of the code.\<close>

definition put_expired :: "time \<Rightarrow> time \<Rightarrow> v1_Snapshot \<Rightarrow> bool" where
  "put_expired now1 now2 snap \<longleftrightarrow> \<not> now1 < sValidUntil snap \<or> \<not> now2 < sValidUntil snap"

definition put_snapshot :: "time \<Rightarrow> time \<Rightarrow> v1_Snapshot \<Rightarrow> v1_Snapshot" where
  "put_snapshot now1 now2 snap =
     (let snap = snap\<lparr>sAPIVersion := APIVersion\<rparr>
      in if put_expired now1 now2 snap then invalidate snap else snap)"

definition put_changed :: "(v1_Snapshot \<Rightarrow> 'd) \<Rightarrow> time \<Rightarrow> time \<Rightarrow> v1_Snapshot \<Rightarrow> 'd store \<Rightarrow> bool" where
  "put_changed H now1 now2 snap s =
     (case records s (snapshot_key snap) of None \<Rightarrow> True
      | Some previous \<Rightarrow> rRouting previous \<noteq> routingDigest H (put_snapshot now1 now2 snap))"

definition put_record :: "(v1_Snapshot \<Rightarrow> 'd) \<Rightarrow> time \<Rightarrow> time \<Rightarrow> v1_Snapshot \<Rightarrow> 'd store \<Rightarrow> 'd store_record" where
  "put_record H now1 now2 snap s =
     \<lparr>rPublication =
        \<lparr>pSnapshot = (put_snapshot now1 now2 snap)\<lparr>sRevision :=
           (if put_changed H now1 now2 snap s then revision_of (processID s) (Suc (sequence s))
            else record_revision (the (records s (snapshot_key snap))))\<rparr>,
         pOrder = Suc (publicationOrder s)\<rparr>,
      rRouting = routingDigest H (put_snapshot now1 now2 snap),
      rExpired = put_expired now1 now2 snap\<rparr>"

lemma put_snapshot_frame [simp]:
  "snapshot_key (put_snapshot now1 now2 snap) = snapshot_key snap"
  "sAPIVersion (put_snapshot now1 now2 snap) = APIVersion"
  "sValidUntil (put_snapshot now1 now2 snap) = sValidUntil snap"
  "sObservedAt (put_snapshot now1 now2 snap) = sObservedAt snap"
  "sCluster (put_snapshot now1 now2 snap) = sCluster snap"
  by (simp_all add: put_snapshot_def Let_def)

lemma put_snapshot_expired: "put_expired now1 now2 snap \<Longrightarrow> withdrawn (put_snapshot now1 now2 snap)"
  by (simp add: put_snapshot_def put_expired_def Let_def)

lemma put_expired_api [simp]: "put_expired now1 now2 (snap\<lparr>sAPIVersion := a\<rparr>) = put_expired now1 now2 snap"
  by (simp add: put_expired_def)

lemma PutDeferred_eq:
  "PutDeferred H now1 now2 snap s =
     (put_changed H now1 now2 snap s,
      \<lparr>nPublication = Some (rPublication (put_record H now1 now2 snap s)),
       nWatchers = watchers_of (snapshot_key snap) s\<rparr>,
      s\<lparr>sequence := (if put_changed H now1 now2 snap s then Suc (sequence s) else sequence s),
        publicationOrder := Suc (publicationOrder s),
        records := (records s)(snapshot_key snap \<mapsto> put_record H now1 now2 snap s)\<rparr>)"
proof -
  have r: "(if \<not> now1 < sValidUntil snap then invalidate (snap\<lparr>sAPIVersion := APIVersion\<rparr>)
            else if \<not> now2 < sValidUntil snap then invalidate (snap\<lparr>sAPIVersion := APIVersion\<rparr>)
            else snap\<lparr>sAPIVersion := APIVersion\<rparr>) = put_snapshot now1 now2 snap"
    by (simp add: put_snapshot_def put_expired_def Let_def)
  show ?thesis
    by (cases "now1 < sValidUntil snap"; cases "now2 < sValidUntil snap";
        cases "put_changed H now1 now2 snap s")
      (simp_all add: PutDeferred_def Let_def r [symmetric] put_changed_def put_record_def put_expired_def
         nextRevision_def newPublication_def revision_of_def notification_for_def record_revision_def
         watchers_of_def split: option.splits)
qed

lemma put_record_ok:
  assumes "records_inv H s"
  shows "record_ok H (snd (snd (PutDeferred H now1 now2 snap s))) (snapshot_key snap)
           (put_record H now1 now2 snap s)"
proof (cases "put_changed H now1 now2 snap s")
  case True
  then show ?thesis
    by (auto simp: PutDeferred_eq record_ok_def Let_def put_record_def put_snapshot_expired)
next
  case False
  then obtain q where q: "records s (snapshot_key snap) = Some q"
    by (auto simp: put_changed_def split: option.splits)
  with assms have "record_ok H s (snapshot_key snap) q" by (simp add: records_inv_def)
  with False q show ?thesis
    by (auto simp: PutDeferred_eq record_ok_def Let_def put_record_def put_snapshot_expired record_revision_def)
qed

lemma PutDeferred_inv [inv_intros]:
  assumes inv: "store_inv H s" and put: "PutDeferred H now1 now2 snap s = (changed, n, s')"
  shows "store_inv H s'" "notification_ok s' n"
proof -
  from inv have ri: "records_inv H s" and si: "subs_inv s" by (auto elim: store_invE)
  from put have s': "s' = snd (snd (PutDeferred H now1 now2 snap s))" by simp
  have "records_inv H s'"
  proof (rule records_inv_store [OF ri])
    show "record_ok H s' (snapshot_key snap) (put_record H now1 now2 snap s)"
      unfolding s' by (rule put_record_ok [OF ri])
    show "(\<exists>n>sequence s. record_revision (put_record H now1 now2 snap s) = revision_of (processID s) n) \<or>
          (\<exists>q. records s (snapshot_key snap) = Some q \<and>
               record_revision (put_record H now1 now2 snap s) = record_revision q)"
      by (auto simp: put_record_def record_revision_def put_changed_def split: option.splits)
  qed (simp_all add: s' PutDeferred_eq)
  moreover have "subs_inv s'"
    by (rule subs_inv_cong [OF _ _ _ _ _ si]) (simp_all add: s' PutDeferred_eq)
  ultimately show "store_inv H s'"
    using inv by (auto simp: store_inv_def s' PutDeferred_eq)
  show "notification_ok s' n"
    using put by (auto simp: PutDeferred_eq notification_ok_def put_record_def)
qed

lemma Put_inv [inv_intros]:
  "store_inv H s \<Longrightarrow> Put H now1 now2 snap s = (changed, s') \<Longrightarrow> store_inv H s'"
  by (auto simp: Put_def split: prod.splits intro: store_inv_deliver PutDeferred_inv)

text \<open>Expiry of one record.\<close>

definition expired_record :: "(v1_Snapshot \<Rightarrow> 'd) \<Rightarrow> 'd store_record \<Rightarrow> 'd store \<Rightarrow> 'd store_record" where
  "expired_record H r s =
     \<lparr>rPublication =
        \<lparr>pSnapshot = (invalidate (pSnapshot (rPublication r)))\<lparr>sRevision := revision_of (processID s) (Suc (sequence s))\<rparr>,
         pOrder = Suc (publicationOrder s)\<rparr>,
      rRouting = routingDigest H (invalidate (pSnapshot (rPublication r))),
      rExpired = True\<rparr>"

definition is_due :: "time \<Rightarrow> 'd store_record \<Rightarrow> bool" where
  "is_due now r \<longleftrightarrow> \<not> rExpired r \<and> \<not> now < sValidUntil (pSnapshot (rPublication r))"

lemma expireRecord_eq:
  "expireRecord H key r now s =
     (if is_due now r then
        (expired_record H r s,
         \<lparr>nPublication = Some (rPublication (expired_record H r s)), nWatchers = watchers_of key s\<rparr>,
         s\<lparr>sequence := Suc (sequence s), publicationOrder := Suc (publicationOrder s),
           records := (records s)(key \<mapsto> expired_record H r s), expirations := Suc (expirations s)\<rparr>)
      else (r, no_notification, s))"
  by (simp add: expireRecord_def is_due_def Let_def nextRevision_def newPublication_def expired_record_def
        revision_of_def notification_for_def watchers_of_def)

lemma expireRecord_inv [inv_intros]:
  assumes inv: "store_inv H s" and r: "records s key = Some r"
    and e: "expireRecord H key r now s = (r', n, s')"
  shows "store_inv H s'" "notification_ok s' n" "records s' key = Some r'"
proof -
  from inv have ri: "records_inv H s" and si: "subs_inv s" by (auto elim: store_invE)
  from ri r have ok: "record_ok H s key r" by (simp add: records_inv_def)
  show "notification_ok s' n" and "records s' key = Some r'"
    using e r by (auto simp: expireRecord_eq notification_ok_def expired_record_def no_notification_def split: if_splits)
  show "store_inv H s'"
  proof (cases "is_due now r")
    case True
    with e have s': "s' = s\<lparr>sequence := Suc (sequence s), publicationOrder := Suc (publicationOrder s),
           records := (records s)(key \<mapsto> expired_record H r s), expirations := Suc (expirations s)\<rparr>"
      by (auto simp: expireRecord_eq)
    have "records_inv H s'"
    proof (rule records_inv_store [OF ri])
      show "record_ok H s' key (expired_record H r s)"
        using ok by (auto simp: s' record_ok_def Let_def expired_record_def)
    qed (auto simp: s' expired_record_def record_revision_def)
    moreover have "subs_inv s'"
      by (rule subs_inv_cong [OF _ _ _ _ _ si]) (simp_all add: s')
    ultimately show ?thesis using inv by (auto simp: store_inv_def s')
  next
    case False
    with e inv show ?thesis by (simp add: expireRecord_eq)
  qed
qed

lemma readPublication_inv [inv_intros]:
  assumes "store_inv H s" and "readPublication H now key s = (p, n, s')"
  shows "store_inv H s'" "notification_ok s' n"
  using assms by (auto simp: readPublication_def split: option.splits prod.splits dest: expireRecord_inv)

lemma getPublication_inv [inv_intros]:
  "store_inv H s \<Longrightarrow> getPublication H now key s = (p, s') \<Longrightarrow> store_inv H s'"
  by (auto simp: getPublication_def split: prod.splits intro: store_inv_deliver readPublication_inv)

lemma Get_inv [inv_intros]:
  "store_inv H s \<Longrightarrow> Get H now key s = (p, s') \<Longrightarrow> store_inv H s'"
  by (auto simp: Get_def GetDeferred_def split: prod.splits intro: store_inv_deliver readPublication_inv)

lemma DeleteDeferred_eq:
  "DeleteDeferred key s =
     (case records s key of
        None \<Rightarrow> (no_notification, s\<lparr>unaryDemand := (unaryDemand s)(key := None)\<rparr>)
      | Some r \<Rightarrow>
          (\<lparr>nPublication = Some
              \<lparr>pSnapshot = tombstone (revision_of (processID s) (Suc (sequence s))) (pSnapshot (rPublication r)),
               pOrder = Suc (publicationOrder s)\<rparr>,
            nWatchers = watchers_of key s\<rparr>,
           s\<lparr>unaryDemand := (unaryDemand s)(key := None), sequence := Suc (sequence s),
             records := (records s)(key := None), publicationOrder := Suc (publicationOrder s)\<rparr>))"
  by (simp add: DeleteDeferred_def Let_def nextRevision_def newPublication_def revision_of_def
        notification_for_def watchers_of_def split: option.splits)

lemma DeleteDeferred_inv [inv_intros]:
  assumes inv: "store_inv H s" and d: "DeleteDeferred key s = (n, s')"
  shows "store_inv H s'" "notification_ok s' n"
proof -
  from inv have ri: "records_inv H s" and si: "subs_inv s" by (auto elim: store_invE)
  have "records_inv H s'"
    by (rule records_inv_remove [OF ri, where key = key])
      (use d in \<open>auto simp: DeleteDeferred_eq split: option.splits\<close>)
  moreover have "subs_inv s'"
    by (rule subs_inv_cong [OF _ _ _ _ _ si]) (use d in \<open>auto simp: DeleteDeferred_eq split: option.splits\<close>)
  moreover have "dom (unaryDemand s') \<subseteq> dom (records s')"
    using inv d by (fastforce simp: store_inv_def DeleteDeferred_eq dom_def split: option.splits if_splits)
  ultimately show "store_inv H s'" by (simp add: store_inv_def)
  show "notification_ok s' n"
    using d by (auto simp: DeleteDeferred_eq notification_ok_def no_notification_def split: option.splits)
qed

lemma Delete_inv [inv_intros]: "store_inv H s \<Longrightarrow> store_inv H (Delete key s)"
  by (auto simp: Delete_def split: prod.splits intro: store_inv_deliver DeleteDeferred_inv)

subsection \<open>Registration and cancellation\<close>

lemma readPublication_frame [frame_simps]:
  assumes "readPublication H now key s = (p, n, s')"
  shows "subscribers s' = subscribers s" "heap s' = heap s" "nextSub s' = nextSub s"
    "unaryDemand s' = unaryDemand s" "onDemand s' = onDemand s" "panicked s' = panicked s"
    "processID s' = processID s" "unaryLease s' = unaryLease s"
    "publicationOrder s \<le> publicationOrder s'" "dom (records s') = dom (records s)"
  using assms by (auto simp: readPublication_def expireRecord_eq split: option.splits if_splits)

lemma readPublication_publication:
  assumes "store_inv H s" and "readPublication H now key s = (Some p, n, s')"
  shows "pOrder p \<le> publicationOrder s'" "\<exists>r. records s' key = Some r \<and> rPublication r = p"
proof -
  from assms obtain r where r: "records s key = Some r" by (auto simp: readPublication_def split: option.splits)
  obtain r' m t where e: "expireRecord H key r now s = (r', m, t)" by (metis prod_cases3)
  with assms r have eq: "p = rPublication r'" "s' = t" by (simp_all add: readPublication_def)
  note i = expireRecord_inv [OF assms(1) r e]
  then show "\<exists>r. records s' key = Some r \<and> rPublication r = p" using eq by simp
  from i eq show "pOrder p \<le> publicationOrder s'"
    by (auto simp: store_inv_def records_inv_def record_ok_def Let_def)
qed

lemma watchers_of_upd:
  "watchers_of k (s\<lparr>subscribers := (subscribers s)(key := v)\<rparr>) =
   (if k = key then (case v of None \<Rightarrow> [] | Some ws \<Rightarrow> ws) else watchers_of k s)"
  by (simp add: watchers_of_def)

lemma subs_inv_watcher:
  assumes "subs_inv s" and "w \<in> set (watchers_of key s)"
  shows "\<exists>sub. heap s w = Some sub \<and> \<not> subOnce sub" "w < nextSub s"
proof -
  from assms obtain ws where "subscribers s key = Some ws" "w \<in> set ws"
    by (cases "subscribers s key") (auto simp: watchers_of_def)
  with assms(1) show ex: "\<exists>sub. heap s w = Some sub \<and> \<not> subOnce sub" by (auto simp: subs_inv_def)
  with subs_invD [OF assms(1)] show "w < nextSub s" by blast
qed

lemma watcher_unique:
  "subs_inv s \<Longrightarrow> w \<in> set (watchers_of k1 s) \<Longrightarrow> w \<in> set (watchers_of k2 s) \<Longrightarrow> k1 = k2"
  unfolding subs_inv_def by blast

lemma watchers_distinct: "subs_inv s \<Longrightarrow> distinct (watchers_of key s)"
  by (auto simp: subs_inv_def watchers_of_def split: option.splits)

lemma subs_inv_alloc:
  assumes inv: "subs_inv s" and mb: "mb = Publications make_chan \<or> mb = Snapshots make_chan"
  shows "subs_inv (s\<lparr>heap := (heap s)(nextSub s \<mapsto> new_subscription mb), nextSub := nextSub s + 1\<rparr>)"
proof -
  have wf: "sub_wf (new_subscription mb)" using mb by auto
  have fresh: "w \<noteq> nextSub s" if "w \<in> set (watchers_of key s)" for w key
    using subs_inv_watcher(2) [OF inv that] by simp
  have ex: "\<exists>sub. heap s w = Some sub \<and> \<not> subOnce sub" "w \<noteq> nextSub s"
    if "subscribers s key = Some ws" "w \<in> set ws" for key ws w
    using subs_inv_watcher(1) [OF inv, of w key] fresh [of w key] that by (auto simp: watchers_of_def)
  show ?thesis
    using inv wf ex subs_invD(1) [OF inv]
    by (fastforce simp: subs_inv_def watchers_of_def new_subscription_def less_Suc_eq split: if_splits)
qed

lemma subs_inv_subscribe:
  assumes inv: "subs_inv s" and w: "heap s w = Some sub" "\<not> subOnce sub"
    and new: "\<And>k. w \<notin> set (watchers_of k s)"
  shows "subs_inv (s\<lparr>subscribers := (subscribers s)(key \<mapsto> watchers_of key s @ [w])\<rparr>)"
proof -
  let ?t = "s\<lparr>subscribers := (subscribers s)(key \<mapsto> watchers_of key s @ [w])\<rparr>"
  have one: "ws \<noteq> [] \<and> distinct ws \<and> (\<forall>w\<in>set ws. \<exists>sub. heap ?t w = Some sub \<and> \<not> subOnce sub)"
    if "subscribers ?t k = Some ws" for k ws
  proof (cases "k = key")
    case True
    with that new [of key] watchers_distinct [OF inv, of key] subs_inv_watcher(1) [OF inv, of _ key] w
    show ?thesis by auto
  next
    case False
    with that inv show ?thesis by (simp add: subs_inv_def)
  qed
  have two: "k1 = k2" if "v \<in> set (watchers_of k1 ?t)" "v \<in> set (watchers_of k2 ?t)" for k1 k2 v
    using that new watcher_unique [OF inv, of v] by (auto simp: watchers_of_upd split: if_splits)
  have rest: "\<forall>w sub. heap ?t w = Some sub \<longrightarrow> w < nextSub ?t \<and> sub_wf sub \<and>
        subOrder sub \<le> publicationOrder ?t \<and> (subClosed sub \<longrightarrow> subOnce sub)" "\<not> panicked ?t"
    using inv by (simp_all add: subs_inv_def)
  show ?thesis using one two rest unfolding subs_inv_def by blast
qed

lemma register_commit_inv [inv_intros]:
  assumes inv: "store_inv H s" and mb: "mb = Publications make_chan \<or> mb = Snapshots make_chan"
    and r: "register_commit H now1 now2 key req mb s = Some (w, expired, initial, demand, s')"
  shows "store_inv H s'" "notification_ok s' expired"
    "\<And>p. initial = Some p \<Longrightarrow> pOrder p \<le> publicationOrder s'"
    "w = nextSub s" "heap s' w = Some (new_subscription mb)" "w \<in> set (watchers_of key s')"
proof -
  let ?s0 = "s\<lparr>heap := (heap s)(nextSub s \<mapsto> new_subscription mb), nextSub := nextSub s + 1\<rparr>"
  obtain p1 n1 s1 where rd: "readPublication H now1 key ?s0 = (p1, n1, s1)" by (metis prod_cases3)
  obtain act s2 where hd: "hasDemand key now2 s1 = (act, s2)" by fastforce
  from r rd hd have eq: "w = nextSub s" "expired = n1" "initial = p1"
      "s' = s2\<lparr>subscribers := (subscribers s2)(key \<mapsto> watchers_of key s2 @ [nextSub s])\<rparr>"
    by (auto simp: register_commit_def Let_def split: if_splits)
  have inv0: "store_inv H ?s0"
    using inv subs_inv_alloc [OF _ mb, of s] records_inv_cong [of ?s0 s H] by (auto simp: store_inv_def)
  note inv1 = readPublication_inv [OF inv0 rd]
  from hasDemand_inv [OF inv1(1), of key now2] hd have inv2: "store_inv H s2" by simp
  note fr = readPublication_frame [OF rd] hasDemand_frame [of key now2 s1]
  have h2: "heap s2 (nextSub s) = Some (new_subscription mb)" using fr hd by simp
  have wk: "watchers_of k s2 = watchers_of k s" for k
    using fr hd by (simp add: watchers_of_def)
  have new: "nextSub s \<notin> set (watchers_of k s2)" for k
    using wk subs_inv_watcher(2) [of s "nextSub s" k] inv by (auto elim: store_invE)
  have "subs_inv s'"
    unfolding eq(4)
    by (rule subs_inv_subscribe [OF _ h2]) (use inv2 new in \<open>auto simp: store_inv_def new_subscription_def\<close>)
  then show "store_inv H s'"
    using inv2 records_inv_cong [of s' s2 H] by (simp add: store_inv_def eq(4))
  have po: "publicationOrder s' = publicationOrder s1" using fr hd by (simp add: eq(4))
  show "notification_ok s' expired" using inv1(2) po by (simp add: eq(2) notification_ok_def)
  show "pOrder p \<le> publicationOrder s'" if "initial = Some p" for p
    using readPublication_publication(1) [OF inv0] rd that eq(3) po by auto
  show "w = nextSub s" "heap s' w = Some (new_subscription mb)" using h2 eq by simp_all
  show "w \<in> set (watchers_of key s')" by (simp add: eq watchers_of_upd)
qed

lemma register_inv [inv_intros]:
  assumes "store_inv H s" and "mb = Publications make_chan \<or> mb = Snapshots make_chan"
    and "register H now1 now2 key req mb s = Some (w, demand, s')"
  shows "store_inv H s'"
  using assms register_commit_inv [OF assms(1,2), of now1 now2 key req]
  by (fastforce simp: register_def frame_simps split: option.splits
        intro!: store_inv_deliver store_inv_deliver_one)

lemma unregister_frame [frame_simps]:
  "heap (unregister key w s) = heap s" "records (unregister key w s) = records s"
  "unaryDemand (unregister key w s) = unaryDemand s" "sequence (unregister key w s) = sequence s"
  "publicationOrder (unregister key w s) = publicationOrder s" "nextSub (unregister key w s) = nextSub s"
  "processID (unregister key w s) = processID s" "panicked (unregister key w s) = panicked s"
  by (simp_all add: unregister_def Let_def)

lemma subs_inv_unregister:
  assumes inv: "subs_inv s" and w: "heap s w = Some sub" "\<not> subOnce sub"
    and only: "\<And>k. k \<noteq> key \<Longrightarrow> w \<notin> set (watchers_of k s)"
  shows "subs_inv (unregister key w (s\<lparr>heap := (heap s)(w \<mapsto> sub\<lparr>subOnce := True\<rparr>)\<rparr>))"
proof -
  let ?h = "s\<lparr>heap := (heap s)(w \<mapsto> sub\<lparr>subOnce := True\<rparr>)\<rparr>"
  let ?t = "unregister key w ?h"
  have wt: "watchers_of k ?t = (if k = key then filter (\<lambda>v. v \<noteq> w) (watchers_of key s) else watchers_of k s)" for k
    by (simp add: unregister_def Let_def watchers_of_def)
  have sub_t: "subscribers ?t k = Some ws \<Longrightarrow> ws \<noteq> [] \<and> ws = watchers_of k ?t" for k ws
    using inv by (auto simp: unregister_def Let_def watchers_of_def subs_inv_def split: if_splits)
  have gone: "w \<notin> set (watchers_of k ?t)" for k using only by (simp add: wt)
  have "ws \<noteq> [] \<and> distinct ws \<and> (\<forall>v\<in>set ws. \<exists>sub. heap ?t v = Some sub \<and> \<not> subOnce sub)"
    if "subscribers ?t k = Some ws" for k ws
    using sub_t [OF that] gone [of k] watchers_distinct [OF inv, of k] subs_inv_watcher(1) [OF inv, of _ k]
    by (auto simp: wt frame_simps split: if_splits)
  moreover have "k1 = k2" if "v \<in> set (watchers_of k1 ?t)" "v \<in> set (watchers_of k2 ?t)" for k1 k2 v
    using that watcher_unique [OF inv, of v] by (auto simp: wt split: if_splits)
  moreover have "\<forall>v sub. heap ?t v = Some sub \<longrightarrow> v < nextSub ?t \<and> sub_wf sub \<and>
        subOrder sub \<le> publicationOrder ?t \<and> (subClosed sub \<longrightarrow> subOnce sub)" "\<not> panicked ?t"
    using inv w by (auto simp: subs_inv_def frame_simps sub_wf_def)
  ultimately show ?thesis unfolding subs_inv_def by blast
qed

lemma cancel_begin_inv [inv_intros]:
  assumes inv: "store_inv H s" and only: "\<And>k. k \<noteq> key \<Longrightarrow> w \<notin> set (watchers_of k s)"
    and c: "cancel_begin key w s = (first, s')"
  shows "store_inv H s'"
    "first \<Longrightarrow> \<exists>sub. heap s' w = Some sub \<and> subOnce sub \<and> \<not> subClosed sub"
proof -
  from inv have si: "subs_inv s" by (auto elim: store_invE)
  show "store_inv H s'"
  proof (cases "\<exists>sub. heap s w = Some sub \<and> \<not> subOnce sub")
    case True
    then obtain sub where sub: "heap s w = Some sub" "\<not> subOnce sub" by blast
    with c have s': "s' = unregister key w (s\<lparr>heap := (heap s)(w \<mapsto> sub\<lparr>subOnce := True\<rparr>)\<rparr>)"
      by (simp add: cancel_begin_def)
    with subs_inv_unregister [OF si sub only] inv records_inv_cong [of s' s H] show ?thesis
      by (simp add: store_inv_def frame_simps)
  next
    case False
    with c inv show ?thesis by (auto simp: cancel_begin_def split: option.splits if_splits)
  qed
  show "\<exists>sub. heap s' w = Some sub \<and> subOnce sub \<and> \<not> subClosed sub" if first
    using that c subs_invD(4) [OF si]
    by (auto simp: cancel_begin_def frame_simps split: option.splits if_splits)
qed

lemma close_watcher_inv [inv_intros]:
  assumes inv: "store_inv H s" and w: "heap s w = Some sub" "subOnce sub" "\<not> subClosed sub"
  shows "store_inv H (close_watcher w s)"
proof -
  from inv have si: "subs_inv s" by (auto elim: store_invE)
  note sub = subs_invD [OF si w(1)]
  from close_no_panic [OF sub(2) w(3)] obtain sub' where c: "subscription_close sub = Some sub'" by blast
  have "subs_inv (s\<lparr>heap := (heap s)(w \<mapsto> sub'), coalesced := coalesced s\<rparr>)"
    by (rule subs_inv_heap [OF si w(1)]) (use close_wf [OF sub(2) c] close_frame [OF c] sub w in auto)
  moreover have "close_watcher w s = s\<lparr>heap := (heap s)(w \<mapsto> sub'), coalesced := coalesced s\<rparr>"
    using w(1) c by (simp add: close_watcher_def)
  ultimately show ?thesis
    using inv records_inv_cong [of "close_watcher w s" s H] by (simp add: store_inv_def)
qed

lemma cancel_inv [inv_intros]:
  assumes "store_inv H s" and "\<And>k. k \<noteq> key \<Longrightarrow> w \<notin> set (watchers_of k s)"
  shows "store_inv H (cancel key w s)"
  using cancel_begin_inv [OF assms] close_watcher_inv
  by (fastforce simp: cancel_def split: prod.splits)

subsection \<open>Expire\<close>

definition notes_ok :: "'d store \<Rightarrow> notification list \<Rightarrow> bool" where
  "notes_ok s ns \<longleftrightarrow> list_all (notification_ok s) ns"

lemma expire_key_inv [inv_intros]:
  assumes "store_inv H s" and "notes_ok s ns" and "expire_key H now key (ns, s) = (ns', s')"
  shows "store_inv H s'" "notes_ok s' ns'"
proof -
  have "store_inv H s' \<and> notes_ok s' ns'"
  proof (cases "records s key")
    case None
    with assms show ?thesis by (simp add: expire_key_def)
  next
    case (Some r)
    obtain r' n t where e: "expireRecord H key r now s = (r', n, t)" by (metis prod_cases3)
    note i = expireRecord_inv [OF assms(1) Some e]
    have "publicationOrder s \<le> publicationOrder t" using e by (auto simp: expireRecord_eq split: if_splits)
    with assms(2) i(2) have "notes_ok t (if nPublication n \<noteq> None then ns @ [n] else ns)"
      by (auto simp: notes_ok_def list_all_iff notification_ok_def intro: order_trans)
    with assms(3) Some e i(1) show ?thesis by (auto simp: expire_key_def)
  qed
  then show "store_inv H s'" "notes_ok s' ns'" by simp_all
qed

lemma fold_expire_inv [inv_intros]:
  "store_inv H s \<Longrightarrow> notes_ok s ns \<Longrightarrow> fold (expire_key H now) order (ns, s) = (ns', s') \<Longrightarrow>
   store_inv H s' \<and> notes_ok s' ns'"
proof (induction order arbitrary: s ns)
  case (Cons key order)
  obtain ns1 s1 where e: "expire_key H now key (ns, s) = (ns1, s1)" by fastforce
  from Cons.prems(3) e have "fold (expire_key H now) order (ns1, s1) = (ns', s')" by simp
  from Cons.IH [OF expire_key_inv [OF Cons.prems(1,2) e] this] show ?case .
qed simp

lemma ExpireDeferred_inv [inv_intros]:
  assumes "store_inv H s" and "ExpireDeferred H now order s = (ns, s')"
  shows "store_inv H s' \<and> notes_ok s' ns"
proof -
  obtain ms t where f: "fold (expire_key H now) order ([], s) = (ms, t)" by fastforce
  with fold_expire_inv [OF assms(1) _ f] have inv: "store_inv H t" and ok: "notes_ok t ms"
    by (simp_all add: notes_ok_def)
  from assms(2) f have eq: "ns = ms" "s' = prune_unary now t" by (simp_all add: ExpireDeferred_def)
  have "notes_ok s' ns" using ok by (simp add: eq notes_ok_def notification_ok_def [abs_def] prune_unary_def)
  with prune_unary_inv [OF inv] eq show ?thesis by simp
qed

lemma deliver_all_inv [inv_intros]:
  "store_inv H s \<Longrightarrow> notes_ok s ns \<Longrightarrow> store_inv H (fold notification_deliver ns s)"
proof (induction ns arbitrary: s)
  case (Cons n ns)
  then have "notes_ok (notification_deliver n s) ns"
    by (simp add: notes_ok_def list_all_iff notification_ok_def frame_simps)
  moreover have "store_inv H (notification_deliver n s)"
    by (rule store_inv_deliver) (use Cons.prems in \<open>simp_all add: notes_ok_def\<close>)
  ultimately show ?case using Cons.IH by simp
qed simp

lemma Expire_inv [inv_intros]: "store_inv H s \<Longrightarrow> store_inv H (Expire H now order s)"
  using ExpireDeferred_inv [of H s now order]
  by (auto simp: Expire_def split: prod.splits intro: deliver_all_inv)

end
