(* ===== verification/Store_Concurrency.thy ===== *)
theory Store_Concurrency
  imports Store
begin

text \<open>
  The store under concurrency. Commits run under the store mutex, so each is one step; the
  deliveries they leave behind run later, one mailbox at a time, in any order and interleaved with
  other commits, receives and cancellations. The step relation lets every pending delivery run at
  any time, which includes every schedule of the Go code.
\<close>

section \<open>The system\<close>

text \<open>
  \<open>inflight\<close>: deliveries not yet run. \<open>closing\<close>: cancellations that have unregistered their
  watcher and not yet closed its channel. \<open>owner\<close>: the key a cancel function has captured.
  \<open>received\<close>: what each consumer has taken from its channel, newest first.
\<close>

record 'd sys =
  sysStore :: "'d store"
  inflight :: "(publication \<times> nat) list"
  closing :: "nat list"
  owner :: "nat \<rightharpoonup> clusterKey"
  received :: "nat \<Rightarrow> publication list"

definition deliveries :: "notification \<Rightarrow> (publication \<times> nat) list" where
  "deliveries n = (case nPublication n of None \<Rightarrow> [] | Some p \<Rightarrow> map (\<lambda>w. (p, w)) (nWatchers n))"

definition init_sys :: "'d store \<Rightarrow> 'd sys" where
  "init_sys st = \<lparr>sysStore = st, inflight = [], closing = [], owner = Map.empty, received = (\<lambda>_. [])\<rparr>"

definition commit :: "notification list \<Rightarrow> 'd store \<Rightarrow> 'd sys \<Rightarrow> 'd sys" where
  "commit ns st \<sigma> = \<sigma>\<lparr>sysStore := st, inflight := inflight \<sigma> @ concat (map deliveries ns)\<rparr>"

inductive sys_step :: "(v1_Snapshot \<Rightarrow> 'd) \<Rightarrow> 'd sys \<Rightarrow> 'd sys \<Rightarrow> bool" for H where
  put: "PutDeferred H now1 now2 snap (sysStore \<sigma>) = (changed, n, st) \<Longrightarrow> sys_step H \<sigma> (commit [n] st \<sigma>)"
| delete: "DeleteDeferred key (sysStore \<sigma>) = (n, st) \<Longrightarrow> sys_step H \<sigma> (commit [n] st \<sigma>)"
| read: "readPublication H now key (sysStore \<sigma>) = (p, n, st) \<Longrightarrow> sys_step H \<sigma> (commit [n] st \<sigma>)"
| expire: "ExpireDeferred H now order (sysStore \<sigma>) = (ns, st) \<Longrightarrow> sys_step H \<sigma> (commit ns st \<sigma>)"
| refresh: "RequestRefresh now key (sysStore \<sigma>) = (ok, demand, st) \<Longrightarrow> sys_step H \<sigma> (commit [] st \<sigma>)"
| demand: "hasDemand key now (sysStore \<sigma>) = (active, st) \<Longrightarrow> sys_step H \<sigma> (commit [] st \<sigma>)"
| active: "ActiveClusters now order (sysStore \<sigma>) = (refs, st) \<Longrightarrow> sys_step H \<sigma> (commit [] st \<sigma>)"
| handler: "sys_step H \<sigma> (commit [] (SetDemandHandler h lease (sysStore \<sigma>)) \<sigma>)"
| register: "register_commit H now1 now2 key req mb (sysStore \<sigma>) = Some (w, n, initial, demand, st) \<Longrightarrow>
    mb = Publications make_chan \<or> mb = Snapshots make_chan \<Longrightarrow>
    sys_step H \<sigma> ((commit [n, \<lparr>nPublication = initial, nWatchers = [w]\<rparr>] st \<sigma>)\<lparr>owner := (owner \<sigma>)(w \<mapsto> key)\<rparr>)"
| deliver: "inflight \<sigma> = xs @ (p, w) # ys \<Longrightarrow>
    sys_step H \<sigma> (\<sigma>\<lparr>sysStore := deliver_one p w (sysStore \<sigma>), inflight := xs @ ys\<rparr>)"
| cancel_first: "owner \<sigma> w = Some key \<Longrightarrow> cancel_begin key w (sysStore \<sigma>) = (True, st) \<Longrightarrow>
    sys_step H \<sigma> (\<sigma>\<lparr>sysStore := st, closing := w # closing \<sigma>\<rparr>)"
| cancel_again: "owner \<sigma> w = Some key \<Longrightarrow> cancel_begin key w (sysStore \<sigma>) = (False, st) \<Longrightarrow>
    sys_step H \<sigma> (\<sigma>\<lparr>sysStore := st\<rparr>)"
| close: "closing \<sigma> = xs @ w # ys \<Longrightarrow>
    sys_step H \<sigma> (\<sigma>\<lparr>sysStore := close_watcher w (sysStore \<sigma>), closing := xs @ ys\<rparr>)"
| receive: "heap (sysStore \<sigma>) w = Some sub \<Longrightarrow> sub_take sub = (Some p, sub') \<Longrightarrow>
    sys_step H \<sigma> (\<sigma>\<lparr>sysStore := (sysStore \<sigma>)\<lparr>heap := (heap (sysStore \<sigma>))(w \<mapsto> sub')\<rparr>,
                     received := (received \<sigma>)(w := p # received \<sigma> w)\<rparr>)"

inductive sys_reach :: "(v1_Snapshot \<Rightarrow> 'd) \<Rightarrow> 'd sys \<Rightarrow> bool" for H where
  start: "NewStore rand = Some st \<Longrightarrow> sys_reach H (init_sys st)"
| step: "sys_reach H \<sigma> \<Longrightarrow> sys_step H \<sigma> \<sigma>' \<Longrightarrow> sys_reach H \<sigma>'"

section \<open>Invariants\<close>

text \<open>The store invariant, and what ties the pending work to it.\<close>

definition flight_inv :: "'d sys \<Rightarrow> bool" where
  "flight_inv \<sigma> \<longleftrightarrow>
     (\<forall>(p, w)\<in>set (inflight \<sigma>). pOrder p \<le> publicationOrder (sysStore \<sigma>)) \<and>
     distinct (closing \<sigma>) \<and>
     (\<forall>w\<in>set (closing \<sigma>). \<exists>sub. heap (sysStore \<sigma>) w = Some sub \<and> subOnce sub \<and> \<not> subClosed sub) \<and>
     (\<forall>w key. w \<in> set (watchers_of key (sysStore \<sigma>)) \<longrightarrow> owner \<sigma> w = Some key)"

text \<open>
  The newest publication of a stored record has been recorded by each of the key's watchers, or
  is on its way to it.
\<close>

definition no_loss :: "'d sys \<Rightarrow> bool" where
  "no_loss \<sigma> \<longleftrightarrow>
     (\<forall>key r w sub. records (sysStore \<sigma>) key = Some r \<and> w \<in> set (watchers_of key (sysStore \<sigma>)) \<and>
        heap (sysStore \<sigma>) w = Some sub \<longrightarrow>
        pOrder (rPublication r) \<le> subOrder sub \<or> (rPublication r, w) \<in> set (inflight \<sigma>))"

text \<open>
  What a consumer received is strictly decreasing and older than what may still come, and a
  gRPC mailbox still shows, pending or as last received, the publication it recorded last.
\<close>

definition is_shared :: "subscription \<Rightarrow> bool" where
  "is_shared sub = (case subMailbox sub of Publications _ \<Rightarrow> True | Snapshots _ \<Rightarrow> False)"

definition history_ok :: "subscription \<Rightarrow> publication list \<Rightarrow> bool" where
  "history_ok sub ps \<longleftrightarrow> sorted_wrt (>) (map pOrder ps) \<and>
     (\<forall>p\<in>set ps. pOrder p < (case sub_pending sub of None \<Rightarrow> Suc (subOrder sub) | Some q \<Rightarrow> pOrder q)) \<and>
     (is_shared sub \<and> 0 < subOrder sub \<longrightarrow> sub_pending sub \<noteq> None \<or> ps \<noteq> [] \<and> pOrder (hd ps) = subOrder sub)"

definition history_inv :: "'d sys \<Rightarrow> bool" where
  "history_inv \<sigma> \<longleftrightarrow>
     (\<forall>w sub. heap (sysStore \<sigma>) w = Some sub \<longrightarrow> history_ok sub (received \<sigma> w)) \<and>
     (\<forall>w. heap (sysStore \<sigma>) w = None \<longrightarrow> received \<sigma> w = [])"

definition sys_inv :: "(v1_Snapshot \<Rightarrow> 'd) \<Rightarrow> 'd sys \<Rightarrow> bool" where
  "sys_inv H \<sigma> \<longleftrightarrow> store_inv H (sysStore \<sigma>) \<and> flight_inv \<sigma> \<and> no_loss \<sigma> \<and> history_inv \<sigma>"

section \<open>Commits keep the invariant\<close>

text \<open>
  The common shape of a commit: subscriptions are untouched, and every record is either unchanged
  or announced to all watchers of its key.
\<close>

definition announced :: "'d store \<Rightarrow> notification list \<Rightarrow> 'd store \<Rightarrow> bool" where
  "announced s ns t \<longleftrightarrow>
     (\<forall>key r. records t key = Some r \<longrightarrow> records s key = Some r \<or>
        (\<exists>n\<in>set ns. nPublication n = Some (rPublication r) \<and> nWatchers n = watchers_of key t))"

definition same_subs :: "'d store \<Rightarrow> 'd store \<Rightarrow> bool" where
  "same_subs s t \<longleftrightarrow> heap t = heap s \<and> subscribers t = subscribers s \<and> nextSub t = nextSub s \<and>
     publicationOrder s \<le> publicationOrder t"

lemma in_deliveries: "(p, w) \<in> set (deliveries n) \<longleftrightarrow> nPublication n = Some p \<and> w \<in> set (nWatchers n)"
  by (auto simp: deliveries_def split: option.splits)

lemma commit_simps [simp]:
  "sysStore (commit ns st \<sigma>) = st" "closing (commit ns st \<sigma>) = closing \<sigma>"
  "owner (commit ns st \<sigma>) = owner \<sigma>" "received (commit ns st \<sigma>) = received \<sigma>"
  "inflight (commit ns st \<sigma>) = inflight \<sigma> @ concat (map deliveries ns)"
  by (simp_all add: commit_def)

lemma flight_commit:
  assumes "flight_inv \<sigma>" and "same_subs (sysStore \<sigma>) st" and "notes_ok st ns"
  shows "flight_inv (commit ns st \<sigma>)"
proof -
  have "pOrder p \<le> publicationOrder st" if "(p, w) \<in> set (inflight \<sigma> @ concat (map deliveries ns))" for p w
    using that assms
    by (auto simp: flight_inv_def same_subs_def notes_ok_def list_all_iff notification_ok_def in_deliveries)
  then show ?thesis
    using assms by (auto simp: flight_inv_def same_subs_def watchers_of_def)
qed

lemma no_lossD:
  "no_loss \<sigma> \<Longrightarrow> records (sysStore \<sigma>) key = Some r \<Longrightarrow> w \<in> set (watchers_of key (sysStore \<sigma>)) \<Longrightarrow>
   heap (sysStore \<sigma>) w = Some sub \<Longrightarrow>
   pOrder (rPublication r) \<le> subOrder sub \<or> (rPublication r, w) \<in> set (inflight \<sigma>)"
  unfolding no_loss_def by blast

lemma commit_inv:
  assumes inv: "sys_inv H \<sigma>" and st: "store_inv H st" and subs: "same_subs (sysStore \<sigma>) st"
    and ok: "notes_ok st ns" and ann: "announced (sysStore \<sigma>) ns st"
  shows "sys_inv H (commit ns st \<sigma>)"
proof -
  have w: "watchers_of key st = watchers_of key (sysStore \<sigma>)" for key
    using subs by (simp add: same_subs_def watchers_of_def)
  have "no_loss (commit ns st \<sigma>)"
    unfolding no_loss_def
  proof (intro allI impI, elim conjE)
    fix key r v sub
    assume a: "records (sysStore (commit ns st \<sigma>)) key = Some r"
      "v \<in> set (watchers_of key (sysStore (commit ns st \<sigma>)))" "heap (sysStore (commit ns st \<sigma>)) v = Some sub"
    show "pOrder (rPublication r) \<le> subOrder sub \<or> (rPublication r, v) \<in> set (inflight (commit ns st \<sigma>))"
    proof (cases "records (sysStore \<sigma>) key = Some r")
      case True
      have "heap (sysStore \<sigma>) v = Some sub" "v \<in> set (watchers_of key (sysStore \<sigma>))"
        using a subs w by (simp_all add: same_subs_def)
      with no_lossD [OF _ True] inv show ?thesis by (auto simp: sys_inv_def)
    next
      case False
      with a(1) ann obtain n where "n \<in> set ns" "nPublication n = Some (rPublication r)"
        "nWatchers n = watchers_of key st" by (auto simp: announced_def)
      with a(2) show ?thesis by (auto simp: in_deliveries)
    qed
  qed
  moreover have "history_inv (commit ns st \<sigma>)"
    using inv subs by (simp add: sys_inv_def history_inv_def same_subs_def)
  ultimately show ?thesis
    using inv st flight_commit [OF _ subs ok] by (simp add: sys_inv_def)
qed

lemma announced_refl: "records t = records s \<Longrightarrow> announced s ns t"
  by (simp add: announced_def)

lemma put_announced:
  "PutDeferred H now1 now2 snap s = (changed, n, t) \<Longrightarrow> announced s [n] t \<and> same_subs s t"
  by (auto simp: PutDeferred_eq announced_def same_subs_def watchers_of_def split: if_splits)

lemma delete_announced: "DeleteDeferred key s = (n, t) \<Longrightarrow> announced s [n] t \<and> same_subs s t"
  by (auto simp: DeleteDeferred_eq announced_def same_subs_def split: option.splits if_splits)

lemma expireRecord_announced:
  "expireRecord H key r now s = (r', n, t) \<Longrightarrow> announced s [n] t \<and> same_subs s t"
  by (auto simp: expireRecord_eq announced_def same_subs_def watchers_of_def split: if_splits)

lemma read_announced:
  "readPublication H now key s = (p, n, t) \<Longrightarrow> announced s [n] t \<and> same_subs s t"
  using expireRecord_announced [of H key _ now s]
  by (cases "records s key") (auto simp: readPublication_def announced_refl same_subs_def split: prod.splits)

lemma announced_trans:
  assumes "announced s ns t" and "announced t ms u" and "same_subs t u"
  shows "announced s (ns @ ms) u"
proof -
  have "watchers_of key u = watchers_of key t" for key
    using assms(3) by (simp add: same_subs_def watchers_of_def)
  with assms(1,2) show ?thesis unfolding announced_def by (metis UnCI set_append)
qed

lemma expire_key_announced:
  assumes "announced s ns t" and "same_subs s t" and "expire_key H now key (ns, t) = (ns', u)"
  shows "announced s ns' u \<and> same_subs s u"
proof (cases "records t key")
  case None
  with assms show ?thesis by (simp add: expire_key_def)
next
  case (Some r)
  obtain r' n v where e: "expireRecord H key r now t = (r', n, v)" by (metis prod_cases3)
  from expireRecord_announced [OF e] have a: "announced t [n] v" "same_subs t v" by simp_all
  show ?thesis
  proof (cases "is_due now r")
    case True
    with e have "nPublication n \<noteq> None" by (auto simp: expireRecord_eq)
    with assms(3) Some e have "ns' = ns @ [n]" "u = v" by (simp_all add: expire_key_def)
    with announced_trans [OF assms(1) a] assms(2) a show ?thesis by (auto simp: same_subs_def)
  next
    case False
    with e Some assms show ?thesis by (auto simp: expireRecord_eq expire_key_def no_notification_def)
  qed
qed

lemma fold_expire_announced:
  "announced s ns t \<Longrightarrow> same_subs s t \<Longrightarrow> fold (expire_key H now) order (ns, t) = (ns', u) \<Longrightarrow>
   announced s ns' u \<and> same_subs s u"
proof (induction order arbitrary: ns t)
  case (Cons key order)
  obtain ns1 t1 where e: "expire_key H now key (ns, t) = (ns1, t1)" by fastforce
  from Cons.prems(3) e have "fold (expire_key H now) order (ns1, t1) = (ns', u)" by simp
  with Cons.IH expire_key_announced [OF Cons.prems(1,2) e] show ?case by blast
qed simp

lemma expire_announced:
  assumes "ExpireDeferred H now order s = (ns, t)"
  shows "announced s ns t \<and> same_subs s t"
proof -
  obtain u where f: "fold (expire_key H now) order ([], s) = (ns, u)" and t: "t = prune_unary now u"
    using assms by (auto simp: ExpireDeferred_def split: prod.splits)
  have "announced s [] s" "same_subs s s" by (simp_all add: announced_def same_subs_def)
  from fold_expire_announced [OF this f] have "announced s ns u" "same_subs s u" by simp_all
  moreover have "watchers_of key t = watchers_of key u" "records t = records u" for key
    by (simp_all add: t prune_unary_def watchers_of_def)
  ultimately show ?thesis by (simp add: announced_def same_subs_def t prune_unary_def)
qed

section \<open>Subscription steps keep the invariant\<close>

lemma history_ok_cong:
  "sub_pending sub' = sub_pending sub \<Longrightarrow> subOrder sub' = subOrder sub \<Longrightarrow> is_shared sub' = is_shared sub \<Longrightarrow>
   history_ok sub' ps = history_ok sub ps"
  by (cases "sub_pending sub") (simp_all add: history_ok_def)

lemma history_deliver:
  assumes "sub_wf sub" and "history_ok sub ps" and "subscription_deliver p sub = Some (sub', c)"
  shows "history_ok sub' ps"
proof (cases "subClosed sub \<or> pOrder p \<le> subOrder sub")
  case True
  with assms(2,3) show ?thesis by (simp add: subscription_deliver_def)
next
  case False
  have below: "pOrder q < pOrder p" if "q \<in> set ps" for q
    using that False assms(1,2)
    by (force simp: history_ok_def sub_wf_def sub_pending_def split: option.splits mailbox.splits)
  have "subOrder sub' = pOrder p" using deliver_order [OF assms(3)] False by simp
  moreover have "sub_pending sub' = None \<and> \<not> is_shared sub' \<or> sub_pending sub' = Some p"
    using False assms(1,3)
    by (auto simp: deliver_defs sub_pending_def is_shared_def sub_wf_def mailbox_closed_def
             split: mailbox.splits if_splits)
  ultimately show ?thesis
    using below assms(2) by (auto simp: history_ok_def less_SucI split: option.splits)
qed

lemma history_take:
  assumes "sub_wf sub" and "history_ok sub ps" and "sub_take sub = (Some p, sub')"
  shows "history_ok sub' (p # ps) \<and> sub_wf sub' \<and> subOrder sub' = subOrder sub \<and>
         subOnce sub' = subOnce sub \<and> subClosed sub' = subClosed sub"
proof -
  from assms(3) obtain c where mb: "subMailbox sub = Publications c" and sl: "slot c = Some p"
    and sub': "sub' = sub\<lparr>subMailbox := Publications (c\<lparr>slot := None\<rparr>)\<rparr>"
    by (auto simp: sub_take_def chan_receive_def split: mailbox.splits option.splits if_splits)
  with assms(1) have "pOrder p = subOrder sub" by (auto simp: sub_wf_def)
  with assms(1,2) mb sl sub' show ?thesis
    by (auto simp: history_ok_def sub_pending_def sub_wf_def mailbox_closed_def intro: less_SucI)
qed

text \<open>
  The common shape of the other steps: one subscription changes, watchers may only leave, and a
  delivery disappears only when its mailbox has recorded it.
\<close>

lemma one_subscription_inv:
  assumes inv: "sys_inv H \<sigma>" and st: "store_inv H st"
    and sub: "heap (sysStore \<sigma>) w = Some sub" and heap: "heap st = (heap (sysStore \<sigma>))(w \<mapsto> sub')"
    and frame: "records st = records (sysStore \<sigma>)" "nextSub st = nextSub (sysStore \<sigma>)"
      "publicationOrder st = publicationOrder (sysStore \<sigma>)"
    and leave: "\<And>key. set (watchers_of key st) \<subseteq> set (watchers_of key (sysStore \<sigma>))"
    and mono: "subOrder sub \<le> subOrder sub'" and hist: "history_ok sub' ps"
    and fl: "set fl \<subseteq> set (inflight \<sigma>)"
      "\<And>q v. (q, v) \<in> set (inflight \<sigma>) - set fl \<Longrightarrow> v = w \<and> (pOrder q \<le> subOrder sub' \<or> subOnce sub')"
    and cl: "distinct cl" "\<And>v. v \<in> set cl \<Longrightarrow> v \<noteq> w \<Longrightarrow> v \<in> set (closing \<sigma>)"
      "w \<in> set cl \<Longrightarrow> subOnce sub' \<and> \<not> subClosed sub'"
  shows "sys_inv H \<lparr>sysStore = st, inflight = fl, closing = cl, owner = owner \<sigma>,
                    received = (received \<sigma>)(w := ps)\<rparr>" (is "sys_inv H ?\<tau>")
proof -
  have wf: "subs_inv (sysStore \<sigma>)" "subs_inv st" using inv st by (auto simp: sys_inv_def elim: store_invE)
  have "flight_inv ?\<tau>"
    using inv fl(1) cl leave heap frame by (fastforce simp: sys_inv_def flight_inv_def)
  moreover have "history_inv ?\<tau>"
    using inv heap frame hist subs_invD(1) [OF wf(1) sub] by (auto simp: sys_inv_def history_inv_def)
  moreover have "no_loss ?\<tau>"
    unfolding no_loss_def
  proof (intro allI impI, elim conjE)
    fix key r v sv
    assume a: "records (sysStore ?\<tau>) key = Some r" "v \<in> set (watchers_of key (sysStore ?\<tau>))"
      "heap (sysStore ?\<tau>) v = Some sv"
    then have r: "records (sysStore \<sigma>) key = Some r" and v: "v \<in> set (watchers_of key st)" using frame by simp_all
    with leave have v': "v \<in> set (watchers_of key (sysStore \<sigma>))" by blast
    have live: "\<not> subOnce sv" using subs_inv_watcher(1) [OF wf(2) v] a(3) by auto
    obtain old where old: "heap (sysStore \<sigma>) v = Some old" "subOrder old \<le> subOrder sv"
      using a(3) heap sub mono by (cases "v = w") auto
    from no_lossD [OF _ r v' old(1)] inv have
      "pOrder (rPublication r) \<le> subOrder old \<or> (rPublication r, v) \<in> set (inflight \<sigma>)"
      by (simp add: sys_inv_def)
    then show "pOrder (rPublication r) \<le> subOrder sv \<or> (rPublication r, v) \<in> set (inflight ?\<tau>)"
      using old(2) fl(2) [of "rPublication r" v] a(3) heap live by auto
  qed
  ultimately show ?thesis using st by (simp add: sys_inv_def)
qed

lemma deliver_step_inv:
  assumes inv: "sys_inv H \<sigma>" and fl: "inflight \<sigma> = xs @ (p, w) # ys"
  shows "sys_inv H (\<sigma>\<lparr>sysStore := deliver_one p w (sysStore \<sigma>), inflight := xs @ ys\<rparr>)" (is "sys_inv H ?\<tau>")
proof (cases "heap (sysStore \<sigma>) w")
  case None
  have "w \<notin> set (watchers_of key (sysStore \<sigma>))" for key
    using None subs_inv_watcher(1) [of "sysStore \<sigma>" w key] inv by (auto simp: sys_inv_def store_inv_def)
  with None inv fl show ?thesis
    by (auto simp: sys_inv_def deliver_one_def flight_inv_def no_loss_def history_inv_def) blast
next
  case (Some sub)
  have p: "pOrder p \<le> publicationOrder (sysStore \<sigma>)" using inv fl by (auto simp: sys_inv_def flight_inv_def)
  have si: "store_inv H (sysStore \<sigma>)" and ss: "subs_inv (sysStore \<sigma>)"
    using inv by (auto simp: sys_inv_def elim: store_invE)
  note wf = subs_invD [OF ss Some]
  from deliver_no_panic [OF wf(2)] obtain sub' c where d: "subscription_deliver p sub = Some (sub', c)" by blast
  have h: "heap (deliver_one p w (sysStore \<sigma>)) = (heap (sysStore \<sigma>))(w \<mapsto> sub')"
    using Some d by (simp add: deliver_one_def)
  have "sys_inv H \<lparr>sysStore = deliver_one p w (sysStore \<sigma>), inflight = xs @ ys, closing = closing \<sigma>,
          owner = owner \<sigma>, received = (received \<sigma>)(w := received \<sigma> w)\<rparr>"
  proof (rule one_subscription_inv [OF inv _ Some h])
    show "store_inv H (deliver_one p w (sysStore \<sigma>))" by (rule store_inv_deliver_one [OF si p])
    show "history_ok sub' (received \<sigma> w)"
      using history_deliver [OF wf(2) _ d] inv Some by (simp add: sys_inv_def history_inv_def)
    show "v = w \<and> (pOrder q \<le> subOrder sub' \<or> subOnce sub')"
      if "(q, v) \<in> set (inflight \<sigma>) - set (xs @ ys)" for q v
      using that fl deliver_order [OF d] deliver_once [OF d] wf(4) by auto
    show "w \<in> set (closing \<sigma>) \<Longrightarrow> subOnce sub' \<and> \<not> subClosed sub'"
      using inv Some deliver_once [OF d] deliver_closed [OF d] by (auto simp: sys_inv_def flight_inv_def)
    show "subOrder sub \<le> subOrder sub'" using deliver_order [OF d] by simp
  qed (use inv fl in \<open>auto simp: frame_simps watchers_of_def sys_inv_def flight_inv_def\<close>)
  then show ?thesis by (cases \<sigma>) simp
qed

lemma cancel_step_inv:
  assumes inv: "sys_inv H \<sigma>" and own: "owner \<sigma> w = Some key"
    and c: "cancel_begin key w (sysStore \<sigma>) = (True, st)"
  shows "sys_inv H (\<sigma>\<lparr>sysStore := st, closing := w # closing \<sigma>\<rparr>)"
proof -
  have si: "store_inv H (sysStore \<sigma>)" using inv by (simp add: sys_inv_def)
  have only: "w \<notin> set (watchers_of k (sysStore \<sigma>))" if "k \<noteq> key" for k
    using that inv own by (auto simp: sys_inv_def flight_inv_def)
  from c obtain sub where sub: "heap (sysStore \<sigma>) w = Some sub" "\<not> subOnce sub"
    and st: "st = unregister key w ((sysStore \<sigma>)\<lparr>heap := (heap (sysStore \<sigma>))(w \<mapsto> sub\<lparr>subOnce := True\<rparr>)\<rparr>)"
    by (auto simp: cancel_begin_def split: option.splits if_splits)
  have "\<not> subClosed sub" using subs_invD(4) [OF _ sub(1)] si sub(2) by (auto elim: store_invE)
  moreover have "w \<notin> set (closing \<sigma>)" using inv sub by (auto simp: sys_inv_def flight_inv_def)
  moreover have "set (watchers_of k st) \<subseteq> set (watchers_of k (sysStore \<sigma>))" for k
    by (auto simp: st unregister_def Let_def watchers_of_def split: if_splits option.splits)
  moreover have "history_ok (sub\<lparr>subOnce := True\<rparr>) (received \<sigma> w)"
    using inv sub(1) history_ok_cong [of "sub\<lparr>subOnce := True\<rparr>" sub]
    by (simp add: sys_inv_def history_inv_def sub_pending_def is_shared_def)
  ultimately have "sys_inv H \<lparr>sysStore = st, inflight = inflight \<sigma>, closing = w # closing \<sigma>,
      owner = owner \<sigma>, received = (received \<sigma>)(w := received \<sigma> w)\<rparr>"
    using inv cancel_begin_inv(1) [OF si only c]
    by (intro one_subscription_inv [OF inv _ sub(1)]) (auto simp: st frame_simps sys_inv_def flight_inv_def)
  then show ?thesis by (cases \<sigma>) simp
qed

lemma close_step_inv:
  assumes inv: "sys_inv H \<sigma>" and cl: "closing \<sigma> = xs @ w # ys"
  shows "sys_inv H (\<sigma>\<lparr>sysStore := close_watcher w (sysStore \<sigma>), closing := xs @ ys\<rparr>)"
proof -
  have si: "store_inv H (sysStore \<sigma>)" using inv by (simp add: sys_inv_def)
  from inv cl obtain sub where sub: "heap (sysStore \<sigma>) w = Some sub" "subOnce sub" "\<not> subClosed sub"
    by (auto simp: sys_inv_def flight_inv_def)
  have "sub_wf sub" using subs_invD(2) [OF _ sub(1)] si by (auto elim: store_invE)
  with close_no_panic sub(3) obtain sub' where c: "subscription_close sub = Some sub'" by blast
  have st: "close_watcher w (sysStore \<sigma>) = (sysStore \<sigma>)\<lparr>heap := (heap (sysStore \<sigma>))(w \<mapsto> sub')\<rparr>"
    using sub(1) c by (simp add: close_watcher_def)
  have pend: "sub_pending sub' = sub_pending sub" and sh: "is_shared sub' = is_shared sub"
    using c by (auto simp: subscription_close_def mailbox_close_def sub_pending_def is_shared_def
                     split: mailbox.splits if_splits)
  have "sys_inv H \<lparr>sysStore = close_watcher w (sysStore \<sigma>), inflight = inflight \<sigma>, closing = xs @ ys,
      owner = owner \<sigma>, received = (received \<sigma>)(w := received \<sigma> w)\<rparr>"
    using inv cl sub(1) history_ok_cong [OF pend _ sh] close_frame [OF c] close_watcher_inv [OF si sub]
    by (intro one_subscription_inv [OF inv _ sub(1)])
      (auto simp: st sys_inv_def flight_inv_def history_inv_def watchers_of_def)
  then show ?thesis by (cases \<sigma>) simp
qed

lemma receive_step_inv:
  assumes inv: "sys_inv H \<sigma>" and sub: "heap (sysStore \<sigma>) w = Some sub" and t: "sub_take sub = (Some p, sub')"
  shows "sys_inv H (\<sigma>\<lparr>sysStore := (sysStore \<sigma>)\<lparr>heap := (heap (sysStore \<sigma>))(w \<mapsto> sub')\<rparr>,
                      received := (received \<sigma>)(w := p # received \<sigma> w)\<rparr>)"
proof -
  have si: "store_inv H (sysStore \<sigma>)" and ss: "subs_inv (sysStore \<sigma>)"
    using inv by (auto simp: sys_inv_def elim: store_invE)
  note wf = subs_invD [OF ss sub]
  have "history_ok sub (received \<sigma> w)" using inv sub by (simp add: sys_inv_def history_inv_def)
  note h = history_take [OF wf(2) this t]
  let ?st = "(sysStore \<sigma>)\<lparr>heap := (heap (sysStore \<sigma>))(w \<mapsto> sub')\<rparr>"
  have "subs_inv ((sysStore \<sigma>)\<lparr>heap := (heap (sysStore \<sigma>))(w \<mapsto> sub'), coalesced := coalesced (sysStore \<sigma>)\<rparr>)"
    by (rule subs_inv_heap [OF ss sub]) (use h wf in auto)
  then have st: "store_inv H ?st"
    using si records_inv_cong [of ?st "sysStore \<sigma>" H] by (simp add: store_inv_def)
  have "sys_inv H \<lparr>sysStore = ?st, inflight = inflight \<sigma>, closing = closing \<sigma>, owner = owner \<sigma>,
      received = (received \<sigma>)(w := p # received \<sigma> w)\<rparr>"
    using inv st h sub
    by (intro one_subscription_inv [OF inv st sub]) (auto simp: sys_inv_def flight_inv_def watchers_of_def)
  then show ?thesis by (cases \<sigma>) simp
qed

text \<open>A registration reads the record with the new mailbox allocated, and appends the watcher.\<close>

lemma register_commitE:
  assumes "register_commit H now1 now2 key req mb s = Some (w, n, initial, demand, st)"
  obtains s1 where "readPublication H now1 key (s\<lparr>heap := (heap s)(nextSub s \<mapsto> new_subscription mb), nextSub := nextSub s + 1\<rparr>) = (initial, n, s1)"
    "records st = records s1" "heap st = (heap s)(w \<mapsto> new_subscription mb)" "w = nextSub s" "nextSub st = Suc (nextSub s)"
    "publicationOrder s \<le> publicationOrder st" "\<And>k. watchers_of k s1 = watchers_of k s"
    "\<And>k. watchers_of k st = (if k = key then watchers_of key s @ [w] else watchers_of k s)"
proof -
  let ?alloc = "s\<lparr>heap := (heap s)(nextSub s \<mapsto> new_subscription mb), nextSub := nextSub s + 1\<rparr>"
  obtain p1 n1 s1 where rd1: "readPublication H now1 key ?alloc = (p1, n1, s1)" by (metis prod_cases3)
  let ?s2 = "snd (hasDemand key now2 s1)"
  from assms rd1 have rd: "readPublication H now1 key ?alloc = (initial, n, s1)" and w: "w = nextSub s"
    and st: "st = ?s2\<lparr>subscribers := (subscribers ?s2)(key \<mapsto> watchers_of key ?s2 @ [w])\<rparr>"
    by (auto simp: register_commit_def Let_def case_prod_beta split: if_splits)
  note fr = readPublication_frame [OF rd]
  show thesis by (rule that [OF rd]) (use fr w in \<open>simp_all add: st watchers_of_def frame_simps\<close>)
qed

lemma register_no_loss:
  assumes inv: "sys_inv H \<sigma>" and r: "register_commit H now1 now2 key req mb (sysStore \<sigma>) = Some (w, n, initial, demand, st)"
  shows "no_loss ((commit [n, \<lparr>nPublication = initial, nWatchers = [w]\<rparr>] st \<sigma>)\<lparr>owner := f\<rparr>)" (is "no_loss ?\<tau>")
  unfolding no_loss_def
proof (intro allI impI, elim conjE)
  let ?s = "sysStore \<sigma>"
  from r obtain s1 where rd: "readPublication H now1 key (?s\<lparr>heap := (heap ?s)(nextSub ?s \<mapsto> new_subscription mb), nextSub := nextSub ?s + 1\<rparr>) = (initial, n, s1)"
    and rst: "records st = records s1" "heap st = (heap ?s)(w \<mapsto> new_subscription mb)" and w: "w = nextSub ?s"
    and wk: "\<And>k. watchers_of k s1 = watchers_of k ?s"
    and wst: "\<And>k. watchers_of k st = (if k = key then watchers_of key ?s @ [w] else watchers_of k ?s)"
    by (elim register_commitE) metis
  have ann: "announced ?s [n] s1" using read_announced [OF rd] by (simp add: announced_def)
  fix k q v sv
  assume a: "records (sysStore ?\<tau>) k = Some q" "v \<in> set (watchers_of k (sysStore ?\<tau>))" "heap (sysStore ?\<tau>) v = Some sv"
  show "pOrder (rPublication q) \<le> subOrder sv \<or> (rPublication q, v) \<in> set (inflight ?\<tau>)"
  proof (cases "v = w")
    case True
    have "w \<notin> set (watchers_of k ?s)" using inv subs_inv_watcher(2) [of ?s w k] w by (auto simp: sys_inv_def elim: store_invE)
    with True a(2) wst have k: "k = key" by (auto split: if_splits)
    have "initial = Some (rPublication q)"
      using rd a(1) k rst(1) readPublication_frame(10) [OF rd] by (auto simp: readPublication_def expireRecord_eq split: option.splits if_splits)
    with True show ?thesis by (simp add: in_deliveries)
  next
    case False
    with a(2) wst have v: "v \<in> set (watchers_of k ?s)" by (auto split: if_splits)
    show ?thesis
    proof (cases "records ?s k = Some q")
      case True
      with no_lossD [OF _ True v] inv a(3) rst(2) False show ?thesis by (auto simp: sys_inv_def)
    next
      case F: False
      with ann a(1) rst(1) have "nPublication n = Some (rPublication q)" "nWatchers n = watchers_of k s1" by (auto simp: announced_def)
      with v wk show ?thesis by (simp add: in_deliveries)
    qed
  qed
qed

lemma register_step_inv:
  assumes inv: "sys_inv H \<sigma>" and mb: "mb = Publications make_chan \<or> mb = Snapshots make_chan"
    and r: "register_commit H now1 now2 key req mb (sysStore \<sigma>) = Some (w, n, initial, demand, st)"
  shows "sys_inv H ((commit [n, \<lparr>nPublication = initial, nWatchers = [w]\<rparr>] st \<sigma>)\<lparr>owner := (owner \<sigma>)(w \<mapsto> key)\<rparr>)"
    (is "sys_inv H ?\<tau>")
proof -
  let ?s = "sysStore \<sigma>"
  have si: "store_inv H ?s" and ss: "subs_inv ?s" using inv by (auto simp: sys_inv_def elim: store_invE)
  note reg = register_commit_inv [OF si mb r]
  from r have rst: "heap st = (heap ?s)(w \<mapsto> new_subscription mb)" "publicationOrder ?s \<le> publicationOrder st"
    "\<And>k. watchers_of k st = (if k = key then watchers_of key ?s @ [w] else watchers_of k ?s)"
    by (elim register_commitE; simp)+
  have old: "v \<noteq> w" if "v \<in> set (watchers_of k ?s)" for v k
    using subs_inv_watcher(2) [OF ss that] reg(4) by simp
  have "flight_inv ?\<tau>"
    using inv reg rst old subs_invD(1) [OF ss]
    by (fastforce simp: sys_inv_def flight_inv_def in_deliveries notification_ok_def)
  moreover have "heap ?s w = None" using subs_invD(1) [OF ss] reg(4) by (cases "heap ?s w") auto
  then have "history_inv ?\<tau>"
    using inv rst reg(4)
    by (auto simp: sys_inv_def history_inv_def history_ok_def new_subscription_def)
  ultimately show ?thesis using reg(1) register_no_loss [OF inv r] by (simp add: sys_inv_def)
qed

section \<open>Every step keeps the invariant\<close>

text \<open>Operations on demand leave records and subscriptions alone.\<close>

lemma demand_ops_quiet:
  "RequestRefresh now key s = (ok, d, t) \<Longrightarrow> announced s [] t \<and> same_subs s t"
  "hasDemand key now s = (active, t) \<Longrightarrow> announced s [] t \<and> same_subs s t"
  "ActiveClusters now order s = (refs, t) \<Longrightarrow> announced s [] t \<and> same_subs s t"
  "announced s [] (SetDemandHandler h lease s) \<and> same_subs s (SetDemandHandler h lease s)"
  by (auto simp: announced_def same_subs_def RequestRefresh_def hasDemand_def ActiveClusters_def prune_unary_def SetDemandHandler_def Let_def
      split: if_splits)

text \<open>A step is a commit that announces what it changes, or one of the steps of a subscription.\<close>

lemma sys_step_kinds [consumes 2, case_names commits register deliver cancel close receive]:
  assumes "sys_step H \<sigma> \<sigma>'" and si: "store_inv H (sysStore \<sigma>)"
  obtains ns st where "\<sigma>' = commit ns st \<sigma>" "store_inv H st" "same_subs (sysStore \<sigma>) st" "notes_ok st ns" "announced (sysStore \<sigma>) ns st"
    | now1 now2 key req mb w n initial demand st where
      "\<sigma>' = (commit [n, \<lparr>nPublication = initial, nWatchers = [w]\<rparr>] st \<sigma>)\<lparr>owner := (owner \<sigma>)(w \<mapsto> key)\<rparr>"
      "register_commit H now1 now2 key req mb (sysStore \<sigma>) = Some (w, n, initial, demand, st)" "mb = Publications make_chan \<or> mb = Snapshots make_chan"
    | xs p w ys where "\<sigma>' = \<sigma>\<lparr>sysStore := deliver_one p w (sysStore \<sigma>), inflight := xs @ ys\<rparr>" "inflight \<sigma> = xs @ (p, w) # ys"
    | w key st where "\<sigma>' = \<sigma>\<lparr>sysStore := st, closing := w # closing \<sigma>\<rparr>" "owner \<sigma> w = Some key" "cancel_begin key w (sysStore \<sigma>) = (True, st)"
    | xs w ys where "\<sigma>' = \<sigma>\<lparr>sysStore := close_watcher w (sysStore \<sigma>), closing := xs @ ys\<rparr>" "closing \<sigma> = xs @ w # ys"
    | w sub p sub' where "\<sigma>' = \<sigma>\<lparr>sysStore := (sysStore \<sigma>)\<lparr>heap := (heap (sysStore \<sigma>))(w \<mapsto> sub')\<rparr>, received := (received \<sigma>)(w := p # received \<sigma> w)\<rparr>"
      "heap (sysStore \<sigma>) w = Some sub" "sub_take sub = (Some p, sub')"
  using assms(1)
proof cases
  case (put now1 now2 snap changed n st)
  with put_announced [OF put(2)] PutDeferred_inv [OF si put(2)] show thesis by (intro that(1) [of "[n]" st]) (simp_all add: notes_ok_def)
next
  case (delete key n st)
  with delete_announced [OF delete(2)] DeleteDeferred_inv [OF si delete(2)] show thesis by (intro that(1) [of "[n]" st]) (simp_all add: notes_ok_def)
next
  case (read now key p n st)
  with read_announced [OF read(2)] readPublication_inv [OF si read(2)] show thesis by (intro that(1) [of "[n]" st]) (simp_all add: notes_ok_def)
next
  case (expire now order ns st)
  with expire_announced [OF expire(2)] ExpireDeferred_inv [OF si expire(2)] show thesis by (intro that(1) [of ns st]) simp_all
next
  case (refresh now key ok demand st)
  with demand_ops_quiet(1) [OF refresh(2)] RequestRefresh_inv [OF si refresh(2)] show thesis by (intro that(1) [of "[]" st]) (simp_all add: notes_ok_def)
next
  case (demand key now active st)
  with demand_ops_quiet(2) [OF demand(2)] hasDemand_inv [OF si, of key now] show thesis by (intro that(1) [of "[]" st]) (simp_all add: notes_ok_def)
next
  case (active now order refs st)
  then have "st = prune_unary now (sysStore \<sigma>)" by (simp add: ActiveClusters_def Let_def)
  with active demand_ops_quiet(3) [OF active(2)] prune_unary_inv [OF si] show thesis by (intro that(1) [of "[]" st]) (simp_all add: notes_ok_def)
next
  case (handler h lease)
  have "announced (sysStore \<sigma>) [] (SetDemandHandler h lease (sysStore \<sigma>))" "same_subs (sysStore \<sigma>) (SetDemandHandler h lease (sysStore \<sigma>))"
    using demand_ops_quiet(4) by blast+
  with handler SetDemandHandler_inv [OF si] show thesis by (intro that(1)) (simp_all add: notes_ok_def)
next
  case (cancel_again w key st)
  then have "st = sysStore \<sigma>" by (auto simp: cancel_begin_def split: option.splits if_splits)
  then show thesis using cancel_again si by (intro that(1) [of "[]" st]) (simp_all add: commit_def same_subs_def announced_refl notes_ok_def)
qed (use that(2-6) in blast)+

theorem sys_step_inv:
  assumes "sys_step H \<sigma> \<sigma>'" and inv: "sys_inv H \<sigma>"
  shows "sys_inv H \<sigma>'"
proof -
  have si: "store_inv H (sysStore \<sigma>)" using inv by (simp add: sys_inv_def)
  from assms(1) si show ?thesis
    by (cases rule: sys_step_kinds)
      (simp_all add: commit_inv [OF inv] register_step_inv [OF inv] deliver_step_inv [OF inv] cancel_step_inv [OF inv] close_step_inv [OF inv] receive_step_inv [OF inv])
qed

lemma sys_init_inv: "NewStore rand = Some st \<Longrightarrow> sys_inv H (init_sys st)"
  using NewStore_inv [of rand st H]
  by (auto simp: sys_inv_def init_sys_def flight_inv_def no_loss_def history_inv_def NewStore_def watchers_of_def)

lemma sys_reach_inv: "sys_reach H \<sigma> \<Longrightarrow> sys_inv H \<sigma>"
  by (induction rule: sys_reach.induct) (auto intro: sys_init_inv sys_step_inv)

section \<open>What watchers observe\<close>

text \<open>
  C6: whatever the schedule, a gRPC consumer receives publications in strictly increasing
  publication order: an out-of-order delivery can never rewind what it has seen.
\<close>

theorem watcher_never_rewinds:
  assumes "sys_reach H \<sigma>"
  shows "sorted_wrt (<) (map pOrder (rev (received \<sigma> w)))"
proof -
  have "sorted_wrt (>) (map pOrder (received \<sigma> w))"
    using sys_reach_inv [OF assms]
    by (cases "heap (sysStore \<sigma>) w") (auto simp: sys_inv_def history_inv_def history_ok_def)
  then show ?thesis by (simp add: rev_map [symmetric] sorted_wrt_rev)
qed

text \<open>
  C31: no schedule of commits, deliveries, receives and (repeated, concurrent) cancellations sends
  on a closed channel or closes one twice, either of which would panic the process.
\<close>

theorem channels_never_panic:
  assumes "sys_reach H \<sigma>"
  shows "\<not> panicked (sysStore \<sigma>)"
  using sys_reach_inv [OF assms] by (simp add: sys_inv_def store_inv_def subs_inv_def)

text \<open>
  C11: no update is lost to a slow or racing consumer. Once no delivery to a gRPC watcher of a
  stored cluster is outstanding, the watcher holds, pending or as the last one it received, a
  publication at least as new as the stored one.
\<close>

theorem watcher_catches_up:
  assumes "sys_reach H \<sigma>" and "records (sysStore \<sigma>) key = Some r"
    and "w \<in> set (watchers_of key (sysStore \<sigma>))" and "\<forall>p. (p, w) \<notin> set (inflight \<sigma>)"
    and "heap (sysStore \<sigma>) w = Some sub" and "is_shared sub"
  shows "\<exists>p. (sub_pending sub = Some p \<or> received \<sigma> w \<noteq> [] \<and> hd (received \<sigma> w) = p) \<and>
             pOrder (rPublication r) \<le> pOrder p"
proof -
  have inv: "sys_inv H \<sigma>" by (rule sys_reach_inv [OF assms(1)])
  with no_lossD [OF _ assms(2,3,5)] assms(4) have le: "pOrder (rPublication r) \<le> subOrder sub"
    by (auto simp: sys_inv_def)
  from inv assms(2) have "1 \<le> pOrder (rPublication r)"
    by (auto simp: sys_inv_def store_inv_def records_inv_def record_ok_def Let_def)
  moreover have "history_ok sub (received \<sigma> w)" using inv assms(5) by (simp add: sys_inv_def history_inv_def)
  moreover have "sub_wf sub" using inv assms(5) subs_invD(2) by (auto simp: sys_inv_def elim: store_invE)
  ultimately show ?thesis
    using le assms(6)
    by (auto simp: history_ok_def sub_wf_def sub_pending_def split: mailbox.splits)
qed

end
