(* ===== verification/Observer.thy ===== *)
theory Observer
  imports Evidence Queue Store_Concurrency
begin

text \<open>
  The observer of \<open>internal/observer\<close>: its state, the metadata event handlers (\<open>events.go\<close>,
  \<open>connection.go\<close>), the collection of an observation (\<open>collection.go\<close>, \<open>publication.go\<close>) and the worker
  (\<open>work.go\<close>). Every section of the code that runs under \<open>stateMu\<close> is one function on the state; the
  deliveries it defers are appended to \<open>oOut\<close>. Informer caches, the delaying queue and contexts
  belong to client-go and Go's \<open>context\<close>: the caches are part of the state and change from
  outside, requests to the delaying queues are recorded in the order they are made, and a context is
  a number with the set of cancelled ones in the state.
\<close>

section \<open>State\<close>

record Options =
  optNamespace :: string
  optPollInterval :: duration
  optTTL :: duration
  optProbeTimeout :: duration
  optMaxConcurrency :: int
  optMaxConcurrentClusters :: int

record secretMeta =
  metaNamespace :: string
  metaName :: string
  metaUID :: string
  metaResourceVersion :: string

text \<open>\<open>caPtr\<close> is the address of the entry: the code compares entries by pointer.\<close>

record cachedCA =
  caPtr :: nat
  caKey :: clusterKey
  caUID :: string
  caResourceVersion :: string
  caPublic :: string

record connectionInfo =
  ciParameters :: v1_ConnectionParameters
  ciCA :: "cachedCA option"

datatype requeue = AddAfter clusterKey duration | AddRateLimited clusterKey | Forget clusterKey
datatype ca_request = CAAdd clusterKey | CAAddAfter clusterKey duration | CAAddRateLimited clusterKey | CAForget clusterKey

record 'd observer =
  oStore :: "'d store"
  oOut :: "notification list"
  oClusters :: "(string \<times> gomap) list"
  oPods :: "pod list"
  oSecrets :: "string \<rightharpoonup> secretMeta"
  oReady :: bool
  oClusterWatch :: bool
  oPodWatch :: bool
  oSecretWatch :: bool
  oQueue :: priorityQueue
  oRequeue :: "requeue list"
  oDemandNext :: "clusterKey \<rightharpoonup> time"
  oObservations :: "clusterKey \<rightharpoonup> nat"
  oSuperseded :: "nat list"
  oStopped :: bool
  oPrimaries :: primaries
  oCAs :: "clusterKey \<rightharpoonup> cachedCA"
  oCAReads :: "clusterKey \<rightharpoonup> nat"
  oCAPending :: "clusterKey \<rightharpoonup> bool"
  oCAQueue :: "ca_request list"
  oCACancelled :: "nat list"
  oCounters :: "nat \<times> nat \<times> nat"
  oNext :: nat
  oReads :: nat

text \<open>
  What the observer is configured with: accessors, digest, clock (its readings in order), options.
\<close>

record 'd oenv =
  api :: apimachinery
  digest :: "v1_Snapshot \<Rightarrow> 'd"
  clock :: "nat \<Rightarrow> time"
  opts :: Options

section \<open>Clock, store and caches\<close>

definition Now :: "'d oenv \<Rightarrow> 'd observer \<Rightarrow> time \<times> 'd observer" where
  "Now E s = (clock E (oReads s), s\<lparr>oReads := Suc (oReads s)\<rparr>)"

definition store_HasDemand :: "'d oenv \<Rightarrow> clusterKey \<Rightarrow> 'd observer \<Rightarrow> bool \<times> 'd observer" where
  "store_HasDemand E key s =
     (let (now, s) = Now E s; (b, st) = HasDemand now key (oStore s) in (b, s\<lparr>oStore := st\<rparr>))"

definition store_PutDeferred :: "'d oenv \<Rightarrow> v1_Snapshot \<Rightarrow> 'd observer \<Rightarrow> bool \<times> 'd observer" where
  "store_PutDeferred E snapshot s =
     (let (now1, s) = Now E s; (now2, s) = Now E s;
          (changed, n, st) = PutDeferred (digest E) now1 now2 snapshot (oStore s)
      in (changed, s\<lparr>oStore := st, oOut := oOut s @ [n]\<rparr>))"

definition store_DeleteDeferred :: "clusterKey \<Rightarrow> 'd observer \<Rightarrow> 'd observer" where
  "store_DeleteDeferred key s =
     (let (n, st) = DeleteDeferred key (oStore s) in s\<lparr>oStore := st, oOut := oOut s @ [n]\<rparr>)"

definition store_GetDeferred :: "'d oenv \<Rightarrow> clusterKey \<Rightarrow> 'd observer \<Rightarrow> v1_Snapshot option \<times> 'd observer" where
  "store_GetDeferred E key s =
     (let (now, s) = Now E s; (snap, n, st) = GetDeferred (digest E) now key (oStore s)
      in (snap, s\<lparr>oStore := st, oOut := oOut s @ [n]\<rparr>))"

text \<open>\<open>commitPublication\<close>; its log line is not modelled.\<close>

definition commitPublication :: "'d oenv \<Rightarrow> v1_Snapshot \<Rightarrow> 'd observer \<Rightarrow> 'd observer" where
  "commitPublication E snapshot s = snd (store_PutDeferred E snapshot s)"

text \<open>\<open>commitPublication(unavailable(c, time.Now().UTC(), o.opts.TTL, reason))\<close>.\<close>

definition commit_unavailable :: "'d oenv \<Rightarrow> gomap \<Rightarrow> string \<Rightarrow> 'd observer \<Rightarrow> 'd observer" where
  "commit_unavailable E c reason s =
     (let (now, s) = Now E s in commitPublication E (unavailable (api E) c now (optTTL (opts E)) reason) s)"

definition cluster_key :: "'d oenv \<Rightarrow> gomap \<Rightarrow> clusterKey" where
  "cluster_key E c = ClusterKey (GetNamespace (api E) c) (GetName (api E) c)"

definition cluster :: "clusterKey \<Rightarrow> 'd observer \<Rightarrow> gomap option" where
  "cluster key s = map_of (oClusters s) (clusterKey_String key)"

definition podCluster :: "pod option \<Rightarrow> clusterKey option" where
  "podCluster obj =
     (case obj of
        None \<Rightarrow> None
      | Some p \<Rightarrow>
          (case List.find (\<lambda>ref. ownerKind ref = ''Cluster'' \<and> ownerAPIVersion ref = ''postgresql.cnpg.io/v1'') (podOwnerReferences p) of
             None \<Rightarrow> None
           | Some ref \<Rightarrow> Some (ClusterKey (podNamespace p) (ownerName ref))))"

definition indexPodCluster :: "pod \<Rightarrow> string list" where
  "indexPodCluster p = (case podCluster (Some p) of Some key \<Rightarrow> [clusterKey_String key] | None \<Rightarrow> [])"

definition indexServerCA :: "'d oenv \<Rightarrow> gomap \<Rightarrow> string list" where
  "indexServerCA E c =
     (let enabled = fst (parameters (api E) c); name = serverCASecret (api E) c in
        if enabled \<and> GetDeletionTimestamp (api E) c = None \<and> name \<noteq> [] then [GetNamespace (api E) c @ ''/'' @ name] else [])"

text \<open>\<open>pods\<close>: the Pods indexed under the Cluster, then those it owns.\<close>

definition pods :: "'d oenv \<Rightarrow> gomap \<Rightarrow> 'd observer \<Rightarrow> pod list" where
  "pods E c s = ownedPods (api E) c
     (filter (\<lambda>p. clusterKey_String (cluster_key E c) \<in> set (indexPodCluster p)) (oPods s))"

definition clustersUsingCA :: "'d oenv \<Rightarrow> clusterKey \<Rightarrow> 'd observer \<Rightarrow> gomap list" where
  "clustersUsingCA E key s = filter (\<lambda>c. clusterKey_String key \<in> set (indexServerCA E c)) (map snd (oClusters s))"

definition secretMetadata :: "clusterKey \<Rightarrow> 'd observer \<Rightarrow> secretMeta option" where
  "secretMetadata key s = oSecrets s (clusterKey_String key)"

definition currentCA :: "cachedCA option \<Rightarrow> 'd observer \<Rightarrow> bool" where
  "currentCA ca s =
     (case ca of
        None \<Rightarrow> False
      | Some ca \<Rightarrow>
          (if map_option caPtr (oCAs s (caKey ca)) \<noteq> Some (caPtr ca) then False
           else case secretMetadata (caKey ca) s of
             None \<Rightarrow> False
           | Some meta \<Rightarrow> metaUID meta = caUID ca \<and> metaResourceVersion meta = caResourceVersion ca))"

definition Ready :: "'d observer \<Rightarrow> bool" where
  "Ready s \<longleftrightarrow> oReady s \<and> oClusterWatch s \<and> oPodWatch s \<and> oSecretWatch s"

section \<open>Scheduling\<close>

text \<open>
  The cooldown of non-urgent requests. The loop over \<open>LoadOrStore\<close> and \<open>CompareAndSwap\<close> takes effect
  at its last atomic operation, which finds the entry as it was read.
\<close>

definition demand_slot :: "'d oenv \<Rightarrow> time \<Rightarrow> clusterKey \<Rightarrow> (clusterKey \<rightharpoonup> time) \<Rightarrow> duration option \<times> (clusterKey \<rightharpoonup> time)" where
  "demand_slot E now key m =
     (case m key of
        Some deadline \<Rightarrow>
          (if now < deadline then (Some (deadline - now), m)
           else (None, m(key \<mapsto> now + optPollInterval (opts E))))
      | None \<Rightarrow> (None, m(key \<mapsto> now + optPollInterval (opts E))))"

definition queue_Add :: "clusterKey \<Rightarrow> 'd observer \<Rightarrow> 'd observer" where
  "queue_Add key s = s\<lparr>oQueue := Add key (oQueue s)\<rparr>"

definition enqueue :: "'d oenv \<Rightarrow> string \<Rightarrow> string \<Rightarrow> bool \<Rightarrow> 'd observer \<Rightarrow> 'd observer" where
  "enqueue E namespace name isUrgent s =
     (if namespace = [] \<or> name = [] \<or> (optNamespace (opts E) \<noteq> [] \<and> namespace \<noteq> optNamespace (opts E)) then s
      else
        let key = ClusterKey namespace name; (demanded, s) = store_HasDemand E key s in
          if \<not> demanded then s
          else if map_of (oClusters s) (namespace @ ''/'' @ name) = None then s
          else if isUrgent then queue_Add key (s\<lparr>oQueue := promote key (oQueue s)\<rparr>)
          else
            let (now, s) = Now E s; (wait, m) = demand_slot E now key (oDemandNext s); s = s\<lparr>oDemandNext := m\<rparr> in
              case wait of
                Some d \<Rightarrow> s\<lparr>oRequeue := oRequeue s @ [AddAfter key d]\<rparr>
              | None \<Rightarrow> queue_Add key s)"

definition Notify :: "'d oenv \<Rightarrow> string \<Rightarrow> string \<Rightarrow> 'd observer \<Rightarrow> 'd observer" where
  "Notify E namespace name s = enqueue E namespace name True s"

definition notify_key :: "'d oenv \<Rightarrow> clusterKey \<Rightarrow> 'd observer \<Rightarrow> 'd observer" where
  "notify_key E key s = Notify E (ck_namespace key) (ck_name key) s"

text \<open>
  \<open>beginObservation\<close> returns the new context; \<open>finish_observation\<close> is the function it returns. Its \<open>cancel(nil)\<close>, which
  releases the context when nobody uses it any more, is left out.
\<close>

definition beginObservation :: "clusterKey \<Rightarrow> 'd observer \<Rightarrow> nat \<times> 'd observer" where
  "beginObservation key s = (oNext s, s\<lparr>oObservations := (oObservations s)(key \<mapsto> oNext s), oNext := Suc (oNext s)\<rparr>)"

definition finish_observation :: "clusterKey \<Rightarrow> 'd observer \<Rightarrow> 'd observer" where
  "finish_observation key s = s\<lparr>oObservations := (oObservations s)(key := None)\<rparr>"

definition cancelObservationLocked :: "clusterKey \<Rightarrow> 'd observer \<Rightarrow> 'd observer" where
  "cancelObservationLocked key s =
     (case oObservations s key of None \<Rightarrow> s | Some ctx \<Rightarrow> s\<lparr>oSuperseded := ctx # oSuperseded s\<rparr>)"

text \<open>\<open>ctx.Err() != nil\<close> for the context of an observation.\<close>

definition ctx_done :: "nat \<Rightarrow> 'd observer \<Rightarrow> bool" where
  "ctx_done ctx s \<longleftrightarrow> oStopped s \<or> ctx \<in> set (oSuperseded s)"

definition forget_evidence :: "clusterKey \<Rightarrow> 'd observer \<Rightarrow> 'd observer" where
  "forget_evidence key s = s\<lparr>oPrimaries := (oPrimaries s)(key := None)\<rparr>"

definition forget_demand :: "clusterKey \<Rightarrow> 'd observer \<Rightarrow> 'd observer" where
  "forget_demand key s = s\<lparr>oDemandNext := (oDemandNext s)(key := None)\<rparr>"

definition needsObservation :: "'d oenv \<Rightarrow> clusterKey \<Rightarrow> 'd observer \<Rightarrow> bool \<times> 'd observer" where
  "needsObservation E key s =
     (let (demanded, s) = store_HasDemand E key s in
        if \<not> demanded then (False, s) else (ClusterIdentity key (oStore s) \<noteq> None, s))"

section \<open>Metadata events\<close>

text \<open>What an informer hands to a handler; \<open>None\<close> is nil.\<close>

datatype kobj = KCluster gomap | KPod pod | KSecret secretMeta | KTombstone kobj | KOther

definition unwrap :: "kobj option \<Rightarrow> kobj option" where
  "unwrap obj = (case obj of Some (KTombstone x) \<Rightarrow> Some x | _ \<Rightarrow> obj)"

definition cachedCluster :: "kobj option \<Rightarrow> gomap option" where
  "cachedCluster obj = (case unwrap obj of Some (KCluster c) \<Rightarrow> Some c | _ \<Rightarrow> None)"

definition cachedPod :: "kobj option \<Rightarrow> pod option" where
  "cachedPod obj = (case unwrap obj of Some (KPod p) \<Rightarrow> Some p | _ \<Rightarrow> None)"

definition clusterEvent :: "'d oenv \<Rightarrow> kobj option \<Rightarrow> kobj option \<Rightarrow> 'd observer \<Rightarrow> 'd observer" where
  "clusterEvent E oldObj newObj s =
     (case cachedCluster newObj of
        None \<Rightarrow> s
      | Some c \<Rightarrow>
          let key = cluster_key E c; enabled = fst (parameters (api E) c) in
            if \<not> enabled \<or> GetDeletionTimestamp (api E) c \<noteq> None then
              store_DeleteDeferred key (forget_demand key (forget_evidence key (cancelObservationLocked key s)))
            else
              let old = cachedCluster oldObj;
                  s = (case ClusterIdentity key (oStore s) of
                         Some previous \<Rightarrow>
                           if rUID previous \<noteq> GetUID (api E) c then
                             commit_unavailable E c ''awaiting_observation''
                               (forget_demand key (forget_evidence key (cancelObservationLocked key s)))
                           else s
                       | None \<Rightarrow>
                           commit_unavailable E c ''awaiting_observation''
                             (forget_demand key (forget_evidence key (cancelObservationLocked key s))))
              in if (case old of Some prev \<Rightarrow> sameClusterRoute (api E) prev c | None \<Rightarrow> False) then s
                 else
                   let s = (if old \<noteq> None then commit_unavailable E c ''topology_changed'' (cancelObservationLocked key s) else s);
                       (demanded, s) = store_HasDemand E key s
                   in if demanded then notify_key E key s else s)"

definition clusterDeleted :: "'d oenv \<Rightarrow> kobj option \<Rightarrow> 'd observer \<Rightarrow> 'd observer" where
  "clusterDeleted E obj s =
     (case cachedCluster obj of
        None \<Rightarrow> s
      | Some c \<Rightarrow>
          let key = cluster_key E c in
            if (case cluster key s of Some current \<Rightarrow> GetUID (api E) current \<noteq> GetUID (api E) c | None \<Rightarrow> False) then s
            else forget_demand key (forget_evidence key (store_DeleteDeferred key (cancelObservationLocked key s))))"

text \<open>A replica changed: it is withdrawn from the stored snapshot, whose times stay.\<close>

definition withdraw_member :: "string \<Rightarrow> v1_Snapshot \<Rightarrow> v1_Snapshot" where
  "withdraw_member uid snapshot = snapshot\<lparr>sMembers :=
     map (\<lambda>m. if mID m = uid then m\<lparr>mReady := False, mReason := ''member_changed''\<rparr> else m) (sMembers snapshot)\<rparr>"

definition pod_event_key :: "'d oenv \<Rightarrow> pod option \<Rightarrow> pod option \<Rightarrow> clusterKey \<Rightarrow> 'd observer \<Rightarrow> 'd observer" where
  "pod_event_key E old new key s =
     notify_key E key
       (case cluster key s of
          None \<Rightarrow> s
        | Some c \<Rightarrow>
            (case old of
               None \<Rightarrow> s
             | Some old \<Rightarrow>
                 (if (case new of None \<Rightarrow> True | Some new \<Rightarrow> \<not> samePodRoute old new) then
                    (if podName old = fst (primaryNames (api E) c) then
                       commit_unavailable E c ''primary_changed'' (cancelObservationLocked key s)
                     else
                       case store_GetDeferred E key s of
                         (None, s) \<Rightarrow> s
                       | (Some snapshot, s) \<Rightarrow>
                           if rUID (sCluster snapshot) = GetUID (api E) c
                           then commitPublication E (withdraw_member (podUID old) snapshot) s else s)
                  else s)))"

text \<open>The affected clusters; \<open>swap\<close> chooses the order in which Go ranges over the set of keys.\<close>

definition event_keys :: "bool \<Rightarrow> pod option \<Rightarrow> pod option \<Rightarrow> clusterKey list" where
  "event_keys swap old new =
     (let keys = remdups (List.map_filter id [podCluster old, podCluster new]) in if swap then rev keys else keys)"

definition podEvent :: "'d oenv \<Rightarrow> bool \<Rightarrow> kobj option \<Rightarrow> kobj option \<Rightarrow> 'd observer \<Rightarrow> 'd observer" where
  "podEvent E swap oldObj newObj s =
     (let old = cachedPod oldObj; new = cachedPod newObj in
        if (case (old, new) of
              (Some a, Some b) \<Rightarrow> samePodRoute a b \<and>
                 str_at (podLabels a) ''topology.kubernetes.io/zone'' = str_at (podLabels b) ''topology.kubernetes.io/zone'' \<and>
                 str_at (podLabels a) ''topology.kubernetes.io/region'' = str_at (podLabels b) ''topology.kubernetes.io/region''
            | _ \<Rightarrow> False) then s
        else fold (pod_event_key E old new) (event_keys swap old new) s)"

section \<open>Certificate authorities\<close>

definition demanded_step :: "'d oenv \<Rightarrow> gomap \<Rightarrow> gomap list \<times> 'd observer \<Rightarrow> gomap list \<times> 'd observer" where
  "demanded_step E c acc =
     (case acc of (cs, s) \<Rightarrow>
        (case store_HasDemand E (cluster_key E c) s of (b, s) \<Rightarrow> (if b then cs @ [c] else cs, s)))"

definition demandedCAClusters :: "'d oenv \<Rightarrow> clusterKey \<Rightarrow> 'd observer \<Rightarrow> gomap list \<times> 'd observer" where
  "demandedCAClusters E key s = fold (demanded_step E) (clustersUsingCA E key s) ([], s)"

text \<open>The counters are CA hits, misses and failures.\<close>

definition count_ca :: "nat \<Rightarrow> nat \<Rightarrow> nat \<Rightarrow> 'd observer \<Rightarrow> 'd observer" where
  "count_ca hits misses failures s =
     (case oCounters s of (h, m, f) \<Rightarrow> s\<lparr>oCounters := (h + hits, m + misses, f + failures)\<rparr>)"

definition cachedConnection :: "'d oenv \<Rightarrow> bool \<Rightarrow> gomap \<Rightarrow> 'd observer \<Rightarrow> connectionInfo option \<times> 'd observer" where
  "cachedConnection E ctxErr c s =
     (if ctxErr then (None, s)
      else
        let key = ClusterKey (GetNamespace (api E) c) (serverCASecret (api E) c) in
          if currentCA (oCAs s key) s then
            (let ca = the (oCAs s key) in
              (Some \<lparr>ciParameters = \<lparr>cDatabase = applicationDatabase (api E) c, cServerCAPEM = caPublic ca\<rparr>, ciCA = Some ca\<rparr>,
               count_ca 1 0 0 s))
          else
            let s = count_ca 0 1 0 s in
              if secretMetadata key s = None then (None, count_ca 0 0 1 s)
              else (None, if flagged (oCAPending s key) then s
                          else s\<lparr>oCAPending := (oCAPending s)(key \<mapsto> True), oCAQueue := oCAQueue s @ [CAAdd key]\<rparr>))"

definition secret_event_cluster :: "'d oenv \<Rightarrow> gomap \<Rightarrow> 'd observer \<Rightarrow> 'd observer" where
  "secret_event_cluster E c s =
     (let key = cluster_key E c; s = cancelObservationLocked key s; (snapshot, s) = store_GetDeferred E key s;
          s = (case snapshot of
                 Some snap \<Rightarrow> if sAvailable snap \<or> cServerCAPEM (sConnection snap) \<noteq> []
                              then commit_unavailable E c ''connection_defaults_changed'' s else s
               | None \<Rightarrow> s)
      in notify_key E key s)"

definition secretEvent :: "'d oenv \<Rightarrow> kobj option \<Rightarrow> 'd observer \<Rightarrow> 'd observer" where
  "secretEvent E obj s =
     (case unwrap obj of
        Some (KSecret meta) \<Rightarrow>
          let key = ClusterKey (metaNamespace meta) (metaName meta) in
            if currentCA (oCAs s key) s then s
            else
              let s = s\<lparr>oCAs := (oCAs s)(key := None)\<rparr>;
                  s = (case oCAReads s key of None \<Rightarrow> s | Some ctx \<Rightarrow> s\<lparr>oCACancelled := ctx # oCACancelled s\<rparr>);
                  s = (if flagged (oCAPending s key) then s\<lparr>oCAQueue := oCAQueue s @ [CAAdd key]\<rparr> else s)
              in fold (secret_event_cluster E) (clustersUsingCA E key s) s
      | _ \<Rightarrow> s)"

text \<open>
  \<open>fetchCA\<close>: the section before the read (it is done, or it reads with a new context and the metadata
  it saw), and the section after it, with what was read.
\<close>

definition fetch_begin :: "'d oenv \<Rightarrow> clusterKey \<Rightarrow> 'd observer \<Rightarrow> (nat \<times> secretMeta) option \<times> 'd observer" where
  "fetch_begin E key s =
     (case secretMetadata key s of
        None \<Rightarrow> (None, s\<lparr>oCAPending := (oCAPending s)(key := None)\<rparr>)
      | Some meta \<Rightarrow>
          (case demandedCAClusters E key s of
             (clusters, s) \<Rightarrow>
               if clusters = [] \<or> currentCA (oCAs s key) s then (None, s\<lparr>oCAPending := (oCAPending s)(key := None)\<rparr>)
               else (Some (oNext s, meta), s\<lparr>oCAReads := (oCAReads s)(key \<mapsto> oNext s), oNext := Suc (oNext s)\<rparr>)))"

definition fetch_commit :: "'d oenv \<Rightarrow> clusterKey \<Rightarrow> nat \<Rightarrow> secretMeta \<Rightarrow> bool \<Rightarrow> cachedCA option \<Rightarrow> 'd observer \<Rightarrow> bool \<times> 'd observer" where
  "fetch_commit E key ctx meta timedOut read s =
     (let s = s\<lparr>oCAReads := (oCAReads s)(key := None)\<rparr> in
        case read of
          None \<Rightarrow> (False, count_ca 0 0 1 s)
        | Some ca \<Rightarrow>
            (case secretMetadata key s of
               None \<Rightarrow> (False, s)
             | Some current \<Rightarrow>
                 if timedOut \<or> oStopped s \<or> ctx \<in> set (oCACancelled s) \<or> \<not> Ready s \<or>
                    metaUID current \<noteq> metaUID meta \<or> metaResourceVersion current \<noteq> metaResourceVersion meta \<or>
                    caUID ca \<noteq> metaUID current \<or> caResourceVersion ca \<noteq> metaResourceVersion current then (False, s)
                 else
                   (case demandedCAClusters E key s of
                      (clusters, s) \<Rightarrow>
                        if clusters = [] then (True, s\<lparr>oCAPending := (oCAPending s)(key := None)\<rparr>)
                        else
                          let s = s\<lparr>oCAs := (oCAs s)(key \<mapsto> ca\<lparr>caPtr := oNext s\<rparr>), oNext := Suc (oNext s),
                                    oCAPending := (oCAPending s)(key := None)\<rparr>
                          in (True, fold (\<lambda>c. notify_key E (cluster_key E c)) clusters s))))"

section \<open>Observing\<close>

text \<open>
  \<open>observe\<close> up to the point where it has the lock released: it is finished (the cluster is gone), it
  must publish a failure, or it collects from the Cluster it read.
\<close>

datatype observe_plan = Gone | Fails string | Collects gomap Parameters

definition drop_cluster :: "clusterKey \<Rightarrow> 'd observer \<Rightarrow> 'd observer" where
  "drop_cluster key s = forget_evidence key (store_DeleteDeferred key s)"

definition observe_begin :: "'d oenv \<Rightarrow> clusterKey \<Rightarrow> 'd observer \<Rightarrow> observe_plan \<times> 'd observer" where
  "observe_begin E key s =
     (case cluster key s of
        None \<Rightarrow> (Gone, drop_cluster key s)
      | Some c \<Rightarrow>
          (case parameters (api E) c of
             (enabled, params) \<Rightarrow>
               if \<not> enabled \<or> GetDeletionTimestamp (api E) c \<noteq> None then (Gone, drop_cluster key s)
               else case params of
                 Inl e \<Rightarrow> (Fails ''invalid_configuration'', s)
               | Inr params \<Rightarrow>
                   (case primaryNames (api E) c of
                      (current, target) \<Rightarrow>
                        if current = [] \<or> current \<noteq> target then (Fails ''primary_transition'', s)
                        else (Collects c params, s))))"

text \<open>The expected primary is moved to the front of the Pods to probe.\<close>

definition primary_first :: "string \<Rightarrow> pod list \<Rightarrow> pod list" where
  "primary_first current ps =
     (case List.find (\<lambda>i. podName (ps ! i) = current) [0..<length ps] of
        None \<Rightarrow> ps
      | Some i \<Rightarrow> ps[0 := ps ! i, i := ps ! 0])"

definition publishFailure :: "'d oenv \<Rightarrow> nat \<Rightarrow> clusterKey \<Rightarrow> string \<Rightarrow> 'd observer \<Rightarrow> 'd observer" where
  "publishFailure E ctx key reason s =
     (if ctx_done ctx s then s
      else case cluster key s of
        None \<Rightarrow> store_DeleteDeferred key s
      | Some latest \<Rightarrow>
          (if \<not> fst (parameters (api E) latest) \<or> GetDeletionTimestamp (api E) latest \<noteq> None
           then store_DeleteDeferred key s
           else
             let (now, s) = Now E s; snapshot = unavailable (api E) latest now (optTTL (opts E)) reason;
                 (current, target) = primaryNames (api E) latest
             in commitPublication E (snapshot\<lparr>sTransitioning := (current = [] \<or> current \<noteq> target)\<rparr>) s))"

definition withdraw_conflict :: "v1_Snapshot \<Rightarrow> v1_Snapshot" where
  "withdraw_conflict snapshot = snapshot\<lparr>sAvailable := False, sPrimaryID := [], sReason := ''multiple_primaries_observed'',
     sMembers := map (\<lambda>m. m\<lparr>mReady := False\<rparr>) (sMembers snapshot)\<rparr>"

text \<open>\<open>publishObservation\<close>; the outer \<open>None\<close> is a panic. The flag is the function's result.\<close>

definition publishObservation ::
  "'d oenv \<Rightarrow> nat \<Rightarrow> clusterKey \<Rightarrow> gomap \<Rightarrow> pod list \<Rightarrow> statusResult list \<Rightarrow> Parameters \<Rightarrow> connectionInfo \<Rightarrow> time
     \<Rightarrow> 'd observer \<Rightarrow> (bool \<times> 'd observer) option" where
  "publishObservation E ctx key observed probedPods results params connection started s =
     (case cluster key s of
        None \<Rightarrow> Some (True, drop_cluster key s)
      | Some latest \<Rightarrow>
          (if \<not> fst (parameters (api E) latest) \<or> GetDeletionTimestamp (api E) latest \<noteq> None
           then Some (True, drop_cluster key s)
           else
             let latestPods = pods E latest s in
               case (if GetUID (api E) observed = GetUID (api E) latest
                     then conflictingPrimary (api E) observed latest probedPods latestPods results (oPrimaries s)
                     else Some (False, oPrimaries s)) of
                 None \<Rightarrow> None
               | Some (conflict, primaries) \<Rightarrow>
                   (let s = s\<lparr>oPrimaries := primaries\<rparr> in
                      if ctx_done ctx s \<or> \<not> Ready s then Some (False, s)
                      else if \<not> sameClusterRoute (api E) observed latest then
                        Some (False, commit_unavailable E latest ''topology_changed_during_observation'' (notify_key E key s))
                      else if \<not> currentCA (ciCA connection) s then
                        Some (False, commit_unavailable E latest ''connection_defaults_changed'' (notify_key E key s))
                      else
                        case matchInstanceResults probedPods latestPods results of
                          None \<Rightarrow> None
                        | Some mapped \<Rightarrow>
                            (case buildSnapshot (api E) latest latestPods mapped params started (optTTL (opts E)) of
                               None \<Rightarrow> None
                             | Some snapshot \<Rightarrow>
                                 (let snapshot = (if conflict then withdraw_conflict snapshot else snapshot);
                                      snapshot = snapshot\<lparr>sConnection := ciParameters connection\<rparr>
                                  in Some (sAvailable snapshot, commitPublication E snapshot s))))))"

end
