(* ===== verification/Observer_Effects.thy ===== *)
theory Observer_Effects
  imports Observer
begin

text \<open>
  What the observer's handlers do to the store: each is a sequence of store commits, and the
  snapshots it puts are of one of three kinds: withdrawn, the stored one with a member withdrawn, or built from
  an observation. The contract is stated once and proved per handler; the properties of the next
  theory rest on it.
\<close>

section \<open>Sequences of commits\<close>

text \<open>
  \<open>commits H ok st ns st'\<close>: store operations lead from \<open>st\<close> to \<open>st'\<close> and leave the notifications \<open>ns\<close>;
  every snapshot put satisfies \<open>ok\<close> in the store it is put into.
\<close>

inductive commits :: "(v1_Snapshot \<Rightarrow> 'd) \<Rightarrow> ('d store \<Rightarrow> v1_Snapshot \<Rightarrow> bool) \<Rightarrow>
    'd store \<Rightarrow> notification list \<Rightarrow> 'd store \<Rightarrow> bool" for H ok where
  nothing: "commits H ok st [] st"
| put: "commits H ok st ns st1 \<Longrightarrow> ok st1 snap \<Longrightarrow> PutDeferred H now1 now2 snap st1 = (changed, n, st2) \<Longrightarrow>
    commits H ok st (ns @ [n]) st2"
| delete: "commits H ok st ns st1 \<Longrightarrow> DeleteDeferred key st1 = (n, st2) \<Longrightarrow> commits H ok st (ns @ [n]) st2"
| read: "commits H ok st ns st1 \<Longrightarrow> readPublication H now key st1 = (p, n, st2) \<Longrightarrow> commits H ok st (ns @ [n]) st2"
| demand: "commits H ok st ns st1 \<Longrightarrow> hasDemand key now st1 = (b, st2) \<Longrightarrow> commits H ok st ns st2"

lemma commits_trans: "commits H ok st1 ms st2 \<Longrightarrow> commits H ok st0 ns st1 \<Longrightarrow> commits H ok st0 (ns @ ms) st2"
proof (induction rule: commits.induct)
  case (put st1 ms st2 snap now1 now2 changed n st3)
  then show ?case using commits.put [of H ok st0 "ns @ ms" st2] by simp
next
  case (delete st1 ms st2 key n st3)
  then show ?case using commits.delete [of H ok st0 "ns @ ms" st2] by simp
next
  case (read st1 ms st2 now key p n st3)
  then show ?case using commits.read [of H ok st0 "ns @ ms" st2] by simp
next
  case (demand st1 ms st2 key now b st3)
  then show ?case using commits.demand [of H ok st0 "ns @ ms" st2] by simp
qed simp

lemma commits_mono: "commits H ok st ns st' \<Longrightarrow> (\<And>st snap. ok st snap \<Longrightarrow> ok' st snap) \<Longrightarrow> commits H ok' st ns st'"
  by (induction rule: commits.induct) (blast intro: commits.intros)+

lemma commits_inv: "commits H ok st ns st' \<Longrightarrow> store_inv H st \<Longrightarrow> store_inv H st'"
proof (induction rule: commits.induct)
  case (demand st ns st1 key now b st2)
  then show ?case using hasDemand_inv [of H st1 key now] by simp
qed (auto dest: PutDeferred_inv DeleteDeferred_inv readPublication_inv)

section \<open>The effect of a handler\<close>

definition effect :: "'d oenv \<Rightarrow> ('d store \<Rightarrow> v1_Snapshot \<Rightarrow> bool) \<Rightarrow> 'd observer \<Rightarrow> 'd observer \<Rightarrow> bool" where
  "effect E ok s t \<longleftrightarrow> (\<exists>ns. oOut t = oOut s @ ns \<and> commits (digest E) ok (oStore s) ns (oStore t))"

lemma effect_same: "oStore t = oStore s \<Longrightarrow> oOut t = oOut s \<Longrightarrow> effect E ok s t"
  by (simp add: effect_def commits.nothing)

lemma effect_refl [simp, intro]: "effect E ok s s"
  by (rule effect_same) simp_all

lemma effect_trans: "effect E ok s t \<Longrightarrow> effect E ok t u \<Longrightarrow> effect E ok s u"
  unfolding effect_def using commits_trans by fastforce

lemma effect_mono: "effect E ok s t \<Longrightarrow> (\<And>st snap. ok st snap \<Longrightarrow> ok' st snap) \<Longrightarrow> effect E ok' s t"
  unfolding effect_def using commits_mono by blast

lemma effect_inv: "effect E ok s t \<Longrightarrow> store_inv (digest E) (oStore s) \<Longrightarrow> store_inv (digest E) (oStore t)"
  unfolding effect_def using commits_inv by blast

text \<open>The functions that leave store and output alone.\<close>

lemma quiet_frame [frame_simps]:
  "oStore (snd (Now E s)) = oStore s" "oOut (snd (Now E s)) = oOut s"
  "oStore (cancelObservationLocked key s) = oStore s" "oOut (cancelObservationLocked key s) = oOut s"
  "oStore (forget_evidence key s) = oStore s" "oOut (forget_evidence key s) = oOut s"
  "oStore (forget_demand key s) = oStore s" "oOut (forget_demand key s) = oOut s"
  "oStore (queue_Add key s) = oStore s" "oOut (queue_Add key s) = oOut s"
  "oStore (count_ca i j k s) = oStore s" "oOut (count_ca i j k s) = oOut s"
  "oStore (snd (beginObservation key s)) = oStore s" "oOut (snd (beginObservation key s)) = oOut s"
  "oStore (finish_observation key s) = oStore s" "oOut (finish_observation key s) = oOut s"
  "oStore (snd (cachedConnection E b c s)) = oStore s" "oOut (snd (cachedConnection E b c s)) = oOut s"
  by (simp_all add: Now_def cancelObservationLocked_def forget_evidence_def forget_demand_def queue_Add_def count_ca_def
      beginObservation_def finish_observation_def cachedConnection_def Let_def split: option.splits prod.splits)

lemma effect_HasDemand: "effect E ok s (snd (store_HasDemand E key s))"
proof -
  obtain b st where h: "hasDemand key (clock E (oReads s)) (oStore s) = (b, st)" by fastforce
  have "commits (digest E) ok (oStore s) [] st" by (rule commits.demand [OF commits.nothing h])
  then show ?thesis using h by (auto simp: effect_def store_HasDemand_def Now_def HasDemand_def)
qed

lemma effect_Put:
  assumes "ok (oStore s) snap"
  shows "effect E ok s (commitPublication E snap s)"
proof -
  obtain changed n st where p: "PutDeferred (digest E) (clock E (oReads s)) (clock E (Suc (oReads s))) snap (oStore s) = (changed, n, st)"
    by (metis prod_cases3)
  have "commits (digest E) ok (oStore s) ([] @ [n]) st"
    by (rule commits.put [of _ _ _ _ "oStore s" snap]) (rule commits.nothing, rule assms, rule p)
  then show ?thesis using p by (simp add: effect_def commitPublication_def store_PutDeferred_def Now_def)
qed

lemma effect_Delete: "effect E ok s (store_DeleteDeferred key s)"
proof -
  obtain n st where d: "DeleteDeferred key (oStore s) = (n, st)" by fastforce
  have "commits (digest E) ok (oStore s) ([] @ [n]) st" by (rule commits.delete [OF commits.nothing d])
  then show ?thesis using d by (simp add: effect_def store_DeleteDeferred_def)
qed

lemma effect_Get: "effect E ok s (snd (store_GetDeferred E key s))"
proof -
  obtain p n st where r: "readPublication (digest E) (clock E (oReads s)) key (oStore s) = (p, n, st)" by (metis prod_cases3)
  have "commits (digest E) ok (oStore s) ([] @ [n]) st" by (rule commits.read [OF commits.nothing r])
  then show ?thesis using r by (simp add: effect_def store_GetDeferred_def Now_def GetDeferred_def)
qed

text \<open>Composition with a function that leaves store and output alone on the left.\<close>

lemma effect_pre: "oStore s' = oStore s \<Longrightarrow> oOut s' = oOut s \<Longrightarrow> effect E ok s' t \<Longrightarrow> effect E ok s t"
  by (simp add: effect_def)

lemma effect_post: "effect E ok s t' \<Longrightarrow> oStore t = oStore t' \<Longrightarrow> oOut t = oOut t' \<Longrightarrow> effect E ok s t"
  by (simp add: effect_def)

lemma effect_fold: "(\<And>x s. x \<in> set xs \<Longrightarrow> effect E ok s (f x s)) \<Longrightarrow> effect E ok s (fold f xs s)"
proof (induction xs arbitrary: s)
  case (Cons x xs)
  have "effect E ok s (f x s)" using Cons.prems by simp
  moreover have "effect E ok (f x s) (fold f xs (f x s))" using Cons.IH Cons.prems by simp
  ultimately show ?case using effect_trans by simp
qed simp

lemma effect_enqueue: "effect E ok s (enqueue E ns name u s)"
proof -
  let ?h = "store_HasDemand E (ClusterKey ns name) s"
  have "oStore (enqueue E ns name u s) = oStore s \<and> oOut (enqueue E ns name u s) = oOut s \<or>
      oStore (enqueue E ns name u s) = oStore (snd ?h) \<and> oOut (enqueue E ns name u s) = oOut (snd ?h)"
    by (auto simp: enqueue_def Let_def case_prod_beta frame_simps split: option.splits)
  then show ?thesis using effect_same effect_post [OF effect_HasDemand] by metis
qed

lemma effect_notify: "effect E ok s (notify_key E key s)"
  by (simp add: notify_key_def Notify_def effect_enqueue)

text \<open>The kinds of snapshots the handlers put.\<close>

definition event_ok :: "'d store \<Rightarrow> v1_Snapshot \<Rightarrow> bool" where
  "event_ok st snap \<longleftrightarrow> withdrawn snap \<or>
     (\<exists>key r uid. records st key = Some r \<and> snap = withdraw_member uid (pSnapshot (rPublication r)))"

definition publish_ok :: "'d oenv \<Rightarrow> 'd store \<Rightarrow> v1_Snapshot \<Rightarrow> bool" where
  "publish_ok E st snap \<longleftrightarrow> event_ok st snap \<or>
     (\<exists>c ps results params at conn b. buildSnapshot (api E) c ps results params at (optTTL (opts E)) = Some b \<and>
        snap = b\<lparr>sConnection := conn\<rparr>)"

lemma unavailable_withdrawn [simp]: "withdrawn (unavailable K c at ttl reason)"
  by (simp add: withdrawn_def unavailable_def zero_Snapshot_def)

lemma effect_commit_unavailable: "effect E event_ok s (commit_unavailable E c reason s)"
proof -
  have "effect E event_ok (snd (Now E s)) (commitPublication E (unavailable (api E) c (fst (Now E s)) (optTTL (opts E)) reason) (snd (Now E s)))"
    by (rule effect_Put) (simp add: event_ok_def)
  then show ?thesis unfolding commit_unavailable_def case_prod_beta Let_def
    by (rule effect_pre [rotated 2]) (simp_all add: frame_simps)
qed

lemma effect_commit_after:
  "effect E event_ok s t \<Longrightarrow> effect E event_ok s (commit_unavailable E c reason t)"
  by (rule effect_trans [OF _ effect_commit_unavailable])

lemma effect_notify_after: "effect E ok s t \<Longrightarrow> effect E ok s (notify_key E key t)"
  by (rule effect_trans [OF _ effect_notify])

lemma effect_delete_after: "effect E ok s t \<Longrightarrow> effect E ok s (store_DeleteDeferred key t)"
  by (rule effect_trans [OF _ effect_Delete])

lemma effect_demand_after: "effect E ok s t \<Longrightarrow> effect E ok s (snd (store_HasDemand E key t))"
  by (rule effect_trans [OF _ effect_HasDemand])

lemma effect_quiet_after:
  "effect E ok s t \<Longrightarrow> effect E ok s (cancelObservationLocked key t)"
  "effect E ok s t \<Longrightarrow> effect E ok s (forget_evidence key t)"
  "effect E ok s t \<Longrightarrow> effect E ok s (forget_demand key t)"
  by (auto elim!: effect_post simp: frame_simps)

lemmas effect_intros = effect_refl effect_commit_after effect_notify_after effect_delete_after effect_demand_after effect_quiet_after

section \<open>Handler by handler\<close>

lemma effect_clusterEvent: "effect E event_ok s (clusterEvent E oldObj newObj s)"
proof (cases "cachedCluster newObj")
  case (Some c)
  define key where "key = cluster_key E c"
  define s1 where "s1 = (case ClusterIdentity key (oStore s) of
       Some previous \<Rightarrow> if rUID previous \<noteq> GetUID (api E) c then
           commit_unavailable E c ''awaiting_observation'' (forget_demand key (forget_evidence key (cancelObservationLocked key s)))
         else s
     | None \<Rightarrow> commit_unavailable E c ''awaiting_observation'' (forget_demand key (forget_evidence key (cancelObservationLocked key s))))"
  define s2 where "s2 = (if cachedCluster oldObj \<noteq> None then commit_unavailable E c ''topology_changed'' (cancelObservationLocked key s1) else s1)"
  have 1: "effect E event_ok s s1" unfolding s1_def by (auto split: option.splits intro!: effect_intros)
  then have 2: "effect E event_ok s s2" unfolding s2_def by (auto intro: effect_intros)
  have 3: "effect E event_ok s (snd (store_HasDemand E key s2))" by (rule effect_demand_after [OF 2])
  have 4: "effect E event_ok s (notify_key E key (snd (store_HasDemand E key s2)))" by (rule effect_notify_after [OF 3])
  have 0: "effect E event_ok s (store_DeleteDeferred key (forget_demand key (forget_evidence key (cancelObservationLocked key s))))"
    by (intro effect_intros)
  show ?thesis
    unfolding clusterEvent_def Some option.simps Let_def case_prod_beta key_def [symmetric] s1_def [symmetric] s2_def [symmetric]
    using 0 1 3 4 by simp
qed (simp add: clusterEvent_def)

lemma effect_clusterDeleted: "effect E event_ok s (clusterDeleted E obj s)"
  by (auto simp: clusterDeleted_def Let_def split: option.splits intro!: effect_intros)

lemma store_GetDeferred_Some:
  assumes "store_GetDeferred E key s = (Some snap, t)"
  shows "\<exists>r. records (oStore t) key = Some r \<and> pSnapshot (rPublication r) = snap"
  using assms
  by (auto simp: store_GetDeferred_def Now_def GetDeferred_def readPublication_def expireRecord_eq clone_def
      split: prod.splits option.splits if_splits)

lemma effect_pod_event_key: "effect E event_ok s (pod_event_key E old new key s)"
proof -
  have get: "effect E event_ok s (case store_GetDeferred E key s of
         (None, s) \<Rightarrow> s
       | (Some snapshot, s) \<Rightarrow> if rUID (sCluster snapshot) = u
           then commitPublication E (withdraw_member w snapshot) s else s)" for u w
  proof -
    obtain o' t where g: "store_GetDeferred E key s = (o', t)" by fastforce
    have e: "effect E event_ok s t" using effect_Get [of E event_ok s key] g by simp
    show ?thesis
    proof (cases o')
      case (Some snap)
      from store_GetDeferred_Some [OF g [unfolded Some]] have "event_ok (oStore t) (withdraw_member w snap)"
        by (auto simp: event_ok_def)
      with effect_trans [OF e effect_Put] show ?thesis using g Some e by simp
    qed (use g e in simp)
  qed
  show ?thesis unfolding pod_event_key_def
    by (rule effect_notify_after) (auto split: option.splits intro!: effect_intros get)
qed

lemma effect_podEvent: "effect E event_ok s (podEvent E swap oldObj newObj s)"
  by (auto simp: podEvent_def Let_def split: option.splits intro!: effect_fold effect_pod_event_key)

lemma effect_secret_event_cluster: "effect E event_ok s (secret_event_cluster E c s)"
proof -
  let ?s = "cancelObservationLocked (cluster_key E c) s"
  have "effect E event_ok ?s (snd (store_GetDeferred E (cluster_key E c) ?s))" by (rule effect_Get)
  then have "effect E event_ok s (snd (store_GetDeferred E (cluster_key E c) ?s))"
    by (rule effect_pre [rotated 2]) (simp_all add: frame_simps)
  then show ?thesis unfolding secret_event_cluster_def Let_def case_prod_beta
    by (auto split: option.splits intro!: effect_notify_after effect_commit_after)
qed

lemma effect_secretEvent: "effect E event_ok s (secretEvent E obj s)"
proof -
  have "effect E event_ok s (fold (secret_event_cluster E) cs t)" if "oStore t = oStore s" "oOut t = oOut s" for cs t
    by (rule effect_pre [OF that]) (intro effect_fold effect_secret_event_cluster)
  then show ?thesis
    by (auto simp: secretEvent_def Let_def split: option.splits kobj.splits)
qed

lemma effect_demandedCAClusters: "effect E ok s (snd (demandedCAClusters E key s))"
proof -
  have "effect E ok s (snd (fold (demanded_step E) cs (acc, t)))" if "effect E ok s t" for cs acc t
    using that
  proof (induction cs arbitrary: acc t)
    case (Cons c cs)
    have "effect E ok s (snd (store_HasDemand E (cluster_key E c) t))" by (rule effect_demand_after [OF Cons.prems])
    from Cons.IH [OF this] show ?case by (simp add: demanded_step_def case_prod_beta)
  qed simp
  then show ?thesis by (simp add: demandedCAClusters_def)
qed

lemma effect_fetch_begin: "effect E ok s (snd (fetch_begin E key s))"
proof -
  have "oStore (snd (fetch_begin E key s)) = oStore s \<and> oOut (snd (fetch_begin E key s)) = oOut s \<or>
    oStore (snd (fetch_begin E key s)) = oStore (snd (demandedCAClusters E key s)) \<and>
    oOut (snd (fetch_begin E key s)) = oOut (snd (demandedCAClusters E key s))"
    by (auto simp: fetch_begin_def split: option.splits prod.splits)
  then show ?thesis using effect_same effect_post [OF effect_demandedCAClusters] by metis
qed

lemma effect_fetch_commit: "effect E ok s (snd (fetch_commit E key ctx meta timedOut rd s))"
proof -
  let ?s = "s\<lparr>oCAReads := (oCAReads s)(key := None)\<rparr>"
  obtain cs u where d: "demandedCAClusters E key ?s = (cs, u)" by fastforce
  have u: "effect E ok s u" using effect_pre [OF _ _ effect_demandedCAClusters, of ?s s E ok key] d by simp
  have r: "effect E ok s t" if "oStore t = oStore u" "oOut t = oOut u" for t by (rule effect_post [OF u that])
  have f: "effect E ok s (fold (\<lambda>c. notify_key E (cluster_key E c)) cs t)" if "oStore t = oStore u" "oOut t = oOut u" for t
    by (rule effect_trans [OF r [OF that]]) (intro effect_fold effect_notify)
  have "oStore (snd (fetch_commit E key ctx meta timedOut rd s)) = oStore s \<and> oOut (snd (fetch_commit E key ctx meta timedOut rd s)) = oOut s \<or>
      oStore (snd (fetch_commit E key ctx meta timedOut rd s)) = oStore u \<and> oOut (snd (fetch_commit E key ctx meta timedOut rd s)) = oOut u \<or>
      (\<exists>t. snd (fetch_commit E key ctx meta timedOut rd s) = fold (\<lambda>c. notify_key E (cluster_key E c)) cs t \<and>
         oStore t = oStore u \<and> oOut t = oOut u)"
    unfolding fetch_commit_def Let_def d
    by (auto simp: frame_simps split: option.splits)
  then show ?thesis using effect_same r f by metis
qed

lemma effect_drop_cluster: "effect E ok s (drop_cluster key s)"
  unfolding drop_cluster_def by (intro effect_intros)

lemma effect_observe_begin: "effect E ok s (snd (observe_begin E key s))"
  by (auto simp: observe_begin_def split: option.splits prod.splits sum.splits intro: effect_drop_cluster)

lemma effect_publishFailure: "effect E event_ok s (publishFailure E ctx key reason s)"
proof -
  have "effect E event_ok s (commitPublication E ((unavailable (api E) c n ttl reason)\<lparr>sTransitioning := b\<rparr>) (snd (Now E s)))" for c n ttl b
  proof (rule effect_pre)
    show "effect E event_ok (snd (Now E s))
        (commitPublication E ((unavailable (api E) c n ttl reason)\<lparr>sTransitioning := b\<rparr>) (snd (Now E s)))"
      by (rule effect_Put) (simp add: event_ok_def withdrawn_def unavailable_def zero_Snapshot_def)
  qed (simp_all add: frame_simps)
  then show ?thesis
    by (auto simp: publishFailure_def Let_def case_prod_beta split: option.splits intro: effect_Delete)
qed

lemma event_publish_ok: "event_ok st snap \<Longrightarrow> publish_ok E st snap"
  by (simp add: publish_ok_def)

lemma withdraw_conflict_withdrawn: "withdrawn (withdraw_conflict snap)"
  by (simp add: withdraw_conflict_def withdrawn_def)

lemma effect_publishObservation:
  assumes "publishObservation E ctx key observed probed results params conn started s = Some (b, t)"
  shows "effect E (publish_ok E) s t"
proof -
  have un: "effect E (publish_ok E) s (commit_unavailable E c reason (notify_key E key u))"
    if "oStore u = oStore s" "oOut u = oOut s" for c reason u
    by (rule effect_mono [OF _ event_publish_ok], rule effect_commit_after, rule effect_notify_after)
      (rule effect_same [OF that])
  have pub: "effect E (publish_ok E) s (commitPublication E snap u)"
    if "oStore u = oStore s" "oOut u = oOut s" "publish_ok E (oStore s) snap" for snap u
    by (rule effect_pre [OF that(1,2) effect_Put]) (use that in simp)
  have same: "effect E (publish_ok E) s (s\<lparr>oPrimaries := P\<rparr>)" for P by (simp add: effect_same)
  have conflict: "publish_ok E (oStore s) ((withdraw_conflict b)\<lparr>sConnection := ci\<rparr>)" for b ci
    using withdraw_conflict_withdrawn [of b] by (auto simp: publish_ok_def event_ok_def withdrawn_def)
  have built: "publish_ok E (oStore s) (b\<lparr>sConnection := ci\<rparr>)"
    if "buildSnapshot (api E) c ps rs pa at (optTTL (opts E)) = Some b" for b ci c ps rs pa at
    unfolding publish_ok_def using that by (intro disjI2 exI conjI) (assumption, simp)
  from assms show ?thesis
    unfolding publishObservation_def Let_def
    by (auto split: option.splits if_splits prod.splits intro!: un pub conflict built effect_drop_cluster same)
qed

end
