(* ===== verification/Observer_System.thy ===== *)
theory Observer_System
  imports Observer_Effects
begin

text \<open>
  The observer and the store together. The store is shared: the observer's handlers commit to it, and
  gRPC clients read, watch and request refreshes from it, in any interleaving. Informer caches, watch
  health and every other field of the observer may change at any time.
\<close>

section \<open>The composed system\<close>

datatype obs_op =
    ClusterEventOp "kobj option" "kobj option" | ClusterDeletedOp "kobj option" | PodEventOp bool "kobj option" "kobj option"
  | SecretEventOp "kobj option" | EnqueueOp string string bool | BeginOp clusterKey | FinishOp clusterKey
  | ObserveOp clusterKey | ConnectOp bool gomap | FailOp nat clusterKey string
  | PublishOp nat clusterKey gomap "pod list" "statusResult list" Parameters connectionInfo time
  | FetchBeginOp clusterKey | FetchCommitOp clusterKey nat secretMeta bool "cachedCA option"

fun obs_run :: "'d oenv \<Rightarrow> obs_op \<Rightarrow> 'd observer \<Rightarrow> 'd observer option" where
  "obs_run E (ClusterEventOp a b) s = Some (clusterEvent E a b s)"
| "obs_run E (ClusterDeletedOp a) s = Some (clusterDeleted E a s)"
| "obs_run E (PodEventOp swap a b) s = Some (podEvent E swap a b s)"
| "obs_run E (SecretEventOp a) s = Some (secretEvent E a s)"
| "obs_run E (EnqueueOp ns name u) s = Some (enqueue E ns name u s)"
| "obs_run E (BeginOp key) s = Some (snd (beginObservation key s))"
| "obs_run E (FinishOp key) s = Some (finish_observation key s)"
| "obs_run E (ObserveOp key) s = Some (snd (observe_begin E key s))"
| "obs_run E (ConnectOp err c) s = Some (snd (cachedConnection E err c s))"
| "obs_run E (FailOp ctx key reason) s = Some (publishFailure E ctx key reason s)"
| "obs_run E (PublishOp ctx key c ps rs pa ci at) s = map_option snd (publishObservation E ctx key c ps rs pa ci at s)"
| "obs_run E (FetchBeginOp key) s = Some (snd (fetch_begin E key s))"
| "obs_run E (FetchCommitOp key ctx meta late rd) s = Some (snd (fetch_commit E key ctx meta late rd s))"

text \<open>A step of the store that publishes nothing but withdrawals.\<close>

definition no_new_route :: "'d store \<Rightarrow> 'd store \<Rightarrow> bool" where
  "no_new_route st st' \<longleftrightarrow> (\<forall>key r'. records st' key = Some r' \<longrightarrow>
     withdrawn (pSnapshot (rPublication r')) \<or> records st key = Some r')"

text \<open>The observer's view of the store, with no deliveries of its own outstanding.\<close>

definition attach :: "'d observer \<Rightarrow> 'd sys \<Rightarrow> 'd observer" where
  "attach s y = s\<lparr>oStore := sysStore y, oOut := []\<rparr>"

inductive obs_step :: "'d oenv \<Rightarrow> 'd observer \<times> 'd sys \<Rightarrow> 'd observer \<times> 'd sys \<Rightarrow> bool" for E where
  handler: "obs_run E x (attach s y) = Some t \<Longrightarrow> obs_step E (s, y) (t, commit (oOut t) (oStore t) y)"
| client: "sys_step (digest E) y y' \<Longrightarrow> no_new_route (sysStore y) (sysStore y') \<Longrightarrow> obs_step E (s, y) (s, y')"
| environment: "obs_step E (s, y) (s', y)"

inductive obs_reach :: "'d oenv \<Rightarrow> 'd observer \<times> 'd sys \<Rightarrow> bool" for E where
  start: "NewStore rand = Some st \<Longrightarrow> obs_reach E (s, init_sys st)"
| step: "obs_reach E \<sigma> \<Longrightarrow> obs_step E \<sigma> \<sigma>' \<Longrightarrow> obs_reach E \<sigma>'"

lemma obs_run_effect: "obs_run E x s = Some t \<Longrightarrow> effect E (publish_ok E) s t"
proof (cases x)
  case (PublishOp ctx key c ps rs pa ci at)
  assume "obs_run E x s = Some t"
  with PublishOp show ?thesis using effect_publishObservation by fastforce
qed (auto intro: effect_mono [OF effect_clusterEvent event_publish_ok] effect_mono [OF effect_clusterDeleted event_publish_ok]
       effect_mono [OF effect_podEvent event_publish_ok] effect_mono [OF effect_secretEvent event_publish_ok]
       effect_mono [OF effect_publishFailure event_publish_ok] effect_enqueue effect_observe_begin effect_fetch_begin effect_fetch_commit
       effect_same simp: frame_simps)

section \<open>The observer is a client of the store\<close>

lemma commits_reach:
  "commits H ok st ns st' \<Longrightarrow> st = sysStore y \<Longrightarrow> sys_reach H y \<Longrightarrow> sys_reach H (commit ns st' y)"
proof (induction rule: commits.induct)
  case (nothing st)
  have "commit [] st y = y" using nothing.prems(1) by (simp add: commit_def)
  then show ?case using nothing.prems(2) by simp
next
  case (put st ns st1 snap now1 now2 changed n st2)
  have "sys_step H (commit ns st1 y) (commit [n] st2 (commit ns st1 y))"
    by (rule sys_step.put) (use put.hyps(3) in simp)
  then have "sys_reach H (commit [n] st2 (commit ns st1 y))" using put sys_reach.step by blast
  then show ?case by (simp add: commit_def)
next
  case (delete st ns st1 key n st2)
  have "sys_step H (commit ns st1 y) (commit [n] st2 (commit ns st1 y))"
    by (rule sys_step.delete) (use delete.hyps(2) in simp)
  then have "sys_reach H (commit [n] st2 (commit ns st1 y))" using delete sys_reach.step by blast
  then show ?case by (simp add: commit_def)
next
  case (read st ns st1 now key p n st2)
  have "sys_step H (commit ns st1 y) (commit [n] st2 (commit ns st1 y))"
    by (rule sys_step.read) (use read.hyps(2) in simp)
  then have "sys_reach H (commit [n] st2 (commit ns st1 y))" using read sys_reach.step by blast
  then show ?case by (simp add: commit_def)
next
  case (demand st ns st1 key now b st2)
  have "sys_step H (commit ns st1 y) (commit [] st2 (commit ns st1 y))"
    by (rule sys_step.demand) (use demand.hyps(2) in simp)
  then have "sys_reach H (commit [] st2 (commit ns st1 y))" using demand sys_reach.step by blast
  then show ?case by (simp add: commit_def)
qed

lemma obs_reach_sys: "obs_reach E \<sigma> \<Longrightarrow> sys_reach (digest E) (snd \<sigma>)"
proof (induction rule: obs_reach.induct)
  case (start rand st s)
  then show ?case by (simp add: sys_reach.start)
next
  case (step \<sigma> \<sigma>')
  obtain s y where s: "\<sigma> = (s, y)" by fastforce
  from step.hyps(2) show ?case
  proof (cases rule: obs_step.cases)
    case (handler x s1 y1 t)
    then have y1: "y1 = y" using s by simp
    from obs_run_effect [OF handler(3)] have "commits (digest E) (publish_ok E) (sysStore y) (oOut t) (oStore t)"
      by (simp add: effect_def attach_def y1)
    then show ?thesis using commits_reach [OF _ refl] step.IH s handler(2) y1 by simp
  next
    case (client y1 y' s1)
    then show ?thesis using step.IH s sys_reach.step by auto
  next
    case (environment s1 y1 s')
    then show ?thesis using step.IH s by simp
  qed
qed

section \<open>Routes come from verified observations\<close>

text \<open>A snapshot that offers at most what another one offers.\<close>

definition member_below :: "v1_Member \<Rightarrow> v1_Member \<Rightarrow> bool" where
  "member_below m b \<longleftrightarrow> mID m = mID b \<and> mName m = mName b \<and> mRole m = mRole b \<and> mSyncState m = mSyncState b \<and>
     mEndpoints m = mEndpoints b \<and> (mReady m \<longrightarrow> mReady b)"

definition snapshot_below :: "v1_Snapshot \<Rightarrow> v1_Snapshot \<Rightarrow> bool" where
  "snapshot_below s b \<longleftrightarrow> sCluster s = sCluster b \<and> sPrimaryID s = sPrimaryID b \<and> sAvailable s = sAvailable b \<and>
     sObservedAt s = sObservedAt b \<and> sValidUntil s = sValidUntil b \<and> list_all2 member_below (sMembers s) (sMembers b)"

definition justified :: "'d oenv \<Rightarrow> v1_Snapshot \<Rightarrow> bool" where
  "justified E s \<longleftrightarrow> withdrawn s \<or>
     (\<exists>c ps results params at b. buildSnapshot (api E) c ps results params at (optTTL (opts E)) = Some b \<and>
        sAvailable b \<and> snapshot_below s b)"

definition store_justified :: "'d oenv \<Rightarrow> 'd store \<Rightarrow> bool" where
  "store_justified E st \<longleftrightarrow> (\<forall>key r. records st key = Some r \<longrightarrow> justified E (pSnapshot (rPublication r)))"

lemma member_below_refl [simp]: "member_below m m" by (simp add: member_below_def)

lemma snapshot_below_refl [simp]: "snapshot_below s s"
  by (simp add: snapshot_below_def list_all2_refl)

lemma snapshot_below_withdraw: "snapshot_below s b \<Longrightarrow> snapshot_below (withdraw_member uid s) b"
  by (auto simp: snapshot_below_def withdraw_member_def list_all2_conv_all_nth member_below_def)

lemma withdrawn_withdraw: "withdrawn s \<Longrightarrow> withdrawn (withdraw_member uid s)"
  by (auto simp: withdrawn_def withdraw_member_def)

lemma snapshot_below_frame [simp]:
  "snapshot_below (s\<lparr>sRevision := r\<rparr>) b = snapshot_below s b" "snapshot_below (s\<lparr>sAPIVersion := a\<rparr>) b = snapshot_below s b"
  "snapshot_below (s\<lparr>sConnection := c\<rparr>) b = snapshot_below s b"
  by (simp_all add: snapshot_below_def)

lemma justified_withdraw: "justified E s \<Longrightarrow> justified E (withdraw_member uid s)"
  using withdrawn_withdraw snapshot_below_withdraw unfolding justified_def by blast

lemma justified_frame [simp]:
  "justified E (s\<lparr>sRevision := r\<rparr>) = justified E s" "justified E (s\<lparr>sAPIVersion := a\<rparr>) = justified E s"
  by (simp_all add: justified_def withdrawn_def)

lemma justified_built:
  assumes "buildSnapshot (api E) c ps results params at (optTTL (opts E)) = Some b"
  shows "justified E (b\<lparr>sConnection := conn\<rparr>)"
proof (cases "sAvailable b")
  case True
  then show ?thesis unfolding justified_def using assms
    by (intro disjI2 exI [of _ c] exI [of _ ps] exI [of _ results] exI [of _ params] exI [of _ at] exI [of _ b]) simp
next
  case False
  from assms have "withdrawn b"
    by (cases rule: buildSnapshot_cases)
      (use False in \<open>auto simp: withdrawn_def unavailable_def zero_Snapshot_def initial_members_def\<close>)
  then show ?thesis by (simp add: justified_def withdrawn_def)
qed

lemma publish_ok_justified: "store_justified E st \<Longrightarrow> publish_ok E st snap \<Longrightarrow> justified E snap"
  unfolding publish_ok_def event_ok_def
  by (auto simp: store_justified_def intro: justified_built justified_withdraw) (simp add: justified_def)

lemma put_justified:
  assumes "store_justified E st" and "justified E snap" and "PutDeferred H now1 now2 snap st = (changed, n, st')"
  shows "store_justified E st'"
proof -
  have "justified E (put_snapshot now1 now2 snap)"
    using assms(2) put_snapshot_expired [of now1 now2 snap]
    by (cases "put_expired now1 now2 snap") (auto simp: justified_def put_snapshot_def withdrawn_def)
  then have "justified E (pSnapshot (rPublication (put_record H now1 now2 snap st)))"
    by (simp add: put_record_def)
  with assms(1,3) show ?thesis by (auto simp: PutDeferred_eq store_justified_def split: if_split_asm)
qed

lemma no_new_route_justified: "store_justified E st \<Longrightarrow> no_new_route st st' \<Longrightarrow> store_justified E st'"
  by (auto simp: store_justified_def no_new_route_def justified_def)

lemma read_no_new_route: "readPublication H now key st = (p, n, st') \<Longrightarrow> no_new_route st st'"
  by (auto simp: no_new_route_def readPublication_def expireRecord_eq expired_record_def split: option.splits if_splits)

lemma commits_justified:
  "commits (digest E) (publish_ok E) st ns st' \<Longrightarrow> store_justified E st \<Longrightarrow> store_justified E st'"
proof (induction rule: commits.induct)
  case (put st ns st1 snap now1 now2 changed n st2)
  then show ?case using put_justified publish_ok_justified by blast
next
  case (delete st ns st1 key n st2)
  then show ?case by (auto simp: store_justified_def DeleteDeferred_eq split: option.splits if_splits)
next
  case (read st ns st1 now key p n st2)
  then show ?case using read_no_new_route no_new_route_justified by blast
next
  case (demand st ns st1 key now b st2)
  then have "records st2 = records st1" using hasDemand_frame by (metis snd_conv)
  then show ?case using demand by (simp add: store_justified_def)
qed simp

lemma obs_reach_justified: "obs_reach E \<sigma> \<Longrightarrow> store_justified E (sysStore (snd \<sigma>))"
proof (induction rule: obs_reach.induct)
  case (start rand st s)
  then show ?case by (auto simp: store_justified_def init_sys_def NewStore_def)
next
  case (step \<sigma> \<sigma>')
  obtain s y where s: "\<sigma> = (s, y)" by fastforce
  from step.hyps(2) show ?case
  proof (cases rule: obs_step.cases)
    case (handler x s1 y1 t)
    then have y1: "y1 = y" using s by simp
    from obs_run_effect [OF handler(3)] have "commits (digest E) (publish_ok E) (sysStore y) (oOut t) (oStore t)"
      by (simp add: effect_def attach_def y1)
    then show ?thesis using commits_justified step.IH s handler(2) y1 by simp
  next
    case (client y1 y' s1)
    then show ?thesis using step.IH s no_new_route_justified by auto
  next
    case (environment s1 y1 s')
    then show ?thesis using step.IH s by simp
  qed
qed

lemma client_no_new_route:
  "readPublication H now key st = (p, n, st') \<Longrightarrow> no_new_route st st'"
  "records st' = records st \<Longrightarrow> no_new_route st st'"
  "DeleteDeferred key st = (n, st') \<Longrightarrow> no_new_route st st'"
  by (rule read_no_new_route) (auto simp: no_new_route_def DeleteDeferred_eq split: option.splits if_splits)

text \<open>
  A verified route: it offers at most what some observation built, and that observation had exactly one verified
  primary, agreeing with a Cluster of the same identity: the primary the snapshot names.
\<close>

definition verified_route :: "'d oenv \<Rightarrow> v1_Snapshot \<Rightarrow> bool" where
  "verified_route E snap \<longleftrightarrow> (\<exists>c ps results params at b fenced k.
     buildSnapshot (api E) c ps results params at (optTTL (opts E)) = Some b \<and> snapshot_below snap b \<and>
     cluster_fencing (api E) c = Some fenced \<and> sole_primary (api E) c fenced ps results k \<and>
     sPrimaryID snap = podUID (ps ! k) \<and> sCluster snap = clusterRef (api E) c)"

lemma justified_verified:
  assumes "justified E snap" and "\<not> withdrawn snap"
  shows "verified_route E snap"
proof -
  from assms obtain c ps results params at b where b: "buildSnapshot (api E) c ps results params at (optTTL (opts E)) = Some b"
    and av: "sAvailable b" and below: "snapshot_below snap b" unfolding justified_def by blast
  from b show ?thesis
  proof (cases rule: buildSnapshot_cases)
    case (verified fenced k)
    have "sPrimaryID b = podUID (ps ! k)" "sCluster b = clusterRef (api E) c" using verified(4) by (simp_all add: unavailable_def)
    then have "sPrimaryID snap = podUID (ps ! k)" "sCluster snap = clusterRef (api E) c" using below by (simp_all add: snapshot_below_def)
    with b below verified(1,3) show ?thesis unfolding verified_route_def by blast
  qed (use av in \<open>simp_all add: unavailable_def zero_Snapshot_def\<close>)
qed

text \<open>
  Every route in the store was verified, in every reachable state of the composed system, whatever
  the informer caches, the watches and the clients do.
\<close>

lemma stored_routes_verified:
  assumes "obs_reach E (s, y)" and "records (sysStore y) key = Some r" and "\<not> withdrawn (pSnapshot (rPublication r))"
  shows "verified_route E (pSnapshot (rPublication r))"
  using justified_verified [OF _ assms(3), of E] obs_reach_justified [OF assms(1)] assms(2) by (auto simp: store_justified_def)

text \<open>
  C7: the observer uses the store as the store's concurrency contract allows: every reachable state of
  the composed system is a reachable state of the store system, so everything shown of the latter
  (ordered and complete delivery, no channel panics, reads failing closed) holds beneath the observer.
\<close>

theorem observer_refines_store:
  assumes "obs_reach E (s, y)"
  shows "sys_reach (digest E) y"
  using obs_reach_sys [OF assms] by simp

section \<open>A concrete run\<close>

definition sample_options :: Options where
  "sample_options = \<lparr>optNamespace = [], optPollInterval = 5, optTTL = 15, optProbeTimeout = 2, optMaxConcurrency = 8, optMaxConcurrentClusters = 4\<rparr>"

definition sample_digest :: "v1_Snapshot \<Rightarrow> bool \<times> string \<times> (string \<times> bool) list" where
  "sample_digest s = (sAvailable s, sReason s, map (\<lambda>m. (mID m, mReady m)) (sMembers s))"

definition sample_env :: "(bool \<times> string \<times> (string \<times> bool) list) oenv" where
  "sample_env = \<lparr>api = sample_k8s, digest = sample_digest, clock = (\<lambda>n. 100), opts = sample_options\<rparr>"

definition sample_ca :: cachedCA where
  "sample_ca = \<lparr>caPtr = 1, caKey = ClusterKey ''db'' ''ca'', caUID = ''s1'', caResourceVersion = ''7'', caPublic = ''PEM''\<rparr>"

definition sample_connection :: connectionInfo where
  "sample_connection = \<lparr>ciParameters = \<lparr>cDatabase = ''app'', cServerCAPEM = ''PEM''\<rparr>, ciCA = Some sample_ca\<rparr>"

definition empty_store :: "'d store" where
  "empty_store = the (NewStore (Some [171]))"

definition sample_observer :: "gomap \<Rightarrow> 'd observer" where
  "sample_observer c = \<lparr>oStore = empty_store, oOut = [], oClusters = [(''db/app'', c)],
     oPods = sample_pods, oSecrets = [''db/ca'' \<mapsto> \<lparr>metaNamespace = ''db'', metaName = ''ca'', metaUID = ''s1'', metaResourceVersion = ''7''\<rparr>],
     oReady = True, oClusterWatch = True, oPodWatch = True, oSecretWatch = True, oQueue = newObservationQueue, oRequeue = [],
     oDemandNext = Map.empty, oObservations = Map.empty, oSuperseded = [], oStopped = False, oPrimaries = Map.empty,
     oCAs = [ClusterKey ''db'' ''ca'' \<mapsto> sample_ca], oCAReads = Map.empty, oCAPending = Map.empty, oCAQueue = [], oCACancelled = [],
     oCounters = (0, 0, 0), oNext = 2, oReads = 0\<rparr>"

definition app_key :: clusterKey where "app_key = ClusterKey ''db'' ''app''"

definition sample_publish :: obs_op where
  "sample_publish = PublishOp 0 app_key (sample_cluster ''p1'' ''p1'') sample_pods sample_results zero_Parameters sample_connection 100"

definition sample_published :: "(bool \<times> string \<times> (string \<times> bool) list) observer" where
  "sample_published = the (obs_run sample_env sample_publish (sample_observer (sample_cluster ''p1'' ''p1'')))"

definition sample_system :: "(bool \<times> string \<times> (string \<times> bool) list) sys" where
  "sample_system = commit (oOut sample_published) (oStore sample_published) (init_sys empty_store)"

lemma sample_system_reach: "obs_reach sample_env (sample_published, sample_system)"
proof -
  let ?s = "sample_observer (sample_cluster ''p1'' ''p1'') :: (bool \<times> string \<times> (string \<times> bool) list) observer"
  have 0: "obs_reach sample_env (?s, init_sys empty_store)"
    by (rule obs_reach.start [of "Some [171]"]) (simp add: empty_store_def NewStore_def)
  have "obs_run sample_env sample_publish ?s \<noteq> None" by code_simp
  moreover have "attach ?s (init_sys empty_store) = ?s" by (simp add: attach_def init_sys_def sample_observer_def)
  ultimately have "obs_run sample_env sample_publish (attach ?s (init_sys empty_store)) = Some sample_published"
    by (auto simp: sample_published_def)
  from obs_step.handler [OF this] obs_reach.step [OF 0] show ?thesis by (simp add: sample_system_def)
qed

definition sample_stored :: "(bool \<times> string \<times> (string \<times> bool) list) store_record" where
  "sample_stored = the (records (sysStore sample_system) app_key)"

lemma sample_stored_Some: "records (sysStore sample_system) app_key = Some sample_stored"
proof -
  have "records (sysStore sample_system) app_key \<noteq> None" by code_simp
  then show ?thesis by (auto simp: sample_stored_def)
qed

lemma sample_stored_route: "\<not> withdrawn (pSnapshot (rPublication sample_stored))"
proof -
  have "sAvailable (pSnapshot (rPublication sample_stored))" by code_simp
  then show ?thesis by (simp add: withdrawn_def)
qed

theorem observer_refines_store_witness: "sys_reach (digest sample_env) sample_system"
  by (rule observer_refines_store [OF sample_system_reach])

end
