(* ===== verification/Observer_Props.thy ===== *)
theory Observer_Props
  imports Observer_System
begin

text \<open>
  What the handlers promise: a metadata change withdraws the affected route at once and supersedes the
  collection that was running, a superseded collection publishes nothing, a rotated certificate
  authority withdraws every cluster that uses it, a late tombstone does not hurt a successor, and
  reconnecting clients cannot turn the periodic schedule into continuous probing.
\<close>

section \<open>Frames\<close>

lemma records_frame [frame_simps]:
  "records (oStore (snd (store_HasDemand E key s))) = records (oStore s)"
  "records (oStore (enqueue E ns name u s)) = records (oStore s)"
  "records (oStore (notify_key E key s)) = records (oStore s)"
proof -
  show 1: "records (oStore (snd (store_HasDemand E key s))) = records (oStore s)" for key
    by (simp add: store_HasDemand_def Now_def HasDemand_def case_prod_beta Let_def frame_simps)
  show 2: "records (oStore (enqueue E ns name u s)) = records (oStore s)" for ns name u
    by (simp add: enqueue_def Let_def case_prod_beta frame_simps 1 split: option.splits)
  show "records (oStore (notify_key E key s)) = records (oStore s)"
    by (simp add: notify_key_def Notify_def 2)
qed

text \<open>The part of the state that decides which collections and authorities are current.\<close>

definition control :: "'d observer \<Rightarrow> nat list \<times> (clusterKey \<rightharpoonup> nat) \<times> (clusterKey \<rightharpoonup> cachedCA)" where
  "control s = (oSuperseded s, oObservations s, oCAs s)"

lemma control_update:
  "control (s\<lparr>oStore := st\<rparr>) = control s" "control (s\<lparr>oOut := out\<rparr>) = control s" "control (s\<lparr>oReads := n\<rparr>) = control s"
  "control (s\<lparr>oQueue := q\<rparr>) = control s" "control (s\<lparr>oRequeue := rq\<rparr>) = control s" "control (s\<lparr>oDemandNext := dn\<rparr>) = control s"
  "control (s\<lparr>oPrimaries := ps\<rparr>) = control s"
  by (simp_all add: control_def)

lemma control_frame:
  "control (snd (Now E s)) = control s" "control (snd (store_HasDemand E key s)) = control s"
  "control (commitPublication E snap s) = control s" "control (commit_unavailable E c reason s) = control s"
  "control (store_DeleteDeferred key s) = control s" "control (snd (store_GetDeferred E key s)) = control s"
  "control (forget_evidence key s) = control s" "control (forget_demand key s) = control s"
  "control (enqueue E ns name u s) = control s" "control (notify_key E key s) = control s"
proof -
  show n: "control (snd (Now E s)) = control s" for s by (simp add: control_update Now_def)
  show h: "control (snd (store_HasDemand E key s)) = control s" for key
    by (simp add: control_update store_HasDemand_def case_prod_beta Let_def n)
  show c: "control (commitPublication E snap s) = control s" for snap s
    by (simp add: control_update commitPublication_def store_PutDeferred_def case_prod_beta Let_def n)
  show "control (commit_unavailable E c reason s) = control s"
    by (simp add: control_update commit_unavailable_def case_prod_beta Let_def n c)
  show "control (store_DeleteDeferred key s) = control s" by (simp add: control_update store_DeleteDeferred_def case_prod_beta Let_def)
  show "control (snd (store_GetDeferred E key s)) = control s"
    by (simp add: control_update store_GetDeferred_def case_prod_beta Let_def n)
  show "control (forget_evidence key s) = control s" "control (forget_demand key s) = control s"
    by (simp_all add: control_update forget_evidence_def forget_demand_def)
  show e: "control (enqueue E ns name u s) = control s" for ns name u
    by (simp add: control_update enqueue_def Let_def case_prod_beta queue_Add_def n h split: option.splits)
  show "control (notify_key E key s) = control s" by (simp add: control_update notify_key_def Notify_def e)
qed

lemmas control_fields [frame_simps] =
  control_frame [unfolded control_def prod.inject, THEN conjunct1]
  control_frame [unfolded control_def prod.inject, THEN conjunct2, THEN conjunct1]
  control_frame [unfolded control_def prod.inject, THEN conjunct2, THEN conjunct2]

lemma cancel_superseded:
  "set (oSuperseded s) \<subseteq> set (oSuperseded (cancelObservationLocked key s))"
  "oObservations s key = Some ctx \<Longrightarrow> ctx \<in> set (oSuperseded (cancelObservationLocked key s))"
  "oObservations (cancelObservationLocked key s) = oObservations s"
  by (auto simp: cancelObservationLocked_def split: option.splits)

lemma cancel_frame [frame_simps]:
  "oObservations (cancelObservationLocked key s) = oObservations s" "oCAs (cancelObservationLocked key s) = oCAs s"
  by (simp_all add: cancelObservationLocked_def split: option.splits)

text \<open>What a commit stores.\<close>

definition committed :: "'d oenv \<Rightarrow> v1_Snapshot \<Rightarrow> 'd observer \<Rightarrow> 'd store_record" where
  "committed E snap s = put_record (digest E) (clock E (oReads s)) (clock E (Suc (oReads s))) snap (oStore s)"

lemma commitPublication_records:
  "records (oStore (commitPublication E snap s)) = (records (oStore s))(snapshot_key snap \<mapsto> committed E snap s)"
  by (simp add: commitPublication_def store_PutDeferred_def Now_def PutDeferred_eq committed_def)

lemma unavailable_key [simp]:
  "snapshot_key (unavailable (api E) c at ttl reason) = cluster_key E c"
  "sCluster (unavailable K c at ttl reason) = clusterRef K c"
  by (simp_all add: snapshot_key_def unavailable_def clusterRef_def cluster_key_def)

lemma put_record_withdrawn:
  "withdrawn snap \<Longrightarrow> withdrawn (pSnapshot (rPublication (put_record H now1 now2 snap st)))"
  using put_snapshot_expired [of now1 now2 snap]
  by (cases "put_expired now1 now2 snap") (auto simp: put_record_def put_snapshot_def withdrawn_def)

lemma put_record_frame [simp]:
  "sCluster (pSnapshot (rPublication (put_record H now1 now2 snap st))) = sCluster snap"
  "sValidUntil (pSnapshot (rPublication (put_record H now1 now2 snap st))) = sValidUntil snap"
  "sObservedAt (pSnapshot (rPublication (put_record H now1 now2 snap st))) = sObservedAt snap"
  by (simp_all add: put_record_def)

lemma commit_unavailable_record:
  "\<exists>r. records (oStore (commit_unavailable E c reason s)) = (records (oStore s))(cluster_key E c \<mapsto> r) \<and>
     withdrawn (pSnapshot (rPublication r)) \<and> sCluster (pSnapshot (rPublication r)) = clusterRef (api E) c"
proof -
  let ?snap = "unavailable (api E) c (fst (Now E s)) (optTTL (opts E)) reason"
  have "records (oStore (commit_unavailable E c reason s)) =
      (records (oStore s))(cluster_key E c \<mapsto> committed E ?snap (snd (Now E s)))"
    by (simp add: commit_unavailable_def case_prod_beta Let_def commitPublication_records frame_simps)
  moreover have "withdrawn (pSnapshot (rPublication (committed E ?snap (snd (Now E s)))))"
    "sCluster (pSnapshot (rPublication (committed E ?snap (snd (Now E s))))) = clusterRef (api E) c"
    by (simp_all add: committed_def put_record_withdrawn)
  ultimately show ?thesis by blast
qed

section \<open>Cluster events\<close>

text \<open>
  The cluster is in demand in all of the first \<open>n\<close> readings of the clock: somebody watches it, or a unary
  request holds a lease that outlasts them.
\<close>

definition demanded :: "'d oenv \<Rightarrow> clusterKey \<Rightarrow> nat \<Rightarrow> 'd observer \<Rightarrow> bool" where
  "demanded E key n s \<longleftrightarrow> watchers_of key (oStore s) \<noteq> [] \<or>
     (\<exists>d. unaryDemand (oStore s) key = Some d \<and> (\<forall>i<n. clock E i < d))"

text \<open>What scheduling depends on is not touched by the commits of a handler; the clock only advances.\<close>

definition sched_frame :: "'d observer \<Rightarrow> 'd observer \<Rightarrow> bool" where
  "sched_frame s t \<longleftrightarrow> subscribers (oStore t) = subscribers (oStore s) \<and> unaryDemand (oStore t) = unaryDemand (oStore s) \<and>
     oQueue t = oQueue s \<and> oClusters t = oClusters s \<and> oReads s \<le> oReads t"

lemma sched_frame_trans [trans]: "sched_frame s t \<Longrightarrow> sched_frame t u \<Longrightarrow> sched_frame s u"
  by (simp add: sched_frame_def)

lemma sched_frame_ops [simp]:
  "sched_frame s s" "sched_frame s (cancelObservationLocked key s)" "sched_frame s (forget_evidence key s)"
  "sched_frame s (forget_demand key s)" "sched_frame s (commit_unavailable E c reason s)"
  by (simp_all add: sched_frame_def cancelObservationLocked_def forget_evidence_def forget_demand_def commit_unavailable_def
      commitPublication_def store_PutDeferred_def Now_def PutDeferred_eq Let_def split: option.split)

lemma sched_frame_withdrawal: "sched_frame s (commit_unavailable E c reason (cancelObservationLocked key s))"
  "sched_frame s (commit_unavailable E c reason (forget_demand key (forget_evidence key (cancelObservationLocked key s))))"
  by (meson sched_frame_ops sched_frame_trans)+

lemma wanted_frame: "sched_frame s t \<Longrightarrow> demanded E key n t = demanded E key n s"
  by (simp add: sched_frame_def demanded_def watchers_of_def)

lemma demanded_HasDemand:
  assumes "demanded E key n s" and "oReads s < n"
  shows "fst (store_HasDemand E key s)" "sched_frame s (snd (store_HasDemand E key s)) \<or> watchers_of key (oStore s) \<noteq> []"
  using assms by (auto simp: demanded_def store_HasDemand_def HasDemand_def hasDemand_def Now_def sched_frame_def watchers_of_def Let_def)

lemma HasDemand_keeps:
  "watchers_of key (oStore (snd (store_HasDemand E k s))) = watchers_of key (oStore s)"
  "oQueue (snd (store_HasDemand E k s)) = oQueue s" "oClusters (snd (store_HasDemand E k s)) = oClusters s"
  "oReads (snd (store_HasDemand E k s)) = Suc (oReads s)"
  by (simp_all add: store_HasDemand_def HasDemand_def hasDemand_def Now_def watchers_of_def Let_def)

lemma demanded_after:
  assumes "demanded E key n s" and "oReads s < n"
  shows "demanded E key n (snd (store_HasDemand E key s))"
proof (cases "watchers_of key (oStore s) = []")
  case True
  then show ?thesis using demanded_HasDemand(2) [OF assms] wanted_frame [of s _ E key n] assms(1) by simp
next
  case False
  then show ?thesis by (simp add: demanded_def HasDemand_keeps)
qed

text \<open>An urgent request for a Cluster that is known and in demand is queued and promoted.\<close>

definition urgently_queued :: "clusterKey \<Rightarrow> priorityQueue \<Rightarrow> bool" where
  "urgently_queued key q \<longleftrightarrow> dirty q key \<noteq> None \<and> flagged (promoted q key)"

lemma Add_promote_queued: "\<not> shuttingDown q \<Longrightarrow> urgently_queued key (Add key (promote key q))"
  by (simp add: urgently_queued_def Add_def promote_def push_def Broadcast_def flagged_def Let_def split: option.split)

lemma notify_key_queued:
  assumes "ck_namespace key \<noteq> []" and "ck_name key \<noteq> []" and "optNamespace (opts E) \<in> {[], ck_namespace key}"
    and "fst (store_HasDemand E key s)" and "cluster key s \<noteq> None" and "\<not> shuttingDown (oQueue s)"
  shows "urgently_queued key (oQueue (notify_key E key s))"
proof -
  have "oQueue (notify_key E key s) = Add key (promote key (oQueue s))"
    using assms(1-5) by (cases key) (auto simp: notify_key_def Notify_def enqueue_def case_prod_beta Let_def queue_Add_def
        cluster_def clusterKey_String_def HasDemand_keeps)
  then show ?thesis using Add_promote_queued assms(6) by simp
qed

lemma notify_reads: "oReads s \<le> oReads (notify_key E key s)"
  by (simp add: notify_key_def Notify_def enqueue_def case_prod_beta Let_def queue_Add_def HasDemand_keeps split: option.split)

text \<open>The end of a handler that asks for demand before it notifies.\<close>

lemma demanded_notify_queued:
  assumes "t = (if fst (store_HasDemand E key s) then notify_key E key (snd (store_HasDemand E key s)) else snd (store_HasDemand E key s))"
    and "demanded E key (oReads t) s" and "ck_namespace key \<noteq> []" and "ck_name key \<noteq> []"
    and "optNamespace (opts E) \<in> {[], ck_namespace key}" and "cluster key s \<noteq> None" and "\<not> shuttingDown (oQueue s)"
  shows "urgently_queued key (oQueue t)"
proof -
  let ?u = "snd (store_HasDemand E key s)"
  have lt: "oReads s < oReads t" using notify_reads [of ?u E key] by (simp add: assms(1) HasDemand_keeps split: if_split)
  have t: "t = notify_key E key ?u" using assms(1) demanded_HasDemand(1) [OF assms(2) lt] by simp
  have known: "cluster key ?u \<noteq> None" using assms(6) by (simp add: cluster_def HasDemand_keeps)
  have "oReads ?u < oReads t \<or> oReads t = oReads ?u" using notify_reads [of ?u E key] t by auto
  moreover have "oReads t \<noteq> oReads ?u"
    using assms(3-5) by (auto simp: t notify_key_def Notify_def enqueue_def case_prod_beta Let_def queue_Add_def HasDemand_keeps split: if_splits)
  ultimately have "fst (store_HasDemand E key ?u)" using demanded_HasDemand(1) [OF demanded_after [OF assms(2) lt]] by blast
  then show ?thesis unfolding t using notify_key_queued [OF assms(3-5) _ known] assms(7) by (simp add: HasDemand_keeps)
qed

text \<open>
  C14: a change of a Cluster's routing metadata takes effect at once. When the event shows a route that
  differs from the old one (or a Cluster that is disabled or being deleted), then after the handler
  the stored snapshot of that Cluster is withdrawn, or gone when the Cluster is disabled or being deleted, whatever was
  stored and whether or not a collection is running; a collection that was running for it has been superseded; and if the
  Cluster is enabled, known to the cache, in the watched namespace and in demand throughout the handler, then, unless the
  queue is shutting down, a new observation is queued, and as an urgent one.
\<close>

theorem route_change_withdraws:
  assumes "cachedCluster oldObj = Some old" and "cachedCluster newObj = Some c" and "\<not> sameClusterRoute (api E) old c"
    and "t = clusterEvent E oldObj newObj s" and "key = cluster_key E c"
  shows "(\<forall>ctx. oObservations s key = Some ctx \<longrightarrow> ctx \<in> set (oSuperseded t)) \<and>
    (if fst (parameters (api E) c) \<and> GetDeletionTimestamp (api E) c = None
     then \<exists>r. records (oStore t) key = Some r \<and> withdrawn (pSnapshot (rPublication r)) \<and>
            sCluster (pSnapshot (rPublication r)) = clusterRef (api E) c
     else records (oStore t) key = None) \<and>
    (fst (parameters (api E) c) \<and> GetDeletionTimestamp (api E) c = None \<and> ck_namespace key \<noteq> [] \<and> ck_name key \<noteq> [] \<and>
     optNamespace (opts E) \<in> {[], ck_namespace key} \<and> cluster key s \<noteq> None \<and> \<not> shuttingDown (oQueue s) \<and>
     demanded E key (oReads t) s \<longrightarrow> urgently_queued key (oQueue t))"
proof (cases "fst (parameters (api E) c) \<and> GetDeletionTimestamp (api E) c = None")
  case True
  define s1 where "s1 = (case ClusterIdentity key (oStore s) of
       Some previous \<Rightarrow> if rUID previous \<noteq> GetUID (api E) c then
           commit_unavailable E c ''awaiting_observation'' (forget_demand key (forget_evidence key (cancelObservationLocked key s)))
         else s
     | None \<Rightarrow> commit_unavailable E c ''awaiting_observation'' (forget_demand key (forget_evidence key (cancelObservationLocked key s))))"
  let ?s2 = "commit_unavailable E c ''topology_changed'' (cancelObservationLocked key s1)"
  have f: "sched_frame s s1" unfolding s1_def by (auto simp: sched_frame_withdrawal split: option.split)
  then have f2: "sched_frame s ?s2" using sched_frame_withdrawal(1) sched_frame_trans by blast
  have o1: "oObservations s1 = oObservations s" unfolding s1_def by (auto simp: frame_simps split: option.splits)
  have ev: "t = (if fst (store_HasDemand E key ?s2) then notify_key E key (snd (store_HasDemand E key ?s2)) else snd (store_HasDemand E key ?s2))"
    unfolding assms(4) clusterEvent_def assms(2) option.simps Let_def case_prod_beta s1_def assms(5) using True assms(1,3) by simp
  have "ctx \<in> set (oSuperseded ?s2)" if "oObservations s key = Some ctx" for ctx
    using cancel_superseded(2) [of s1 key ctx] that by (simp add: frame_simps o1)
  then have sup: "ctx \<in> set (oSuperseded t)" if "oObservations s key = Some ctx" for ctx using that by (simp add: ev frame_simps)
  obtain r where "records (oStore ?s2) key = Some r" "withdrawn (pSnapshot (rPublication r))" "sCluster (pSnapshot (rPublication r)) = clusterRef (api E) c"
    using commit_unavailable_record [of E c "''topology_changed''" "cancelObservationLocked key s1"] by (auto simp: assms(5))
  then have rec: "\<exists>r. records (oStore t) key = Some r \<and> withdrawn (pSnapshot (rPublication r)) \<and> sCluster (pSnapshot (rPublication r)) = clusterRef (api E) c"
    by (simp add: ev frame_simps)
  have "urgently_queued key (oQueue t)" if "ck_namespace key \<noteq> []" "ck_name key \<noteq> []" "optNamespace (opts E) \<in> {[], ck_namespace key}"
      "cluster key s \<noteq> None" "\<not> shuttingDown (oQueue s)" "demanded E key (oReads t) s"
    using demanded_notify_queued [OF ev] that f2 wanted_frame [OF f2] by (simp add: sched_frame_def cluster_def)
  then show ?thesis using True sup rec by simp
next
  case False
  let ?t = "forget_demand key (forget_evidence key (cancelObservationLocked key s))"
  have ev: "t = store_DeleteDeferred key ?t"
    unfolding assms(4,5) clusterEvent_def assms(2) option.simps Let_def using False by auto
  have "records (oStore t) key = None"
    by (simp add: ev store_DeleteDeferred_def case_prod_beta Let_def DeleteDeferred_eq split: option.splits)
  then show ?thesis using False cancel_superseded(2) [of s key] by (auto simp: ev frame_simps)
qed

text \<open>What the withdrawal of a Cluster that is gone does.\<close>

lemma drop_cluster_effect:
  "records (oStore (drop_cluster key s)) = (records (oStore s))(key := None)"
  "\<exists>n. oOut (drop_cluster key s) = oOut s @ [n] \<and>
     (\<forall>p. nPublication n = Some p \<longrightarrow> withdrawn (pSnapshot p) \<and> sReason (pSnapshot p) = ''deleted'')"
  by (auto simp: drop_cluster_def forget_evidence_def store_DeleteDeferred_def case_prod_beta Let_def DeleteDeferred_eq no_notification_def
      tombstone_def withdrawn_def fun_upd_idem split: option.splits)

text \<open>
  C5: a superseded or stopped collection publishes no route and no failure. Its publication leaves the store, the pending
  deliveries and the queue as they are, unless the Cluster is gone, disabled or being deleted by now: then it removes the
  record of that Cluster, and announces at most its deletion. Its report of a failure changes nothing at all.
\<close>

theorem superseded_never_publishes:
  assumes "ctx_done ctx s"
  shows "publishFailure E ctx key reason s = s \<and>
    (\<forall>b t. publishObservation E ctx key observed probed results params conn started s = Some (b, t) \<longrightarrow>
       oStore t = oStore s \<and> oOut t = oOut s \<and> oQueue t = oQueue s \<and> \<not> b \<or>
       (\<forall>latest. cluster key s = Some latest \<longrightarrow> \<not> fst (parameters (api E) latest) \<or> GetDeletionTimestamp (api E) latest \<noteq> None) \<and>
       records (oStore t) = (records (oStore s))(key := None) \<and>
       (\<exists>n. oOut t = oOut s @ [n] \<and> (\<forall>p. nPublication n = Some p \<longrightarrow> withdrawn (pSnapshot p) \<and> sReason (pSnapshot p) = ''deleted'')))"
proof -
  have over: "ctx_done ctx (s\<lparr>oPrimaries := P\<rparr>)" for P using assms by (simp add: ctx_done_def)
  have "oStore t = oStore s \<and> oOut t = oOut s \<and> oQueue t = oQueue s \<and> \<not> b \<or> t = drop_cluster key s \<and>
      (\<forall>latest. cluster key s = Some latest \<longrightarrow> \<not> fst (parameters (api E) latest) \<or> GetDeletionTimestamp (api E) latest \<noteq> None)"
    if "publishObservation E ctx key observed probed results params conn started s = Some (b, t)" for b t
    using that over by (auto simp: publishObservation_def Let_def split: option.splits if_splits prod.splits)
  then show ?thesis using drop_cluster_effect [of key s] assms by (simp add: publishFailure_def) blast
qed

lemma publishObservation_live:
  fixes s :: "'d observer"
  assumes "cluster key s = Some latest" and "fst (parameters (api E) latest)" and "GetDeletionTimestamp (api E) latest = None"
    and "(if GetUID (api E) observed = GetUID (api E) latest
      then conflictingPrimary (api E) observed latest probed (pods E latest s) results (oPrimaries s) else Some (False, oPrimaries s))
      = Some (conflict, primaries)"
  defines "u \<equiv> s\<lparr>oPrimaries := primaries\<rparr>"
  shows "publishObservation E ctx key observed probed results params conn started s =
     (if ctx_done ctx u \<or> \<not> Ready u then Some (False, u)
      else if \<not> sameClusterRoute (api E) observed latest then
        Some (False, commit_unavailable E latest ''topology_changed_during_observation'' (notify_key E key u))
      else if \<not> currentCA (ciCA conn) u then
        Some (False, commit_unavailable E latest ''connection_defaults_changed'' (notify_key E key u))
      else case matchInstanceResults probed (pods E latest s) results of
          None \<Rightarrow> None
        | Some mapped \<Rightarrow>
            (case buildSnapshot (api E) latest (pods E latest s) mapped params started (optTTL (opts E)) of
               None \<Rightarrow> None
             | Some snapshot \<Rightarrow>
                 (let snapshot = (if conflict then withdraw_conflict snapshot else snapshot);
                      snapshot = snapshot\<lparr>sConnection := ciParameters conn\<rparr>
                  in Some (sAvailable snapshot, commitPublication E snapshot u))))"
  unfolding publishObservation_def Let_def assms(1,4) u_def option.case prod.case using assms(2,3) by simp

text \<open>The commits of the other branches leave no route behind that was not there.\<close>

lemma drop_no_new: "records (oStore (drop_cluster key s)) k = Some r \<Longrightarrow> records (oStore s) k = Some r"
  by (auto simp: drop_cluster_def store_DeleteDeferred_def case_prod_beta Let_def DeleteDeferred_eq frame_simps split: option.splits if_splits)

lemma unavailable_no_new:
  assumes "records (oStore (commit_unavailable E c reason (notify_key E key u))) k = Some r" and "\<not> withdrawn (pSnapshot (rPublication r))"
  shows "records (oStore u) k = Some r"
  using commit_unavailable_record [of E c reason "notify_key E key u"] assms by (auto simp: frame_simps split: if_splits)

lemma conflict_no_new:
  assumes "records (oStore (commitPublication E ((withdraw_conflict x)\<lparr>sConnection := ci\<rparr>) u)) k = Some r" and "\<not> withdrawn (pSnapshot (rPublication r))"
  shows "records (oStore u) k = Some r"
proof -
  have "withdrawn ((withdraw_conflict x)\<lparr>sConnection := ci\<rparr>)"
    using withdraw_conflict_withdrawn [of x] by (simp add: withdrawn_def)
  then have "withdrawn (pSnapshot (rPublication (committed E ((withdraw_conflict x)\<lparr>sConnection := ci\<rparr>) u)))"
    unfolding committed_def by (rule put_record_withdrawn)
  then show ?thesis using assms by (auto simp: commitPublication_records split: if_split_asm)
qed

text \<open>The stored route of a commit is the snapshot committed, under the API version and revision the store gives it.\<close>

lemma committed_snapshot:
  assumes "\<not> withdrawn (pSnapshot (rPublication (committed E snap s)))"
  shows "pSnapshot (rPublication (committed E snap s)) =
    snap\<lparr>sAPIVersion := APIVersion, sRevision := sRevision (pSnapshot (rPublication (committed E snap s)))\<rparr>"
proof -
  let ?now1 = "clock E (oReads s)" and ?now2 = "clock E (Suc (oReads s))"
  have "\<not> withdrawn (put_snapshot ?now1 ?now2 snap)" using assms by (simp add: committed_def put_record_def withdrawn_def)
  then have "\<not> put_expired ?now1 ?now2 snap" using put_snapshot_expired by blast
  then have "put_snapshot ?now1 ?now2 snap = snap\<lparr>sAPIVersion := APIVersion\<rparr>" by (simp add: put_snapshot_def Let_def)
  then show ?thesis by (simp add: committed_def put_record_def)
qed

lemma checks_frame:
  "ctx_done ctx (s\<lparr>oPrimaries := P\<rparr>) = ctx_done ctx s" "Ready (s\<lparr>oPrimaries := P\<rparr>) = Ready s"
  "currentCA ca (s\<lparr>oPrimaries := P\<rparr>) = currentCA ca s"
  by (simp_all add: ctx_done_def Ready_def currentCA_def secretMetadata_def split: option.splits)

text \<open>What is known when a publication leaves a new route: all checks have passed, and it is the snapshot built.\<close>

lemma publish_new_route:
  assumes "publishObservation E ctx key observed probed results params conn started s = Some (b, t)"
    and "records (oStore t) k = Some r" and "\<not> withdrawn (pSnapshot (rPublication r))" and "records (oStore s) k \<noteq> Some r"
  obtains latest primaries mapped snap where "cluster key s = Some latest" "fst (parameters (api E) latest)"
    "GetDeletionTimestamp (api E) latest = None" "\<not> ctx_done ctx s" "Ready s" "sameClusterRoute (api E) observed latest" "currentCA (ciCA conn) s"
    "conflictingPrimary (api E) observed latest probed (pods E latest s) results (oPrimaries s) = Some (False, primaries)"
    "matchInstanceResults probed (pods E latest s) results = Some mapped"
    "buildSnapshot (api E) latest (pods E latest s) mapped params started (optTTL (opts E)) = Some snap"
    "r = committed E (snap\<lparr>sConnection := ciParameters conn\<rparr>) (s\<lparr>oPrimaries := primaries\<rparr>)" "k = snapshot_key snap"
proof -
  have uid: "sameClusterRoute (api E) observed c \<Longrightarrow> GetUID (api E) observed = GetUID (api E) c" for c
    by (simp add: sameClusterRoute_def split: if_splits)
  have "t \<noteq> drop_cluster key s" using drop_no_new assms(2,4) by auto
  then obtain latest where c: "cluster key s = Some latest" "fst (parameters (api E) latest)" "GetDeletionTimestamp (api E) latest = None"
    using assms(1) by (auto simp: publishObservation_def split: option.splits if_splits)
  let ?check = "if GetUID (api E) observed = GetUID (api E) latest
      then conflictingPrimary (api E) observed latest probed (pods E latest s) results (oPrimaries s) else Some (False, oPrimaries s)"
  obtain conflict primaries where cp: "?check = Some (conflict, primaries)"
    using assms(1) c by (auto simp: publishObservation_def Let_def split: option.splits)
  let ?s = "s\<lparr>oPrimaries := primaries\<rparr>"
  note red = assms(1) [unfolded publishObservation_live [OF c cp]]
  have s: "records (oStore ?s) k \<noteq> Some r" using assms(4) by simp
  have un: "t \<noteq> commit_unavailable E latest reason (notify_key E key ?s)" for reason
    using unavailable_no_new [of E latest reason key ?s k r] assms(2,3) s by auto
  have g: "\<not> ctx_done ctx ?s" "Ready ?s" "sameClusterRoute (api E) observed latest" "currentCA (ciCA conn) ?s"
    using red assms(2) s un by (auto split: if_split_asm)
  then obtain mapped snap where m: "matchInstanceResults probed (pods E latest s) results = Some mapped"
      "buildSnapshot (api E) latest (pods E latest s) mapped params started (optTTL (opts E)) = Some snap"
      and t: "t = commitPublication E ((if conflict then withdraw_conflict snap else snap)\<lparr>sConnection := ciParameters conn\<rparr>) ?s"
    using red by (auto simp: Let_def split: option.split_asm)
  have nc: "\<not> conflict" using conflict_no_new [of E _ snap ?s k r] t assms(2,3) s by auto
  then have "r = committed E (snap\<lparr>sConnection := ciParameters conn\<rparr>) ?s" "k = snapshot_key snap"
    using t assms(2) s by (auto simp: commitPublication_records snapshot_key_def split: if_split_asm)
  then show thesis using that c g cp uid m nc by (simp add: checks_frame)
qed

text \<open>
  C4: an observation publishes a route only under current metadata, and it publishes what it collected. When a publication
  of an observation leaves a route in the store that was not there before, the collection has not been
  superseded, all watches are healthy, the Cluster it started from has the same route as the current
  one, its certificate authority is current, and no primary conflict is known; and the stored snapshot is the one built from
  the current Cluster and Pods and the answers of this collection, with the connection data it read, dated from its
  start, stored under its own key; the store has added only the API version and the revision.
\<close>

theorem publication_requires_currency:
  assumes "publishObservation E ctx key observed probed results params conn started s = Some (b, t)"
    and "records (oStore t) k = Some r" and "\<not> withdrawn (pSnapshot (rPublication r))" and "records (oStore s) k \<noteq> Some r"
  shows "\<exists>latest primaries mapped snap. cluster key s = Some latest \<and> fst (parameters (api E) latest) \<and>
    GetDeletionTimestamp (api E) latest = None \<and> \<not> ctx_done ctx s \<and> Ready s \<and>
    sameClusterRoute (api E) observed latest \<and> currentCA (ciCA conn) s \<and>
    conflictingPrimary (api E) observed latest probed (pods E latest s) results (oPrimaries s) = Some (False, primaries) \<and>
    matchInstanceResults probed (pods E latest s) results = Some mapped \<and>
    buildSnapshot (api E) latest (pods E latest s) mapped params started (optTTL (opts E)) = Some snap \<and> k = snapshot_key snap \<and>
    pSnapshot (rPublication r) = snap\<lparr>sConnection := ciParameters conn, sAPIVersion := APIVersion,
      sRevision := sRevision (pSnapshot (rPublication r))\<rparr>"
proof (rule publish_new_route [OF assms])
  fix latest primaries mapped snap
  assume "r = committed E (snap\<lparr>sConnection := ciParameters conn\<rparr>) (s\<lparr>oPrimaries := primaries\<rparr>)"
  then have "pSnapshot (rPublication r) = snap\<lparr>sConnection := ciParameters conn, sAPIVersion := APIVersion,
      sRevision := sRevision (pSnapshot (rPublication r))\<rparr>" using committed_snapshot assms(3) by metis
  then show "cluster key s = Some latest \<Longrightarrow> fst (parameters (api E) latest) \<Longrightarrow> GetDeletionTimestamp (api E) latest = None \<Longrightarrow>
     \<not> ctx_done ctx s \<Longrightarrow> Ready s \<Longrightarrow> sameClusterRoute (api E) observed latest \<Longrightarrow> currentCA (ciCA conn) s \<Longrightarrow>
     conflictingPrimary (api E) observed latest probed (pods E latest s) results (oPrimaries s) = Some (False, primaries) \<Longrightarrow>
     matchInstanceResults probed (pods E latest s) results = Some mapped \<Longrightarrow>
     buildSnapshot (api E) latest (pods E latest s) mapped params started (optTTL (opts E)) = Some snap \<Longrightarrow> k = snapshot_key snap \<Longrightarrow> ?thesis"
    by blast
qed

section \<open>Deletion\<close>

text \<open>
  A delayed tombstone does not delete a successor. When the cache already holds a Cluster of the
  same name with another UID, the handler changes nothing; otherwise the Cluster's record and its conflict evidence
  are gone and its collection is superseded, and no other Cluster's record changes.
\<close>

theorem tombstone_spares_successor:
  assumes "cachedCluster obj = Some c"
  shows "(\<forall>current. cluster (cluster_key E c) s = Some current \<and> GetUID (api E) current \<noteq> GetUID (api E) c \<longrightarrow>
       clusterDeleted E obj s = s) \<and>
    ((\<forall>current. cluster (cluster_key E c) s = Some current \<longrightarrow> GetUID (api E) current = GetUID (api E) c) \<longrightarrow>
       records (oStore (clusterDeleted E obj s)) = (records (oStore s))(cluster_key E c := None) \<and>
       oPrimaries (clusterDeleted E obj s) (cluster_key E c) = None \<and>
       (\<forall>ctx. oObservations s (cluster_key E c) = Some ctx \<longrightarrow> ctx \<in> set (oSuperseded (clusterDeleted E obj s))))"
proof (intro conjI impI allI)
  show "clusterDeleted E obj s = s"
    if "cluster (cluster_key E c) s = Some current \<and> GetUID (api E) current \<noteq> GetUID (api E) c" for current
    using that assms by (simp add: clusterDeleted_def Let_def)
  assume "\<forall>current. cluster (cluster_key E c) s = Some current \<longrightarrow> GetUID (api E) current = GetUID (api E) c"
  then have t: "clusterDeleted E obj s = forget_demand (cluster_key E c) (forget_evidence (cluster_key E c)
      (store_DeleteDeferred (cluster_key E c) (cancelObservationLocked (cluster_key E c) s)))"
    using assms by (auto simp: clusterDeleted_def Let_def split: option.splits)
  show "records (oStore (clusterDeleted E obj s)) = (records (oStore s))(cluster_key E c := None)"
    unfolding t by (auto simp: frame_simps store_DeleteDeferred_def case_prod_beta Let_def DeleteDeferred_eq fun_eq_iff split: option.splits)
  show "oPrimaries (clusterDeleted E obj s) (cluster_key E c) = None"
    unfolding t by (simp add: forget_demand_def forget_evidence_def)
  show "ctx \<in> set (oSuperseded (clusterDeleted E obj s))" if "oObservations s (cluster_key E c) = Some ctx" for ctx
    unfolding t using cancel_superseded(2) [OF that] by (simp add: frame_simps)
qed

section \<open>Pod events\<close>

lemma GetDeferred_times:
  assumes "records (oStore s) key = Some r"
  shows "\<exists>snap u. store_GetDeferred E key s = (Some snap, u) \<and>
    sValidUntil snap = sValidUntil (pSnapshot (rPublication r)) \<and> sCluster snap = sCluster (pSnapshot (rPublication r))"
  using assms
  by (cases "is_due (clock E (oReads s)) r")
    (simp_all add: store_GetDeferred_def Now_def GetDeferred_def readPublication_def expireRecord_eq expired_record_def)

lemma event_keys_single:
  assumes "set (event_keys swap old new) = {key}"
  shows "event_keys swap old new = [key]"
proof -
  have "distinct (event_keys swap old new)" by (simp add: event_keys_def Let_def)
  with assms show ?thesis by (metis distinct_card card_1_singleton_iff List.card_set One_nat_def length_0_conv length_Suc_conv
        list.set_intros(1) singletonD is_singletonI is_singleton_altdef)
qed

text \<open>
  C15: a changed Pod loses its route before anything is probed. When the primary's Pod changes, the
  stored snapshot is withdrawn and the collection superseded; when another member's Pod changes, that
  member is no longer ready in the stored snapshot, and the snapshot's lifetime is not extended.
\<close>

theorem pod_change_withdraws:
  assumes "cachedPod oldObj = Some old" and "\<forall>new. cachedPod newObj = Some new \<longrightarrow> \<not> samePodRoute old new"
    and "set (event_keys swap (Some old) (cachedPod newObj)) = {key}"
    and "cluster key s = Some c" and "cluster_key E c = key"
  shows "(podName old = fst (primaryNames (api E) c) \<longrightarrow>
       (\<exists>r. records (oStore (podEvent E swap oldObj newObj s)) key = Some r \<and> withdrawn (pSnapshot (rPublication r))) \<and>
       (\<forall>ctx. oObservations s key = Some ctx \<longrightarrow> ctx \<in> set (oSuperseded (podEvent E swap oldObj newObj s)))) \<and>
    (podName old \<noteq> fst (primaryNames (api E) c) \<longrightarrow>
       (\<forall>r r'. records (oStore s) key = Some r \<and> snapshot_key (pSnapshot (rPublication r)) = key \<and>
          rUID (sCluster (pSnapshot (rPublication r))) = GetUID (api E) c \<and>
          records (oStore (podEvent E swap oldObj newObj s)) key = Some r' \<longrightarrow>
          sValidUntil (pSnapshot (rPublication r')) = sValidUntil (pSnapshot (rPublication r)) \<and>
          (\<forall>m\<in>set (sMembers (pSnapshot (rPublication r'))). mID m = podUID old \<longrightarrow> \<not> mReady m)))"
proof -
  have ch: "(case cachedPod newObj of None \<Rightarrow> True | Some new \<Rightarrow> \<not> samePodRoute old new)"
    using assms(2) by (simp split: option.splits)
  have run: "podEvent E swap oldObj newObj s = pod_event_key E (Some old) (cachedPod newObj) key s"
    using assms(1,2) event_keys_single [OF assms(3)] by (auto simp: podEvent_def Let_def split: option.splits)
  show ?thesis
  proof (intro conjI impI)
    assume pr: "podName old = fst (primaryNames (api E) c)"
    have t: "podEvent E swap oldObj newObj s = notify_key E key (commit_unavailable E c ''primary_changed'' (cancelObservationLocked key s))"
      unfolding run pod_event_key_def using assms(4) ch pr by simp
    show "\<exists>r. records (oStore (podEvent E swap oldObj newObj s)) key = Some r \<and> withdrawn (pSnapshot (rPublication r))"
      unfolding t using commit_unavailable_record [of E c "''primary_changed''" "cancelObservationLocked key s"] assms(5)
      by (auto simp: frame_simps)
    show "\<forall>ctx. oObservations s key = Some ctx \<longrightarrow> ctx \<in> set (oSuperseded (podEvent E swap oldObj newObj s))"
      unfolding t using cancel_superseded(2) by (fastforce simp: frame_simps)
  next
    assume np: "podName old \<noteq> fst (primaryNames (api E) c)"
    show "\<forall>r r'. records (oStore s) key = Some r \<and> snapshot_key (pSnapshot (rPublication r)) = key \<and>
          rUID (sCluster (pSnapshot (rPublication r))) = GetUID (api E) c \<and>
          records (oStore (podEvent E swap oldObj newObj s)) key = Some r' \<longrightarrow>
          sValidUntil (pSnapshot (rPublication r')) = sValidUntil (pSnapshot (rPublication r)) \<and>
          (\<forall>m\<in>set (sMembers (pSnapshot (rPublication r'))). mID m = podUID old \<longrightarrow> \<not> mReady m)"
    proof (intro allI impI, elim conjE)
      fix r r'
      assume r: "records (oStore s) key = Some r" "snapshot_key (pSnapshot (rPublication r)) = key"
        "rUID (sCluster (pSnapshot (rPublication r))) = GetUID (api E) c"
        and r': "records (oStore (podEvent E swap oldObj newObj s)) key = Some r'"
      obtain snap u where g: "store_GetDeferred E key s = (Some snap, u)"
        and sn: "sValidUntil snap = sValidUntil (pSnapshot (rPublication r))" "sCluster snap = sCluster (pSnapshot (rPublication r))"
        using GetDeferred_times [OF r(1)] by metis
      have t: "podEvent E swap oldObj newObj s = notify_key E key (commitPublication E (withdraw_member (podUID old) snap) u)"
        unfolding run pod_event_key_def using assms(4) ch np g sn r(3) by simp
      have k: "snapshot_key (withdraw_member (podUID old) snap) = key"
        using r(2) sn(2) by (simp add: snapshot_key_def withdraw_member_def)
      have "r' = committed E (withdraw_member (podUID old) snap) u"
        using r' unfolding t by (simp add: frame_simps commitPublication_records k)
      moreover have "\<not> mReady m" if "m \<in> set (sMembers (pSnapshot (rPublication (committed E (withdraw_member (podUID old) snap) u))))"
          "mID m = podUID old" for m
        using that by (auto simp: committed_def put_record_def put_snapshot_def Let_def invalidate_def withdraw_member_def split: if_splits)
      ultimately show "sValidUntil (pSnapshot (rPublication r')) = sValidUntil (pSnapshot (rPublication r)) \<and>
          (\<forall>m\<in>set (sMembers (pSnapshot (rPublication r'))). mID m = podUID old \<longrightarrow> \<not> mReady m)"
        using sn(1) by (simp add: committed_def withdraw_member_def)
    qed
  qed
qed

section \<open>Secret events\<close>

lemma fold_establishes:
  assumes "\<And>x s. I s \<Longrightarrow> I (f x s) \<and> P x (f x s)" and "\<And>x y s. I s \<Longrightarrow> P x s \<Longrightarrow> P x (f y s)" and "I s" and "x \<in> set xs"
  shows "P x (fold f xs s)"
proof -
  have keep: "I s \<Longrightarrow> P x s \<Longrightarrow> P x (fold f xs s)" for xs s
    using assms(1,2) by (induction xs arbitrary: s) auto
  show ?thesis using assms(3,4)
  proof (induction xs arbitrary: s)
    case (Cons y ys)
    then show ?case using assms(1) keep by (cases "x = y") auto
  qed simp
qed

text \<open>A record that neither offers a route nor carries a certificate authority.\<close>

definition no_route_no_ca :: "v1_Snapshot \<Rightarrow> bool" where
  "no_route_no_ca snap \<longleftrightarrow> \<not> sAvailable snap \<and> cServerCAPEM (sConnection snap) = []"

definition clean_at :: "clusterKey \<Rightarrow> 'd observer \<Rightarrow> bool" where
  "clean_at key s \<longleftrightarrow> (\<forall>r. records (oStore s) key = Some r \<longrightarrow> no_route_no_ca (pSnapshot (rPublication r)))"

lemma clean_frame: "clean_at key (notify_key E k s) = clean_at key s" "clean_at key (cancelObservationLocked k s) = clean_at key s"
  by (simp_all add: clean_at_def frame_simps)

lemma commit_unavailable_clean:
  "clean_at (cluster_key E c) (commit_unavailable E c reason s)"
  "clean_at key s \<Longrightarrow> clean_at key (commit_unavailable E c reason s)"
proof -
  let ?snap = "unavailable (api E) c (fst (Now E s)) (optTTL (opts E)) reason"
  let ?r = "committed E ?snap (snd (Now E s))"
  have rec: "records (oStore (commit_unavailable E c reason s)) = (records (oStore s))(cluster_key E c \<mapsto> ?r)"
    by (simp add: commit_unavailable_def case_prod_beta Let_def commitPublication_records frame_simps)
  have "no_route_no_ca (pSnapshot (rPublication ?r))"
    by (simp add: committed_def put_record_def put_snapshot_def invalidate_def Let_def no_route_no_ca_def unavailable_def zero_Snapshot_def zero_Connection_def)
  then show "clean_at (cluster_key E c) (commit_unavailable E c reason s)"
    "clean_at key s \<Longrightarrow> clean_at key (commit_unavailable E c reason s)"
    by (auto simp: clean_at_def rec)
qed

lemma GetDeferred_records:
  "(case fst (store_GetDeferred E key s) of
      None \<Rightarrow> records (oStore (snd (store_GetDeferred E key s))) key = None
    | Some snap \<Rightarrow> \<exists>r. records (oStore (snd (store_GetDeferred E key s))) key = Some r \<and> snap = pSnapshot (rPublication r))"
  "clean_at k s \<Longrightarrow> clean_at k (snd (store_GetDeferred E key s))"
  by (cases "records (oStore s) key";
      simp add: store_GetDeferred_def Now_def GetDeferred_def readPublication_def expireRecord_eq expired_record_def
        clean_at_def no_route_no_ca_def invalidate_def Let_def)+

lemma secret_event_cluster_clean:
  "clean_at (cluster_key E c) (secret_event_cluster E c s)"
  "clean_at key s \<Longrightarrow> clean_at key (secret_event_cluster E c s)"
proof -
  define s1 where "s1 = cancelObservationLocked (cluster_key E c) s"
  obtain found u where g: "store_GetDeferred E (cluster_key E c) s1 = (found, u)" by fastforce
  define s2 where "s2 = (case found of
      Some snap \<Rightarrow> if sAvailable snap \<or> cServerCAPEM (sConnection snap) \<noteq> []
        then commit_unavailable E c ''connection_defaults_changed'' u else u
    | None \<Rightarrow> u)"
  have t: "secret_event_cluster E c s = notify_key E (cluster_key E c) s2"
    unfolding secret_event_cluster_def Let_def s1_def [symmetric] g prod.case s2_def ..
  have r: "case found of None \<Rightarrow> records (oStore u) (cluster_key E c) = None
      | Some snap \<Rightarrow> \<exists>r. records (oStore u) (cluster_key E c) = Some r \<and> snap = pSnapshot (rPublication r)"
    using GetDeferred_records(1) [of E "cluster_key E c" s1] unfolding g by (cases found) simp_all
  show "clean_at (cluster_key E c) (secret_event_cluster E c s)"
  proof (cases "found = None \<or> no_route_no_ca (the found)")
    case True
    then have "clean_at (cluster_key E c) u" "s2 = u"
      using r by (auto simp: clean_at_def no_route_no_ca_def s2_def split: option.splits)
    then show ?thesis by (simp add: t clean_frame)
  next
    case False
    then have "s2 = commit_unavailable E c ''connection_defaults_changed'' u" by (auto simp: s2_def no_route_no_ca_def)
    then show ?thesis by (simp add: t clean_frame commit_unavailable_clean(1))
  qed
  show "clean_at key (secret_event_cluster E c s)" if "clean_at key s"
  proof -
    have "clean_at key u" using GetDeferred_records(2) [of key s1 E "cluster_key E c"] that unfolding g by (simp add: s1_def clean_frame)
    then show ?thesis unfolding t s2_def clean_frame using commit_unavailable_clean(2) by (auto split: option.splits)
  qed
qed

lemma secret_event_cluster_supersedes:
  "oObservations (secret_event_cluster E c s) = oObservations s"
  "oSuperseded (secret_event_cluster E c s) = oSuperseded (cancelObservationLocked (cluster_key E c) s)"
  by (simp_all add: secret_event_cluster_def Let_def case_prod_beta frame_simps split: option.splits)

text \<open>
  C13: a rotated certificate authority withdraws every Cluster that uses it. When the metadata event of
  a Secret shows that the cached authority is no longer current, the authority is dropped, and for
  every enabled Cluster that refers to the Secret the stored snapshot offers no route and carries no
  authority, and its running collection is superseded. When the authority is current nothing changes.
\<close>

theorem rotation_withdraws_every_user:
  assumes "unwrap obj = Some (KSecret meta)" and "key = ClusterKey (metaNamespace meta) (metaName meta)"
  shows "(currentCA (oCAs s key) s \<longrightarrow> secretEvent E obj s = s) \<and>
    (\<not> currentCA (oCAs s key) s \<longrightarrow> oCAs (secretEvent E obj s) key = None \<and>
       (\<forall>c\<in>set (clustersUsingCA E key s). clean_at (cluster_key E c) (secretEvent E obj s) \<and>
          (\<forall>ctx. oObservations s (cluster_key E c) = Some ctx \<longrightarrow> ctx \<in> set (oSuperseded (secretEvent E obj s)))))"
proof (intro conjI impI)
  show "secretEvent E obj s = s" if "currentCA (oCAs s key) s" using that assms by (simp add: secretEvent_def)
  assume cur: "\<not> currentCA (oCAs s key) s"
  define s1 where "s1 = s\<lparr>oCAs := (oCAs s)(key := None)\<rparr>"
  define s2 where "s2 = (case oCAReads s1 key of None \<Rightarrow> s1 | Some ctx \<Rightarrow> s1\<lparr>oCACancelled := ctx # oCACancelled s1\<rparr>)"
  define s3 where "s3 = (if flagged (oCAPending s2 key) then s2\<lparr>oCAQueue := oCAQueue s2 @ [CAAdd key]\<rparr> else s2)"
  have t: "secretEvent E obj s = fold (secret_event_cluster E) (clustersUsingCA E key s3) s3"
    unfolding secretEvent_def assms(1) option.case kobj.case Let_def assms(2) [symmetric] s1_def [symmetric] s2_def [symmetric]
      s3_def [symmetric] using cur by simp
  have s3: "oObservations s3 = oObservations s" "oClusters s3 = oClusters s" "oCAs s3 key = None"
    by (simp_all add: s3_def s2_def s1_def split: option.splits)
  have users: "clustersUsingCA E key s3 = clustersUsingCA E key s" by (simp add: clustersUsingCA_def s3)
  have ca: "oCAs (fold (secret_event_cluster E) cs u) key = oCAs u key" for cs u
    by (induction cs arbitrary: u) (simp_all add: secret_event_cluster_def Let_def case_prod_beta frame_simps split: option.splits)
  show "oCAs (secretEvent E obj s) key = None" unfolding t ca by (rule s3(3))
  let ?f = "secret_event_cluster E" and ?I = "\<lambda>u. oObservations u = oObservations s"
  let ?P = "\<lambda>c u. clean_at (cluster_key E c) u \<and>
    (\<forall>ctx. oObservations s (cluster_key E c) = Some ctx \<longrightarrow> ctx \<in> set (oSuperseded u))"
  have now: "?I (?f c u) \<and> ?P c (?f c u)" if "?I u" for c u
    using that cancel_superseded(2) [of u] by (simp add: secret_event_cluster_clean(1) secret_event_cluster_supersedes)
  have later: "?P c (?f d u)" if "?P c u" for c d u
    using that secret_event_cluster_clean(2) cancel_superseded(1) [where s = u]
    unfolding secret_event_cluster_supersedes by blast
  show "\<forall>c\<in>set (clustersUsingCA E key s). ?P c (secretEvent E obj s)"
    unfolding t users using now later s3(1) by (intro ballI fold_establishes [where I = ?I and P = ?P]) blast+
qed

section \<open>The schedule of background requests\<close>

text \<open>The instants at which the cooldown lets a request for \<open>key\<close> through, over a sequence of requests.\<close>

fun demand_grants :: "'d oenv \<Rightarrow> clusterKey \<Rightarrow> (clusterKey \<rightharpoonup> time) \<Rightarrow> (time \<times> clusterKey) list \<Rightarrow> time list" where
  "demand_grants E key m [] = []"
| "demand_grants E key m ((now, k) # reqs) =
     (case demand_slot E now k m of
        (wait, m') \<Rightarrow> (if k = key \<and> wait = None then [now] else []) @ demand_grants E key m' reqs)"

lemma demand_grants_after:
  assumes "m key = Some deadline" and "0 \<le> optPollInterval (opts E)" and "t \<in> set (demand_grants E key m reqs)"
  shows "deadline \<le> t"
  using assms
proof (induction reqs arbitrary: m deadline)
  case (Cons req reqs)
  obtain now k where req: "req = (now, k)" by fastforce
  obtain wait m' where slot: "demand_slot E now k m = (wait, m')" by fastforce
  show ?case
  proof (cases "k = key \<and> wait = None")
    case True
    then have "deadline \<le> now" "m' key = Some (now + optPollInterval (opts E))"
      using slot Cons.prems(1) by (auto simp: demand_slot_def split: if_splits)
    with Cons True req slot show ?thesis by fastforce
  next
    case False
    then have "m' key = Some deadline" using slot Cons.prems(1) by (auto simp: demand_slot_def split: option.splits if_splits)
    with Cons False req slot show ?thesis by auto
  qed
qed simp

text \<open>
  Reconnecting clients cannot turn the poll interval into continuous probing: whatever sequence of
  requests arrives for whatever clusters, the ones that are let through at once for one cluster are at
  least a poll interval apart.
\<close>

theorem demand_grants_spaced:
  assumes "0 \<le> optPollInterval (opts E)"
  shows "sorted_wrt (\<lambda>a b. a + optPollInterval (opts E) \<le> b) (demand_grants E key m reqs)"
proof (induction reqs arbitrary: m)
  case (Cons req reqs)
  obtain now k where req: "req = (now, k)" by fastforce
  obtain wait m' where slot: "demand_slot E now k m = (wait, m')" by fastforce
  have "m' key = Some (now + optPollInterval (opts E))" if "k = key" "wait = None"
    using slot that by (auto simp: demand_slot_def split: option.splits if_splits)
  then show ?case using Cons.IH req slot demand_grants_after [OF _ assms] by auto
qed simp

text \<open>
  A request is never dropped. A request for a demanded cluster that the cache knows is in the queue
  afterwards, promoted first when it is urgent; a background request within the cooldown
  is handed to the delayed queue with the time that is left of it, which is positive. A request for a
  cluster that nobody asks for, or that the cache does not know, schedules nothing.
\<close>

theorem request_scheduled:
  assumes "ns \<noteq> []" and "name \<noteq> []" and "optNamespace (opts E) = [] \<or> optNamespace (opts E) = ns"
    and "key = ClusterKey ns name" and "t = enqueue E ns name isUrgent s"
  shows "(\<not> fst (store_HasDemand E key s) \<or> map_of (oClusters s) (ns @ ''/'' @ name) = None \<longrightarrow>
      oQueue t = oQueue s \<and> oRequeue t = oRequeue s) \<and>
    (fst (store_HasDemand E key s) \<and> map_of (oClusters s) (ns @ ''/'' @ name) \<noteq> None \<longrightarrow>
      (if isUrgent then oQueue t = Add key (promote key (oQueue s)) \<and> oRequeue t = oRequeue s
       else (oQueue t = Add key (oQueue s) \<and> oRequeue t = oRequeue s) \<or>
            (\<exists>d > 0. oQueue t = oQueue s \<and> oRequeue t = oRequeue s @ [AddAfter key d])))"
proof -
  have frame: "oQueue (snd (store_HasDemand E key s)) = oQueue s" "oRequeue (snd (store_HasDemand E key s)) = oRequeue s"
    "oClusters (snd (store_HasDemand E key s)) = oClusters s" "oQueue (snd (Now E u)) = oQueue u" "oRequeue (snd (Now E u)) = oRequeue u" for u
    by (simp_all add: store_HasDemand_def Now_def case_prod_beta Let_def)
  obtain b u where h: "store_HasDemand E key s = (b, u)" by fastforce
  obtain now v where n: "Now E u = (now, v)" by fastforce
  obtain wait m where d: "demand_slot E now key (oDemandNext v) = (wait, m)" by fastforce
  have w: "\<forall>x. wait = Some x \<longrightarrow> 0 < x" using d by (auto simp: demand_slot_def split: option.splits if_splits)
  have uv: "oQueue u = oQueue s" "oRequeue u = oRequeue s" "oClusters u = oClusters s" "oQueue v = oQueue s" "oRequeue v = oRequeue s"
    using frame frame(4,5) [of u] by (simp_all add: h n)
  show ?thesis
    unfolding assms(5) enqueue_def using assms(1-3) w
    by (auto simp: assms(4) [symmetric] Let_def h n d uv queue_Add_def split: option.splits)
qed

section \<open>Concrete events\<close>

text \<open>
  The observer of the sample run after it has published: a collection for the cluster is running, and
  the cluster's certificate authority is the one of the sample Secret.
\<close>

type_synonym sample_observer_state = "(bool \<times> string \<times> (string \<times> bool) list) observer"

definition secured_cluster :: gomap where
  "secured_cluster = fmap_of_list
     [(''metadata'', AMap (fmap_of_list [(''namespace'', AString ''db''), (''name'', AString ''app''), (''uid'', AString ''u1'')])),
      (''status'', AMap (fmap_of_list [(''currentPrimary'', AString ''p1''), (''targetPrimary'', AString ''p1''),
         (''certificates'', AMap (fmap_of_list [(''serverCASecret'', AString ''ca'')]))]))]"

definition busy :: sample_observer_state where
  "busy = sample_published\<lparr>oObservations := [app_key \<mapsto> 5], oClusters := [(''db/app'', secured_cluster)]\<rparr>"

definition followed :: sample_observer_state where
  "followed = busy\<lparr>oStore := (oStore busy)\<lparr>subscribers := (subscribers (oStore busy))(app_key \<mapsto> [0])\<rparr>\<rparr>"

definition stored :: "sample_observer_state \<Rightarrow> v1_Snapshot" where
  "stored s = pSnapshot (rPublication (the (records (oStore s) app_key)))"

lemma stored_eq: "records (oStore s) app_key = Some r \<Longrightarrow> stored s = pSnapshot (rPublication r)"
  by (simp add: stored_def)

definition sample_obj :: "string \<Rightarrow> kobj option" where
  "sample_obj primary = Some (KCluster (sample_cluster primary primary))"

lemma route_change_witness_facts:
  "cachedCluster (sample_obj ''p1'') = Some (sample_cluster ''p1'' ''p1'')"
  "cachedCluster (sample_obj ''p2'') = Some (sample_cluster ''p2'' ''p2'')"
  "\<not> sameClusterRoute (api sample_env) (sample_cluster ''p1'' ''p1'') (sample_cluster ''p2'' ''p2'')"
  "cluster_key sample_env (sample_cluster ''p2'' ''p2'') = app_key"
  "fst (parameters (api sample_env) (sample_cluster ''p2'' ''p2''))"
  "GetDeletionTimestamp (api sample_env) (sample_cluster ''p2'' ''p2'') = None"
  "cluster app_key followed \<noteq> None" "\<not> shuttingDown (oQueue followed)"
  by (simp add: cachedCluster_def sample_obj_def unwrap_def, simp add: cachedCluster_def sample_obj_def unwrap_def, code_simp+)

theorem route_change_withdraws_witness:
  "5 \<in> set (oSuperseded (clusterEvent sample_env (sample_obj ''p1'') (sample_obj ''p2'') followed)) \<and> sAvailable (stored followed) \<and>
   withdrawn (stored (clusterEvent sample_env (sample_obj ''p1'') (sample_obj ''p2'') followed)) \<and>
   urgently_queued app_key (oQueue (clusterEvent sample_env (sample_obj ''p1'') (sample_obj ''p2'') followed))"
proof -
  have "sAvailable (stored followed)" by code_simp
  moreover have "oObservations followed app_key = Some 5" by (simp add: followed_def busy_def)
  moreover have "demanded sample_env app_key n followed" for n by (simp add: demanded_def followed_def watchers_of_def)
  moreover have "ck_namespace app_key \<noteq> []" "ck_name app_key \<noteq> []" "optNamespace (opts sample_env) \<in> {[], ck_namespace app_key}"
    by (simp_all add: app_key_def sample_env_def sample_options_def)
  ultimately show ?thesis
    using route_change_withdraws [OF route_change_witness_facts(1-3) refl refl, of followed] route_change_witness_facts(4-8) stored_eq
    by auto
qed

definition superseded :: sample_observer_state where "superseded = busy\<lparr>oSuperseded := [5]\<rparr>"

definition late :: "nat \<Rightarrow> sample_observer_state \<Rightarrow> (bool \<times> sample_observer_state) option" where
  "late ctx s = publishObservation sample_env ctx app_key secured_cluster sample_pods sample_results
     zero_Parameters sample_connection 100 s"

theorem superseded_never_publishes_witness:
  "oStore (snd (the (late 5 superseded))) = oStore superseded \<and> oOut (snd (the (late 5 superseded))) = oOut superseded \<and>
   records (oStore (snd (the (late 5 (superseded\<lparr>oClusters := []\<rparr>))))) app_key = None \<and>
   publishFailure sample_env 5 app_key ''status_unavailable'' superseded = superseded"
proof -
  have "late 5 superseded \<noteq> None" "late 5 (superseded\<lparr>oClusters := []\<rparr>) \<noteq> None" by code_simp+
  then obtain b t b' t' where t: "late 5 superseded = Some (b, t)" "late 5 (superseded\<lparr>oClusters := []\<rparr>) = Some (b', t')"
    by (metis option.exhaust surj_pair)
  have over: "ctx_done 5 superseded" "ctx_done 5 (superseded\<lparr>oClusters := []\<rparr>)" by (simp_all add: ctx_done_def superseded_def)
  have live: "cluster app_key superseded = Some secured_cluster" "fst (parameters (api sample_env) secured_cluster)"
    "GetDeletionTimestamp (api sample_env) secured_cluster = None" by code_simp+
  have gone: "b'" using t(2) by (simp add: late_def publishObservation_def cluster_def)
  note claim = superseded_never_publishes [of 5 _ sample_env app_key "''status_unavailable''" secured_cluster sample_pods sample_results
    zero_Parameters sample_connection 100, folded late_def]
  have "oStore t = oStore superseded" "oOut t = oOut superseded" "publishFailure sample_env 5 app_key ''status_unavailable'' superseded = superseded"
    using claim [OF over(1)] t(1) live by auto
  moreover have "records (oStore t') app_key = None" using claim [OF over(2)] t(2) gone by auto
  ultimately show ?thesis by (simp add: t)
qed

definition fresh :: sample_observer_state where "fresh = sample_observer secured_cluster"

theorem publication_requires_currency_witness:
  "Ready fresh \<and> currentCA (ciCA sample_connection) fresh \<and> sAvailable (stored (snd (the (late 5 fresh)))) \<and>
   sConnection (stored (snd (the (late 5 fresh)))) = ciParameters sample_connection"
proof -
  have "late 5 fresh \<noteq> None" by code_simp
  then obtain b t where t: "late 5 fresh = Some (b, t)" by (metis option.exhaust surj_pair)
  have av: "sAvailable (stored (snd (the (late 5 fresh))))" by code_simp
  have "records (oStore (snd (the (late 5 fresh)))) app_key \<noteq> None" by code_simp
  then obtain r where r: "records (oStore t) app_key = Some r" by (auto simp: t)
  have "\<not> withdrawn (pSnapshot (rPublication r))" using av by (simp add: t stored_eq [OF r] withdrawn_def)
  moreover have "records (oStore fresh) app_key = None" by code_simp
  ultimately obtain snap where "Ready fresh" "currentCA (ciCA sample_connection) fresh"
    "pSnapshot (rPublication r) = snap\<lparr>sConnection := ciParameters sample_connection, sAPIVersion := APIVersion,
      sRevision := sRevision (pSnapshot (rPublication r))\<rparr>"
    using publication_requires_currency [OF t [unfolded late_def] r] by auto
  moreover from arg_cong [OF this(3), of sConnection] have "sConnection (pSnapshot (rPublication r)) = ciParameters sample_connection" by simp
  ultimately show ?thesis using av by (simp add: t stored_eq [OF r])
qed

definition other_obj :: "kobj option" where
  "other_obj = Some (KTombstone (KCluster (fmap_of_list
     [(''metadata'', AMap (fmap_of_list [(''namespace'', AString ''db''), (''name'', AString ''app''), (''uid'', AString ''u0'')]))])))"

theorem tombstone_spares_successor_witness:
  "clusterDeleted sample_env other_obj busy = busy \<and>
   records (oStore (clusterDeleted sample_env (Some (KCluster secured_cluster)) busy)) app_key = None"
proof -
  let ?old = "fmap_of_list
     [(''metadata'', AMap (fmap_of_list [(''namespace'', AString ''db''), (''name'', AString ''app''), (''uid'', AString ''u0'')]))]"
  have 1: "cachedCluster other_obj = Some ?old" "cachedCluster (Some (KCluster secured_cluster)) = Some secured_cluster"
    by (simp_all add: cachedCluster_def other_obj_def unwrap_def)
  have 2: "cluster_key sample_env ?old = app_key" "cluster_key sample_env secured_cluster = app_key"
    "cluster app_key busy = Some secured_cluster" "GetUID (api sample_env) secured_cluster = ''u1''" "GetUID (api sample_env) ?old = ''u0''"
    by (code_simp, code_simp, simp add: cluster_def busy_def app_key_def clusterKey_String_def, code_simp, code_simp)
  show ?thesis
    using tombstone_spares_successor [OF 1(1), of sample_env busy] tombstone_spares_successor [OF 1(2), of sample_env busy] 2 by simp
qed

lemma pod_change_witness_facts:
  "cachedPod (Some (KPod (sample_pod n))) = Some (sample_pod n)" "cachedPod None = None"
  "cluster app_key busy = Some secured_cluster"
  "cluster_key sample_env secured_cluster = app_key" "fst (primaryNames (api sample_env) secured_cluster) = ''p1''"
  "set (event_keys False (Some (sample_pod ''p1'')) None) = {app_key}" "set (event_keys False (Some (sample_pod ''p2'')) None) = {app_key}"
  by (simp add: cachedPod_def unwrap_def, simp add: cachedPod_def unwrap_def,
      simp add: cluster_def busy_def app_key_def clusterKey_String_def, code_simp+)

theorem pod_change_withdraws_witness:
  "withdrawn (stored (podEvent sample_env False (Some (KPod (sample_pod ''p1''))) None busy)) \<and>
   map mReady (sMembers (stored busy)) = [True, True, False] \<and>
   map mReady (sMembers (stored (podEvent sample_env False (Some (KPod (sample_pod ''p2''))) None busy))) = [True, False, False] \<and>
   sValidUntil (stored (podEvent sample_env False (Some (KPod (sample_pod ''p2''))) None busy)) = sValidUntil (stored busy)"
proof (intro conjI)
  note facts = pod_change_witness_facts
  have n: "podName (sample_pod n) = n" for n by (simp add: sample_pod_def)
  have none: "\<forall>new. cachedPod None = Some new \<longrightarrow> \<not> samePodRoute p new" for p by (simp add: facts(2))
  note use = pod_change_withdraws [OF facts(1) none _ facts(3,4), unfolded facts(2) facts(5) n]
  obtain r where "records (oStore (podEvent sample_env False (Some (KPod (sample_pod ''p1''))) None busy)) app_key = Some r"
    "withdrawn (pSnapshot (rPublication r))"
    using use [OF facts(6)] by blast
  then show "withdrawn (stored (podEvent sample_env False (Some (KPod (sample_pod ''p1''))) None busy))"
    by (simp add: stored_def)
  let ?t = "podEvent sample_env False (Some (KPod (sample_pod ''p2''))) None busy"
  have "records (oStore busy) app_key \<noteq> None" "records (oStore ?t) app_key \<noteq> None" by code_simp+
  then obtain r r' where r: "records (oStore busy) app_key = Some r" "records (oStore ?t) app_key = Some r'" by blast
  have "snapshot_key (stored busy) = app_key" "rUID (sCluster (stored busy)) = GetUID (api sample_env) secured_cluster" by code_simp+
  then show "sValidUntil (stored ?t) = sValidUntil (stored busy)"
    using use [OF facts(7)] r by (simp add: stored_def)
qed code_simp+

definition rotated :: sample_observer_state where
  "rotated = busy\<lparr>oSecrets := [''db/ca'' \<mapsto> \<lparr>metaNamespace = ''db'', metaName = ''ca'', metaUID = ''s1'', metaResourceVersion = ''8''\<rparr>]\<rparr>"

definition ca_meta :: secretMeta where
  "ca_meta = \<lparr>metaNamespace = ''db'', metaName = ''ca'', metaUID = ''s1'', metaResourceVersion = ''8''\<rparr>"

definition ca_obj :: "kobj option" where
  "ca_obj = Some (KSecret ca_meta)"

theorem rotation_withdraws_every_user_witness:
  "oCAs (secretEvent sample_env ca_obj rotated) (ClusterKey ''db'' ''ca'') = None \<and> sAvailable (stored rotated) \<and>
   \<not> sAvailable (stored (secretEvent sample_env ca_obj rotated)) \<and> 5 \<in> set (oSuperseded (secretEvent sample_env ca_obj rotated))"
proof -
  let ?key = "ClusterKey ''db'' ''ca''" and ?t = "secretEvent sample_env ca_obj rotated"
  have "\<not> currentCA (oCAs rotated ?key) rotated" "secured_cluster \<in> set (clustersUsingCA sample_env ?key rotated)"
    "cluster_key sample_env secured_cluster = app_key" "sAvailable (stored rotated)" by code_simp+
  moreover have "records (oStore ?t) app_key \<noteq> None" by code_simp
  then obtain r where "records (oStore ?t) app_key = Some r" by blast
  moreover have "oObservations rotated app_key = Some 5" by (simp add: rotated_def busy_def)
  ultimately show ?thesis
    using rotation_withdraws_every_user [of ca_obj ca_meta ?key rotated sample_env] stored_eq
    by (auto simp: ca_obj_def ca_meta_def unwrap_def clean_at_def no_route_no_ca_def)
qed

definition wanted :: sample_observer_state where
  "wanted = busy\<lparr>oStore := (oStore busy)\<lparr>unaryDemand := [app_key \<mapsto> 200]\<rparr>, oDemandNext := [app_key \<mapsto> 103]\<rparr>"

theorem request_scheduled_witness:
  "(oQueue (enqueue sample_env ''db'' ''app'' True wanted) = Add app_key (promote app_key (oQueue wanted))) \<and>
   oRequeue (enqueue sample_env ''db'' ''app'' True wanted) = oRequeue wanted \<and>
   oRequeue (enqueue sample_env ''db'' ''app'' False wanted) = [AddAfter app_key 3]"
proof -
  have "fst (store_HasDemand sample_env app_key wanted)" by code_simp
  moreover have "map_of (oClusters wanted) (''db'' @ ''/'' @ ''app'') \<noteq> None" by (simp add: wanted_def busy_def)
  moreover have "optNamespace (opts sample_env) = []" "app_key = ClusterKey ''db'' ''app''" by (code_simp, simp add: app_key_def)
  moreover have "oRequeue (enqueue sample_env ''db'' ''app'' False wanted) = [AddAfter app_key 3]" by code_simp
  ultimately show ?thesis
    using request_scheduled [of "''db''" "''app''" sample_env app_key "enqueue sample_env ''db'' ''app'' True wanted" True wanted] by simp
qed

theorem demand_grants_spaced_witness:
  "demand_grants sample_env app_key Map.empty [(0, app_key), (3, app_key), (6, app_key), (10, app_key), (12, app_key)] = [0, 6, 12] \<and>
   sorted_wrt (\<lambda>a b. a + optPollInterval (opts sample_env) \<le> b)
     (demand_grants sample_env app_key Map.empty [(0, app_key), (3, app_key), (6, app_key), (10, app_key), (12, app_key)])"
proof -
  have "0 \<le> optPollInterval (opts sample_env)" by code_simp
  moreover have "demand_grants sample_env app_key Map.empty [(0, app_key), (3, app_key), (6, app_key), (10, app_key), (12, app_key)] = [0, 6, 12]"
    by code_simp
  ultimately show ?thesis using demand_grants_spaced by blast
qed

end
