(* ===== verification/Slots.thy ===== *)
theory Slots
  imports Prelude
begin

text \<open>
  Counting semaphores. The program bounds concurrency with buffered channels of empty structs: a send
  takes a slot, a receive gives it back. The contract of such a semaphore is a locale; the admission
  of RPCs and the probe slots of the observer are its clients. A client keeps one entry per holder,
  so its invariant says that the used slots are exactly the entries that hold one.
\<close>

section \<open>The contract\<close>

locale semaphore =
  fixes capacity :: "'s \<Rightarrow> nat" and used :: "'s \<Rightarrow> nat" and acquire :: "'s \<Rightarrow> 's option" and release :: "'s \<Rightarrow> 's option"
  assumes acquire_None: "acquire s = None \<longleftrightarrow> capacity s \<le> used s"
    and acquire_Some: "acquire s = Some t \<Longrightarrow> used t = Suc (used s) \<and> capacity t = capacity s"
    and release_None: "release s = None \<longleftrightarrow> used s = 0"
    and release_Some: "release s = Some t \<Longrightarrow> Suc (used t) = used s \<and> capacity t = capacity s"
begin

text \<open>\<open>accounts s n\<close>: the semaphore is held exactly \<open>n\<close> times, within its capacity.\<close>

definition accounts :: "'s \<Rightarrow> nat \<Rightarrow> bool" where
  "accounts s n \<longleftrightarrow> used s = n \<and> n \<le> capacity s"

lemma accounts_acquire: "accounts s n \<Longrightarrow> acquire s = Some t \<Longrightarrow> accounts t (Suc n)"
  using acquire_Some [of s t] acquire_None [of s] by (auto simp: accounts_def)

lemma accounts_release: "accounts s (Suc n) \<Longrightarrow> release s = Some t \<Longrightarrow> accounts t n"
  using release_Some [of s t] by (auto simp: accounts_def)

lemma release_possible: "accounts s n \<Longrightarrow> 0 < n \<Longrightarrow> release s \<noteq> None"
  by (simp add: accounts_def release_None)

lemma acquire_possible: "accounts s n \<Longrightarrow> n < capacity s \<Longrightarrow> acquire s \<noteq> None"
  by (simp add: accounts_def acquire_None)

lemma acquire_release: "acquire s = Some t \<Longrightarrow> \<exists>u. release t = Some u \<and> used u = used s \<and> capacity u = capacity s"
  using acquire_Some [of s t] release_None [of t] release_Some [of t] by fastforce

end

section \<open>Channels of empty structs\<close>

record slots =
  slotCap :: nat
  slotUsed :: nat

text \<open>
  \<open>make(chan struct{}, n)\<close>; the callers pass a positive \<open>n\<close>. \<open>trySend\<close> is a send inside a \<open>select\<close> with a
  default branch (\<open>None\<close>: the channel is full); \<open>receive\<close> is a plain receive (\<open>None\<close>: it would block).
\<close>

definition make_slots :: "int \<Rightarrow> slots" where
  "make_slots n = \<lparr>slotCap = nat n, slotUsed = 0\<rparr>"

definition trySend :: "slots \<Rightarrow> slots option" where
  "trySend s = (if slotUsed s < slotCap s then Some (s\<lparr>slotUsed := Suc (slotUsed s)\<rparr>) else None)"

definition receive :: "slots \<Rightarrow> slots option" where
  "receive s = (case slotUsed s of 0 \<Rightarrow> None | Suc n \<Rightarrow> Some (s\<lparr>slotUsed := n\<rparr>))"

interpretation chan: semaphore slotCap slotUsed trySend receive
  by unfold_locales (auto simp: trySend_def receive_def split: if_splits nat.splits)

lemma trySend_receive: "trySend s = Some t \<Longrightarrow> receive t = Some s"
  by (auto simp: trySend_def receive_def split: if_splits)

lemma cap_frame: "trySend s = Some t \<Longrightarrow> slotCap t = slotCap s" "receive s = Some t \<Longrightarrow> slotCap t = slotCap s"
  using chan.acquire_Some chan.release_Some by blast+

section \<open>Counting holders\<close>

definition holders :: "('a \<Rightarrow> bool) \<Rightarrow> 'a list \<Rightarrow> nat" where
  "holders P xs = length (filter P xs)"

lemma holders_append [simp]: "holders P (xs @ [x]) = holders P xs + (if P x then 1 else 0)"
  by (simp add: holders_def)

lemma holders_Nil [simp]: "holders P [] = 0" by (simp add: holders_def)

lemma holders_update:
  "i < length xs \<Longrightarrow> holders P (xs[i := v]) + (if P (xs ! i) then 1 else 0) = holders P xs + (if P v then 1 else 0)"
proof (induction xs arbitrary: i)
  case (Cons x xs)
  then show ?case using Cons.IH [of "i - 1"] by (cases i) (auto simp: holders_def)
qed simp

lemma holders_pos: "i < length xs \<Longrightarrow> P (xs ! i) \<Longrightarrow> 0 < holders P xs"
  by (auto simp: holders_def filter_empty_conv)

lemma holders_map: "(\<And>x. P (f x) = P x) \<Longrightarrow> holders P (map f xs) = holders P xs"
  by (simp add: holders_def filter_map comp_def)

lemma holders_split: "(\<And>x. x \<in> set xs \<Longrightarrow> P x \<longleftrightarrow> Q x \<or> R x) \<Longrightarrow> (\<And>x. x \<in> set xs \<Longrightarrow> \<not> (Q x \<and> R x)) \<Longrightarrow>
    holders P xs = holders Q xs + holders R xs"
  by (induction xs) (auto simp: holders_def)

lemma holders_mono: "(\<And>x. P x \<Longrightarrow> Q x) \<Longrightarrow> holders P xs \<le> holders Q xs"
  by (induction xs) (auto simp: holders_def)

end
