(* ===== verification/Probes.thy ===== *)
theory Probes
  imports Slots
begin

text \<open>
  Probe slots, \<open>internal/observer/work.go\<close>: the capacity that is kept for urgent work, the two
  semaphores, and \<open>acquireProbe\<close> with the release function it returns. The call may wait twice and may
  be cancelled while it waits, so it is a state machine per call; all calls run interleaved.
\<close>

section \<open>Capacity\<close>

definition reservedCapacity :: "int \<Rightarrow> int" where
  "reservedCapacity limit = (if limit < 2 then 0 else max 1 (limit div 8))"

text \<open>The two channels and the two counters of \<open>acquireProbe\<close>.\<close>

record probe_slots =
  probeSlots :: slots
  backgroundProbeSlots :: slots
  probeSaturation :: nat
  probeCancellations :: nat

definition configureProbeLimits :: "int \<Rightarrow> probe_slots" where
  "configureProbeLimits maxConcurrency =
     \<lparr>probeSlots = make_slots maxConcurrency,
      backgroundProbeSlots = make_slots (maxConcurrency - reservedCapacity maxConcurrency),
      probeSaturation = 0, probeCancellations = 0\<rparr>"

section \<open>acquireProbe\<close>

text \<open>
  Where a call is: at the first or the blocking send to the background slots, at the first or the
  blocking send to the probe slots, past its return with the slots held, or over. The flag is
  \<open>urgent\<close>.
\<close>

datatype probe = TryBackground | WaitBackground | TryProbe bool | WaitProbe bool | Holding bool | Over

definition acquire_start :: "bool \<Rightarrow> bool \<Rightarrow> probe_slots \<Rightarrow> probe \<times> probe_slots" where
  "acquire_start ctxErr isUrgent ps =
     (if ctxErr then (Over, ps\<lparr>probeCancellations := Suc (probeCancellations ps)\<rparr>)
      else (if isUrgent then TryProbe True else TryBackground, ps))"

definition saturated :: "probe_slots \<Rightarrow> probe_slots" where
  "saturated ps = ps\<lparr>probeSaturation := Suc (probeSaturation ps)\<rparr>"

text \<open>The next send of a call; \<open>None\<close>: it is blocked, or the call has nothing to send.\<close>

fun acquire_send :: "probe \<Rightarrow> probe_slots \<Rightarrow> (probe \<times> probe_slots) option" where
  "acquire_send TryBackground ps =
     (case trySend (backgroundProbeSlots ps) of
        Some bg \<Rightarrow> Some (TryProbe False, ps\<lparr>backgroundProbeSlots := bg\<rparr>)
      | None \<Rightarrow> Some (WaitBackground, saturated ps))"
| "acquire_send WaitBackground ps =
     map_option (\<lambda>bg. (TryProbe False, ps\<lparr>backgroundProbeSlots := bg\<rparr>)) (trySend (backgroundProbeSlots ps))"
| "acquire_send (TryProbe isUrgent) ps =
     (case trySend (probeSlots ps) of
        Some p \<Rightarrow> Some (Holding isUrgent, ps\<lparr>probeSlots := p\<rparr>)
      | None \<Rightarrow> Some (WaitProbe isUrgent, saturated ps))"
| "acquire_send (WaitProbe isUrgent) ps =
     map_option (\<lambda>p. (Holding isUrgent, ps\<lparr>probeSlots := p\<rparr>)) (trySend (probeSlots ps))"
| "acquire_send _ ps = None"

definition release_background :: "bool \<Rightarrow> probe_slots \<Rightarrow> probe_slots option" where
  "release_background isUrgent ps =
     (if isUrgent then Some ps
      else map_option (\<lambda>bg. ps\<lparr>backgroundProbeSlots := bg\<rparr>) (receive (backgroundProbeSlots ps)))"

definition cancelled_probe :: "probe_slots \<Rightarrow> probe \<times> probe_slots" where
  "cancelled_probe ps = (Over, ps\<lparr>probeCancellations := Suc (probeCancellations ps)\<rparr>)"

text \<open>The \<open>ctx.Done\<close> branch of a blocking send; \<open>None\<close>: there is none, or giving back would block.\<close>

fun acquire_cancel :: "probe \<Rightarrow> probe_slots \<Rightarrow> (probe \<times> probe_slots) option" where
  "acquire_cancel WaitBackground ps = Some (cancelled_probe ps)"
| "acquire_cancel (WaitProbe isUrgent) ps = map_option cancelled_probe (release_background isUrgent ps)"
| "acquire_cancel _ ps = None"

text \<open>The returned release function; its two receives, from channels that hold a token each, are one step.\<close>

definition release :: "bool \<Rightarrow> probe_slots \<Rightarrow> probe_slots option" where
  "release isUrgent ps =
     (case receive (probeSlots ps) of None \<Rightarrow> None | Some p \<Rightarrow> release_background isUrgent (ps\<lparr>probeSlots := p\<rparr>))"

section \<open>All calls together\<close>

inductive probe_step :: "probe_slots \<times> probe list \<Rightarrow> probe_slots \<times> probe list \<Rightarrow> bool" where
  start: "acquire_start ctxErr isUrgent ps = (p, ps') \<Longrightarrow> probe_step (ps, xs) (ps', xs @ [p])"
| send: "i < length xs \<Longrightarrow> acquire_send (xs ! i) ps = Some (p, ps') \<Longrightarrow> probe_step (ps, xs) (ps', xs[i := p])"
| cancel: "i < length xs \<Longrightarrow> acquire_cancel (xs ! i) ps = Some (p, ps') \<Longrightarrow> probe_step (ps, xs) (ps', xs[i := p])"
| release: "i < length xs \<Longrightarrow> xs ! i = Holding isUrgent \<Longrightarrow> release isUrgent ps = Some ps' \<Longrightarrow> probe_step (ps, xs) (ps', xs[i := Over])"

inductive probe_reach :: "int \<Rightarrow> probe_slots \<times> probe list \<Rightarrow> bool" for limit where
  start: "probe_reach limit (configureProbeLimits limit, [])"
| step: "probe_reach limit \<sigma> \<Longrightarrow> probe_step \<sigma> \<tau> \<Longrightarrow> probe_reach limit \<tau>"

fun holds_probe :: "probe \<Rightarrow> bool" where
  "holds_probe (Holding _) = True"
| "holds_probe _ = False"

fun holds_background :: "probe \<Rightarrow> bool" where
  "holds_background (TryProbe u) = (\<not> u)"
| "holds_background (WaitProbe u) = (\<not> u)"
| "holds_background (Holding u) = (\<not> u)"
| "holds_background _ = False"

definition probe_inv :: "int \<Rightarrow> probe_slots \<times> probe list \<Rightarrow> bool" where
  "probe_inv limit \<sigma> \<longleftrightarrow> (case \<sigma> of (ps, xs) \<Rightarrow>
     chan.accounts (probeSlots ps) (holders holds_probe xs) \<and> chan.accounts (backgroundProbeSlots ps) (holders holds_background xs) \<and>
     slotCap (probeSlots ps) = nat limit \<and> slotCap (backgroundProbeSlots ps) = nat (limit - reservedCapacity limit))"

section \<open>Proofs\<close>

lemma reservedCapacity_bounds:
  "1 \<le> limit \<Longrightarrow> 0 \<le> reservedCapacity limit \<and> reservedCapacity limit < limit"
  "2 \<le> limit \<Longrightarrow> 1 \<le> reservedCapacity limit"
  by (auto simp: reservedCapacity_def)

text \<open>
  What one transition of a call does to the slots: an entry changes from \<open>q\<close> to \<open>p\<close>, and each semaphore
  follows exactly what the entry holds.
\<close>

definition slot_moves :: "bool \<Rightarrow> bool \<Rightarrow> slots \<Rightarrow> slots \<Rightarrow> bool" where
  "slot_moves before after s t \<longleftrightarrow>
     (if before = after then t = s else if after then trySend s = Some t else Slots.receive s = Some t)"

definition moves :: "probe \<Rightarrow> probe \<Rightarrow> probe_slots \<Rightarrow> probe_slots \<Rightarrow> bool" where
  "moves q p ps ps' \<longleftrightarrow> slot_moves (holds_probe q) (holds_probe p) (probeSlots ps) (probeSlots ps') \<and>
     slot_moves (holds_background q) (holds_background p) (backgroundProbeSlots ps) (backgroundProbeSlots ps')"

lemma acquire_start_moves: "acquire_start e u ps = (p, ps') \<Longrightarrow> moves Over p ps ps'"
  by (auto simp: acquire_start_def moves_def slot_moves_def split: if_splits)

lemma acquire_send_moves: "acquire_send q ps = Some (p, ps') \<Longrightarrow> moves q p ps ps'"
  by (cases q) (auto simp: moves_def slot_moves_def saturated_def split: option.splits)

lemma acquire_cancel_moves: "acquire_cancel q ps = Some (p, ps') \<Longrightarrow> moves q p ps ps'"
  by (cases q) (auto simp: moves_def slot_moves_def cancelled_probe_def release_background_def split: if_splits)

lemma release_moves: "release u ps = Some ps' \<Longrightarrow> moves (Holding u) Over ps ps'"
  by (auto simp: release_def moves_def slot_moves_def release_background_def split: option.splits if_splits)

lemma slot_moves_accounts:
  assumes "slot_moves (P (xs ! i)) (P p) s t" and "i < length xs" and "chan.accounts s (holders P xs)"
  shows "chan.accounts t (holders P (xs[i := p])) \<and> slotCap t = slotCap s"
  using assms holders_update [OF assms(2), of P p] cap_frame chan.accounts_acquire [of s "holders P xs" t]
    chan.accounts_release [of s "holders P (xs[i := p])" t]
  by (auto simp: slot_moves_def split: if_splits)

lemma moves_inv:
  assumes "moves (xs ! i) p ps ps'" and "i < length xs" and "probe_inv limit (ps, xs)"
  shows "probe_inv limit (ps', xs[i := p])"
  using assms slot_moves_accounts [OF _ assms(2)] by (auto simp: moves_def probe_inv_def)

lemma probe_step_inv: "probe_step \<sigma> \<tau> \<Longrightarrow> probe_inv limit \<sigma> \<Longrightarrow> probe_inv limit \<tau>"
proof (induction rule: probe_step.induct)
  case (start ctxErr isUrgent ps p ps' xs)
  have "probe_inv limit (ps, xs @ [Over])" using start.prems by (simp add: probe_inv_def)
  from moves_inv [OF _ _ this, of "length xs" p ps'] acquire_start_moves [OF start.hyps] show ?case by simp
next
  case (release i xs isUrgent ps ps')
  then show ?case using moves_inv [of xs i Over ps ps'] release_moves [of isUrgent ps ps'] by simp
qed (auto intro: moves_inv dest: acquire_send_moves acquire_cancel_moves)

lemma probe_reach_inv: "1 \<le> limit \<Longrightarrow> probe_reach limit \<sigma> \<Longrightarrow> probe_inv limit \<sigma>"
proof (rotate_tac 1, induction rule: probe_reach.induct)
  case start
  then show ?case by (simp add: probe_inv_def configureProbeLimits_def make_slots_def chan.accounts_def)
qed (use probe_step_inv in blast)

text \<open>A receive by a holder never blocks.\<close>

lemma release_enabled:
  assumes "probe_inv limit (ps, xs)" and "i < length xs"
  shows "xs ! i = Holding u \<Longrightarrow> release u ps \<noteq> None" "xs ! i = WaitProbe u \<Longrightarrow> acquire_cancel (WaitProbe u) ps \<noteq> None"
proof -
  have inv: "chan.accounts (probeSlots ps) (holders holds_probe xs)" "chan.accounts (backgroundProbeSlots ps) (holders holds_background xs)"
    using assms(1) by (simp_all add: probe_inv_def)
  have bg: "release_background u ps \<noteq> None" if "holds_background (xs ! i) \<or> u"
    using that chan.release_possible [OF inv(2)] holders_pos [OF assms(2), of holds_background] by (auto simp: release_background_def)
  show "release u ps \<noteq> None" if "xs ! i = Holding u"
    using that bg chan.release_possible [OF inv(1)] holders_pos [OF assms(2), of holds_probe]
    by (auto simp: release_def release_background_def split: option.splits)
  show "acquire_cancel (WaitProbe u) ps \<noteq> None" if "xs ! i = WaitProbe u" using that bg by auto
qed

text \<open>
  C22: probes are bounded, nothing leaks, and urgent work keeps its reserve. For every accepted limit,
  in every interleaving of calls, cancellations and releases: the probes that run are at most the
  limit; the background calls that hold capacity leave the reserved part free; neither a release nor a
  cancellation blocks; and as long as fewer urgent probes run than are reserved, an urgent call gets
  its slot at once, however slow the background endpoints are.
\<close>

theorem probe_capacity:
  assumes "1 \<le> limit" and "probe_reach limit (ps, xs)"
  shows "int (holders holds_probe xs) \<le> limit \<and>
    int (holders holds_background xs) \<le> limit - reservedCapacity limit \<and>
    slotUsed (probeSlots ps) = holders holds_probe xs \<and> slotUsed (backgroundProbeSlots ps) = holders holds_background xs \<and>
    (\<forall>i u. i < length xs \<and> xs ! i = Holding u \<longrightarrow> release u ps \<noteq> None) \<and>
    (\<forall>i u. i < length xs \<and> xs ! i = WaitProbe u \<longrightarrow> acquire_cancel (WaitProbe u) ps \<noteq> None) \<and>
    (int (holders (\<lambda>p. p = Holding True) xs) < reservedCapacity limit \<longrightarrow>
       (\<exists>ps'. acquire_send (TryProbe True) ps = Some (Holding True, ps')))"
proof -
  have inv: "chan.accounts (probeSlots ps) (holders holds_probe xs)" "chan.accounts (backgroundProbeSlots ps) (holders holds_background xs)"
    "slotCap (probeSlots ps) = nat limit" "slotCap (backgroundProbeSlots ps) = nat (limit - reservedCapacity limit)"
    using probe_reach_inv [OF assms] by (simp_all add: probe_inv_def)
  note r = reservedCapacity_bounds(1) [OF assms(1)]
  note rel = release_enabled [OF probe_reach_inv [OF assms]]
  have split: "holders holds_probe xs = holders (\<lambda>p. p = Holding True) xs + holders (\<lambda>p. p = Holding False) xs"
    by (rule holders_split) (auto elim: holds_probe.elims)
  have le: "holders (\<lambda>p. p = Holding False) xs \<le> holders holds_background xs" by (rule holders_mono) simp
  have "\<exists>ps'. acquire_send (TryProbe True) ps = Some (Holding True, ps')"
    if "int (holders (\<lambda>p. p = Holding True) xs) < reservedCapacity limit"
  proof -
    have "holders holds_probe xs < slotCap (probeSlots ps)"
      using that split le inv(2-4) r by (simp add: chan.accounts_def) linarith
    with chan.acquire_possible [OF inv(1)] show ?thesis by (auto split: option.splits)
  qed
  then show ?thesis using inv r rel by (auto simp: chan.accounts_def)
qed

definition busy_background :: "probe_slots \<times> probe list" where
  "busy_background =
     (let ps = configureProbeLimits 2; (p, ps) = the (acquire_send TryBackground ps) in (ps, [p]))"

lemma busy_background_reach: "probe_reach 2 busy_background"
proof -
  let ?ps = "configureProbeLimits 2"
  have s: "acquire_start False False ?ps = (TryBackground, ?ps)" by (simp add: acquire_start_def)
  have 1: "probe_reach 2 (?ps, [] @ [TryBackground])" by (rule probe_reach.step [OF probe_reach.start probe_step.start [OF s]])
  have "acquire_send TryBackground ?ps \<noteq> None" by code_simp
  then obtain p ps' where a: "acquire_send TryBackground ?ps = Some (p, ps')" by fastforce
  have "probe_step (?ps, [TryBackground]) (ps', [TryBackground][0 := p])" by (rule probe_step.send) (use a in simp_all)
  from probe_reach.step [OF _ this] 1 show ?thesis
    unfolding busy_background_def Let_def a by simp
qed

theorem probe_capacity_witness:
  "slotUsed (backgroundProbeSlots (fst busy_background)) = 1 \<and> acquire_send TryBackground (fst busy_background) \<noteq> None \<and>
   (\<exists>ps'. acquire_send (TryProbe True) (fst busy_background) = Some (Holding True, ps'))"
proof -
  obtain ps xs where b: "busy_background = (ps, xs)" by fastforce
  have "xs = snd busy_background" "ps = fst busy_background" by (simp_all add: b)
  moreover have "int (holders (\<lambda>p. p = Holding True) (snd busy_background)) < reservedCapacity 2"
    "slotUsed (backgroundProbeSlots (fst busy_background)) = 1" "acquire_send TryBackground (fst busy_background) \<noteq> None"
    by code_simp+
  ultimately show ?thesis using probe_capacity [of 2 ps xs] busy_background_reach b by simp
qed

end
