(* ===== verification/Worker.thy ===== *)
theory Worker
  imports Observer_Props Probes
begin

text \<open>
  The turns of the observer's workers, \<open>internal/observer/work.go\<close> and \<open>workCA\<close> of \<open>connection.go\<close>: a
  worker takes a key from the queue, decides whether to observe it, runs the observation, and
  schedules what follows. The observation itself is the sections of the Observer theory, which run
  between the two parts of a turn, interleaved with every other handler.
\<close>

section \<open>A turn\<close>

text \<open>How the first part ends: the worker stops, the turn is over, or an observation runs.\<close>

datatype work_plan = Stop | TurnOver | Observing nat bool

definition requeue :: "requeue \<Rightarrow> 'd observer \<Rightarrow> 'd observer" where
  "requeue r s = s\<lparr>oRequeue := oRequeue s @ [r]\<rparr>"

definition promote_key :: "clusterKey \<Rightarrow> 'd observer \<Rightarrow> 'd observer" where
  "promote_key key s = s\<lparr>oQueue := promote key (oQueue s)\<rparr>"

definition queue_Done :: "clusterKey \<Rightarrow> 'd observer \<Rightarrow> 'd observer" where
  "queue_Done key s = s\<lparr>oQueue := Done key (oQueue s)\<rparr>"

text \<open>
  \<open>workNext\<close> from the return of \<open>Get\<close> to the call of \<open>observe\<close>; \<open>oStopped\<close> is \<open>ctx.Err() != nil\<close>. The code takes the lock of the
  store, that of the queue and \<open>stateMu\<close> one after the other here; the model makes it one step.
\<close>

definition work_begin :: "'d oenv \<Rightarrow> clusterKey \<Rightarrow> 'd observer \<Rightarrow> work_plan \<times> 'd observer" where
  "work_begin E key s =
     (if oStopped s then (Stop, s)
      else
        let (needed, s) = needsObservation E key s in
          if \<not> needed then (TurnOver, requeue (Forget key) s)
          else
            let isUrgent = IsUrgent key (oQueue s) in
              if \<not> Ready s then
                (TurnOver, requeue (AddAfter key (optPollInterval (opts E))) (if isUrgent then promote_key key s else s))
              else let (ctx, s) = beginObservation key s in (Observing ctx isUrgent, s))"

text \<open>
  \<open>workNext\<close> after \<open>observe\<close> has returned \<open>observed\<close>, up to the deferred \<open>Done\<close>. A collection that was
  cancelled because the process stops is not superseded; what is scheduled then is never served.
\<close>

definition work_end :: "'d oenv \<Rightarrow> clusterKey \<Rightarrow> nat \<Rightarrow> bool \<Rightarrow> bool \<Rightarrow> 'd observer \<Rightarrow> 'd observer" where
  "work_end E key ctx isUrgent observed s =
     (let isSuperseded = (ctx \<in> set (oSuperseded s)); s = finish_observation key s in
        if isSuperseded then requeue (Forget key) s
        else
          let (needed, s) = needsObservation E key s in
            if \<not> needed then requeue (Forget key) s
            else if observed then requeue (AddAfter key (optPollInterval (opts E))) (requeue (Forget key) s)
            else requeue (AddRateLimited key) (if isUrgent then promote_key key s else s))"

text \<open>\<open>workCA\<close> after \<open>Get\<close>: the plan of the read, and the scheduling of its outcome.\<close>

definition ca_requeue :: "ca_request \<Rightarrow> 'd observer \<Rightarrow> 'd observer" where
  "ca_requeue r s = s\<lparr>oCAQueue := oCAQueue s @ [r]\<rparr>"

definition workCA_begin :: "'d oenv \<Rightarrow> clusterKey \<Rightarrow> 'd observer \<Rightarrow> (nat \<times> secretMeta) option \<times> bool \<times> 'd observer" where
  "workCA_begin E key s =
     (if oStopped s then (None, False, s)
      else if \<not> Ready s then (None, True, ca_requeue (CAAddAfter key (optPollInterval (opts E))) s)
      else case fetch_begin E key s of
        (None, s) \<Rightarrow> (None, True, ca_requeue (CAForget key) s)
      | (Some plan, s) \<Rightarrow> (Some plan, True, s))"

definition workCA_end :: "'d oenv \<Rightarrow> clusterKey \<Rightarrow> nat \<Rightarrow> secretMeta \<Rightarrow> bool \<Rightarrow> cachedCA option \<Rightarrow> 'd observer \<Rightarrow> 'd observer" where
  "workCA_end E key ctx meta timedOut read s =
     (case fetch_commit E key ctx meta timedOut read s of
        (ok, s) \<Rightarrow> ca_requeue (if ok then CAForget key else CAAddRateLimited key) s)"

text \<open>The workers: how many of them take only urgent keys, and the I/O budget of one collection.\<close>

definition urgent_workers :: "Options \<Rightarrow> int" where
  "urgent_workers opt = reservedCapacity (optMaxConcurrentClusters opt)"

definition ca_workers :: "Options \<Rightarrow> int" where
  "ca_workers opt = min 32 (optMaxConcurrentClusters opt)"

definition observe_timeout :: "Options \<Rightarrow> duration" where
  "observe_timeout opt =
     (let timeout = optTTL opt - optPollInterval opt in
        if optProbeTimeout opt \<le> timeout div 2 then 2 * optProbeTimeout opt else timeout)"

section \<open>Handlers leave running turns alone\<close>

text \<open>
  What every handler keeps: the registered collections, and the queue up to requests. \<open>scheduling\<close> are
  the queue operations that only add work.
\<close>

fun scheduling :: "queue_op \<Rightarrow> bool" where
  "scheduling (PromoteOp _) = True"
| "scheduling (AddOp _) = True"
| "scheduling _ = False"

definition quiet :: "'d observer \<Rightarrow> 'd observer \<Rightarrow> bool" where
  "quiet s t \<longleftrightarrow> oObservations t = oObservations s \<and> (\<exists>xs. list_all scheduling xs \<and> oQueue t = queue_run xs (oQueue s))"

lemma queue_run_append: "queue_run (xs @ ys) p = queue_run ys (queue_run xs p)"
  by (induction xs arbitrary: p) simp_all

lemma quiet_same: "oObservations t = oObservations s \<Longrightarrow> oQueue t = oQueue s \<Longrightarrow> quiet s t"
  by (auto simp: quiet_def intro: exI [of _ "[]"])

lemma quiet_refl [simp, intro]: "quiet s s" by (simp add: quiet_same)

lemma quiet_trans: "quiet s t \<Longrightarrow> quiet t u \<Longrightarrow> quiet s u"
  unfolding quiet_def using queue_run_append list_all_append by metis

lemma quiet_after: "quiet s t \<Longrightarrow> oObservations u = oObservations t \<Longrightarrow> oQueue u = oQueue t \<Longrightarrow> quiet s u"
  using quiet_trans quiet_same by blast

lemma quiet_fold: "(\<And>x s. quiet s (f x s)) \<Longrightarrow> quiet s (fold f xs s)"
  by (induction xs arbitrary: s) (auto intro: quiet_trans)

lemma queue_frame [frame_simps]:
  "oQueue (snd (Now E s)) = oQueue s" "oQueue (snd (store_HasDemand E key s)) = oQueue s"
  "oQueue (commitPublication E snap s) = oQueue s" "oQueue (commit_unavailable E c reason s) = oQueue s"
  "oQueue (store_DeleteDeferred key s) = oQueue s" "oQueue (snd (store_GetDeferred E key s)) = oQueue s"
  "oQueue (forget_evidence key s) = oQueue s" "oQueue (forget_demand key s) = oQueue s"
  "oQueue (cancelObservationLocked key s) = oQueue s" "oQueue (drop_cluster key s) = oQueue s"
  "oObservations (drop_cluster key s) = oObservations s"
  by (simp_all add: Now_def store_HasDemand_def commitPublication_def store_PutDeferred_def commit_unavailable_def
      store_DeleteDeferred_def store_GetDeferred_def forget_evidence_def forget_demand_def cancelObservationLocked_def
      drop_cluster_def case_prod_beta Let_def split: option.splits)

lemma quiet_queue:
  assumes "oObservations t = oObservations s" and "oQueue t = queue_run xs (oQueue s)" and "list_all scheduling xs"
  shows "quiet s t"
  using assms by (auto simp: quiet_def)

lemma quiet_enqueue: "quiet s (enqueue E ns name u s)"
proof -
  let ?k = "ClusterKey ns name"
  have "oQueue (enqueue E ns name u s) = oQueue s \<or> oQueue (enqueue E ns name u s) = Add ?k (promote ?k (oQueue s)) \<or>
      oQueue (enqueue E ns name u s) = Add ?k (oQueue s)"
    by (auto simp: enqueue_def Let_def case_prod_beta queue_Add_def frame_simps split: option.splits)
  moreover have "oObservations (enqueue E ns name u s) = oObservations s" by (simp add: frame_simps)
  ultimately show ?thesis
    using quiet_queue [of "enqueue E ns name u s" s "[]"] quiet_queue [of "enqueue E ns name u s" s "[PromoteOp ?k, AddOp ?k]"]
      quiet_queue [of "enqueue E ns name u s" s "[AddOp ?k]"] by auto
qed

lemma quiet_notify: "quiet s t \<Longrightarrow> quiet s (notify_key E key t)"
  unfolding notify_key_def Notify_def by (rule quiet_trans [OF _ quiet_enqueue])

lemma quiet_ops:
  "quiet s t \<Longrightarrow> quiet s (commit_unavailable E c reason t)" "quiet s t \<Longrightarrow> quiet s (commitPublication E snap t)"
  "quiet s t \<Longrightarrow> quiet s (store_DeleteDeferred key t)" "quiet s t \<Longrightarrow> quiet s (snd (store_HasDemand E key t))"
  "quiet s t \<Longrightarrow> quiet s (snd (store_GetDeferred E key t))" "quiet s t \<Longrightarrow> quiet s (cancelObservationLocked key t)"
  "quiet s t \<Longrightarrow> quiet s (forget_evidence key t)" "quiet s t \<Longrightarrow> quiet s (forget_demand key t)"
  "quiet s t \<Longrightarrow> quiet s (drop_cluster key t)" "quiet s t \<Longrightarrow> quiet s (snd (Now E t))"
  by (auto elim!: quiet_after simp: frame_simps)

lemmas quiet_intros = quiet_refl quiet_ops quiet_notify

lemma quiet_clusterEvent: "quiet s (clusterEvent E oldObj newObj s)"
proof (cases "cachedCluster newObj")
  case (Some c)
  define key where "key = cluster_key E c"
  define s1 where "s1 = (case ClusterIdentity key (oStore s) of
       Some previous \<Rightarrow> if rUID previous \<noteq> GetUID (api E) c then
           commit_unavailable E c ''awaiting_observation'' (forget_demand key (forget_evidence key (cancelObservationLocked key s)))
         else s
     | None \<Rightarrow> commit_unavailable E c ''awaiting_observation'' (forget_demand key (forget_evidence key (cancelObservationLocked key s))))"
  define s2 where "s2 = (if cachedCluster oldObj \<noteq> None then commit_unavailable E c ''topology_changed'' (cancelObservationLocked key s1) else s1)"
  have 1: "quiet s s1" unfolding s1_def by (auto split: option.splits intro!: quiet_intros)
  then have 2: "quiet s (snd (store_HasDemand E key s2))" unfolding s2_def by (auto intro: quiet_intros)
  have 0: "quiet s (store_DeleteDeferred key (forget_demand key (forget_evidence key (cancelObservationLocked key s))))"
    by (intro quiet_intros)
  show ?thesis
    unfolding clusterEvent_def Some option.simps Let_def case_prod_beta key_def [symmetric] s1_def [symmetric] s2_def [symmetric]
    using 0 1 2 quiet_notify [OF 2] by simp
qed (simp add: clusterEvent_def)

lemma quiet_clusterDeleted: "quiet s (clusterDeleted E obj s)"
  by (auto simp: clusterDeleted_def Let_def split: option.splits intro!: quiet_intros)

lemma quiet_podEvent: "quiet s (podEvent E swap oldObj newObj s)"
proof -
  have get: "quiet s (case store_GetDeferred E key s of
         (None, s) \<Rightarrow> s
       | (Some snapshot, s) \<Rightarrow> if rUID (sCluster snapshot) = u
           then commitPublication E (withdraw_member w snapshot) s else s)" for u w key and s :: "'a observer"
    using quiet_ops(5) [OF quiet_refl, of s E key] by (auto split: prod.splits option.splits intro: quiet_ops)
  have "quiet s (pod_event_key E old new key s)" for old new key and s :: "'a observer"
    unfolding pod_event_key_def by (rule quiet_notify) (auto split: option.splits intro!: quiet_intros get)
  then show ?thesis by (auto simp: podEvent_def Let_def split: option.splits intro!: quiet_fold)
qed

lemma quiet_secretEvent: "quiet s (secretEvent E obj s)"
proof -
  have c: "quiet s (secret_event_cluster E c s)" for c and s :: "'a observer"
    unfolding secret_event_cluster_def Let_def case_prod_beta by (auto split: option.splits intro!: quiet_intros)
  have "quiet s (fold (secret_event_cluster E) cs t)" if "oObservations t = oObservations s" "oQueue t = oQueue s" for cs t
    by (rule quiet_trans [OF quiet_same [OF that] quiet_fold]) (rule c)
  then show ?thesis by (auto simp: secretEvent_def Let_def split: option.splits kobj.splits)
qed

lemma quiet_demandedCAClusters: "quiet s (snd (demandedCAClusters E key s))"
proof -
  have "quiet s (snd (fold (demanded_step E) cs (acc, t)))" if "quiet s t" for cs acc t
    using that
  proof (induction cs arbitrary: acc t)
    case (Cons c cs)
    from Cons.IH [OF quiet_ops(4) [OF Cons.prems]] show ?case by (simp add: demanded_step_def case_prod_beta)
  qed simp
  then show ?thesis by (simp add: demandedCAClusters_def)
qed

lemma quiet_fetch_begin: "quiet s (snd (fetch_begin E key s))"
proof -
  obtain cs u where d: "demandedCAClusters E key s = (cs, u)" by fastforce
  have u: "quiet s u" using quiet_demandedCAClusters [of s E key] d by simp
  have "quiet s (s\<lparr>oCAPending := X\<rparr>)" "quiet s (u\<lparr>oCAPending := X\<rparr>)" "quiet s (u\<lparr>oCAReads := R, oNext := N\<rparr>)" for X R N
    by (simp_all add: quiet_same quiet_after [OF u])
  then show ?thesis by (simp add: fetch_begin_def d split: option.splits)
qed

lemma quiet_fetch_commit: "quiet s (snd (fetch_commit E key ctx meta timedOut rd s))"
proof -
  let ?s = "s\<lparr>oCAReads := (oCAReads s)(key := None)\<rparr>"
  obtain cs u where d: "demandedCAClusters E key ?s = (cs, u)" by fastforce
  have u: "quiet s u" using quiet_demandedCAClusters [of ?s E key] d quiet_same [of ?s s] quiet_trans [of s ?s u] by simp
  have f: "quiet s (fold (\<lambda>c. notify_key E (cluster_key E c)) cs t)" if "oObservations t = oObservations u" "oQueue t = oQueue u" for t
    by (rule quiet_trans [OF quiet_after [OF u that] quiet_fold]) (rule quiet_notify [OF quiet_refl])
  have c: "oQueue (count_ca i j k t) = oQueue t" "oObservations (count_ca i j k t) = oObservations t" for i j k and t :: "'a observer"
    by (simp_all add: count_ca_def split: prod.splits)
  have "quiet s ?s" "quiet s (count_ca i j k ?s)" "quiet s (u\<lparr>oCAPending := X\<rparr>)" for i j k X
    by (simp_all add: quiet_same c quiet_after [OF u])
  then show ?thesis
    unfolding fetch_commit_def Let_def d by (simp add: f split: option.splits)
qed

lemma quiet_publishFailure: "quiet s (publishFailure E ctx key reason s)"
  by (auto simp: publishFailure_def Let_def case_prod_beta split: option.splits intro!: quiet_intros)

lemma quiet_publishObservation:
  assumes "publishObservation E ctx key observed probed results params conn started s = Some (b, t)"
  shows "quiet s t"
proof -
  have same: "quiet s (s\<lparr>oPrimaries := P\<rparr>)" for P by (simp add: quiet_same)
  from assms show ?thesis
    unfolding publishObservation_def Let_def
    by (auto split: option.splits if_splits prod.splits intro!: quiet_intros same)
qed

text \<open>The handlers that are not part of a turn.\<close>

fun foreign :: "obs_op \<Rightarrow> bool" where
  "foreign (BeginOp _) = False"
| "foreign (FinishOp _) = False"
| "foreign _ = True"

lemma quiet_run: "obs_run E x s = Some t \<Longrightarrow> foreign x \<Longrightarrow> quiet s t"
proof (cases x)
  case (PublishOp ctx key c ps rs pa ci at)
  assume "obs_run E x s = Some t"
  with PublishOp show ?thesis using quiet_publishObservation by fastforce
next
  case (ConnectOp err c)
  assume "obs_run E x s = Some t"
  with ConnectOp show ?thesis
    by (auto simp: cachedConnection_def count_ca_def Let_def split: option.splits prod.splits intro!: quiet_same)
next
  case (ObserveOp key)
  assume "obs_run E x s = Some t"
  with ObserveOp show ?thesis using quiet_ops(9) [OF quiet_refl, of s key]
    by (auto simp: observe_begin_def split: option.splits prod.splits sum.splits if_splits)
qed (auto intro: quiet_clusterEvent quiet_clusterDeleted quiet_podEvent quiet_secretEvent quiet_enqueue quiet_publishFailure
    quiet_fetch_begin quiet_fetch_commit)

section \<open>Turns and collections\<close>

text \<open>A key that a worker has taken: not yet observed, or with a running collection and its context.\<close>

datatype turn = Taken | Running nat bool

text \<open>
  Workers, handlers and the delayed queue together. \<open>environment\<close> stands for everything that concerns
  neither the registered collections nor the queue: informer caches, watches, the store's clients,
  the start of the shutdown. \<open>delayed\<close> is the end of a delay of the rate limited queue.
\<close>

inductive turn_step :: "'d oenv \<Rightarrow> 'd observer \<times> (clusterKey \<rightharpoonup> turn) \<Rightarrow> 'd observer \<times> (clusterKey \<rightharpoonup> turn) \<Rightarrow> bool" for E where
  handler: "obs_run E x s = Some t \<Longrightarrow> foreign x \<Longrightarrow> turn_step E (s, T) (t, T)"
| environment: "oObservations t = oObservations s \<Longrightarrow> oQueue t = oQueue s \<Longrightarrow> turn_step E (s, T) (t, T)"
| delayed: "turn_step E (s, T) (queue_Add key s, T)"
| shutdown: "turn_step E (s, T) (s\<lparr>oQueue := ShutDown (oQueue s)\<rparr>, T)"
| take: "get urgentOnly (oQueue s) = (Returns key False, q) \<Longrightarrow> turn_step E (s, T) (s\<lparr>oQueue := q\<rparr>, T(key \<mapsto> Taken))"
| observe: "T key = Some Taken \<Longrightarrow> work_begin E key s = (Observing ctx u, t) \<Longrightarrow> turn_step E (s, T) (t, T(key \<mapsto> Running ctx u))"
| over: "T key = Some Taken \<Longrightarrow> work_begin E key s = (plan, t) \<Longrightarrow> plan = Stop \<or> plan = TurnOver \<Longrightarrow>
    turn_step E (s, T) (queue_Done key t, T(key := None))"
| finish: "T key = Some (Running ctx u) \<Longrightarrow> turn_step E (s, T) (queue_Done key (work_end E key ctx u observed s), T(key := None))"

inductive turn_reach :: "'d oenv \<Rightarrow> 'd observer \<times> (clusterKey \<rightharpoonup> turn) \<Rightarrow> bool" for E where
  start: "oQueue s = newObservationQueue \<Longrightarrow> oObservations s = Map.empty \<Longrightarrow> turn_reach E (s, Map.empty)"
| step: "turn_reach E \<sigma> \<Longrightarrow> turn_step E \<sigma> \<tau> \<Longrightarrow> turn_reach E \<tau>"

definition turn_inv :: "'d observer \<times> (clusterKey \<rightharpoonup> turn) \<Rightarrow> bool" where
  "turn_inv \<sigma> \<longleftrightarrow> (case \<sigma> of (s, T) \<Rightarrow>
     queue_inv (oQueue s) \<and> dom T = active_keys (oQueue s) \<and>
     (\<forall>key ctx. oObservations s key = Some ctx \<longleftrightarrow> (\<exists>u. T key = Some (Running ctx u))))"

lemma active_keys_def': "active_keys p = dom (map_of (processing p))"
  by (auto simp: active_keys_iff)

lemma scheduling_run: "list_all scheduling xs \<Longrightarrow> queue_inv p \<Longrightarrow> queue_inv (queue_run xs p) \<and> active_keys (queue_run xs p) = active_keys p"
proof (induction xs arbitrary: p)
  case (Cons x xs)
  then show ?case using Cons.IH [of "queue_step x p"] queue_step_inv [of p x]
    by (cases x) (simp_all add: active_keys_def' frame_simps)
qed simp

lemma quiet_inv: "quiet s t \<Longrightarrow> turn_inv (s, T) \<Longrightarrow> turn_inv (t, T)"
  using scheduling_run by (force simp: quiet_def turn_inv_def)

lemma needs_frame [frame_simps]:
  "oObservations (snd (needsObservation E key s)) = oObservations s" "oQueue (snd (needsObservation E key s)) = oQueue s"
  by (simp_all add: needsObservation_def case_prod_beta Let_def frame_simps)

lemma turn_frame [frame_simps]:
  "oObservations (requeue r s) = oObservations s" "oQueue (requeue r s) = oQueue s"
  "oObservations (promote_key key s) = oObservations s" "oQueue (promote_key key s) = promote key (oQueue s)"
  "oObservations (queue_Done key s) = oObservations s" "oQueue (queue_Done key s) = Done key (oQueue s)"
  "oQueue (finish_observation key s) = oQueue s" "oObservations (finish_observation key s) = (oObservations s)(key := None)"
  by (simp_all add: requeue_def promote_key_def queue_Done_def finish_observation_def)

lemma work_begin_over:
  assumes "work_begin E key s = (plan, t)" and "plan = Stop \<or> plan = TurnOver"
  shows "oObservations t = oObservations s" "oQueue t = oQueue s \<or> oQueue t = promote key (oQueue s)"
  using assms by (auto simp: work_begin_def Let_def case_prod_beta frame_simps split: if_splits)

lemma work_begin_observing:
  assumes "work_begin E key s = (Observing ctx u, t)"
  shows "oObservations t = (oObservations s)(key \<mapsto> ctx)" "oQueue t = oQueue s" "u = IsUrgent key (oQueue s)" "Ready t" "\<not> oStopped s"
  using assms by (auto simp: work_begin_def Let_def case_prod_beta frame_simps beginObservation_def Ready_def split: if_splits)

lemma work_end_frame:
  "oObservations (work_end E key ctx u observed s) = (oObservations s)(key := None)"
  "oQueue (work_end E key ctx u observed s) = oQueue s \<or> oQueue (work_end E key ctx u observed s) = promote key (oQueue s)"
  by (auto simp: work_end_def Let_def case_prod_beta frame_simps)

lemma done_inv:
  assumes "turn_inv (s, T)" and "T key \<noteq> None" and "oObservations t = (oObservations s)(key := None)"
    and "oQueue t = oQueue s \<or> oQueue t = promote key (oQueue s)"
  shows "turn_inv (queue_Done key t, T(key := None))"
proof -
  have q: "queue_inv (oQueue t)" "active_keys (oQueue t) = active_keys (oQueue s)"
    using assms(1,4) by (auto simp: turn_inv_def active_keys_def' frame_simps intro: promote_inv)
  have "active_keys (Done key (oQueue t)) = active_keys (oQueue t) - {key}"
    by (auto simp: active_keys_def' Done_processing)
  then show ?thesis using assms(1,3) q Done_inv [OF q(1), of key] by (auto simp: turn_inv_def frame_simps)
qed

lemma turn_step_inv:
  assumes "turn_step E \<sigma> \<tau>" and "turn_inv \<sigma>"
  shows "turn_inv \<tau>"
  using assms
proof (induction rule: turn_step.induct)
  case (handler x s t T)
  then show ?case using quiet_inv quiet_run by blast
next
  case (environment t s T)
  then show ?case by (simp add: turn_inv_def)
next
  case (delayed s T key)
  then show ?case by (intro quiet_inv [of s "queue_Add key s"] quiet_queue [where xs = "[AddOp key]"]) (simp_all add: queue_Add_def)
next
  case (shutdown s T)
  then show ?case using ShutDown_inv(1) [of "oQueue s"] by (simp add: turn_inv_def active_keys_def' ShutDown_def Broadcast_def)
next
  case (take urgentOnly s key q T)
  have inv: "queue_inv (oQueue s)" using take.prems by (simp add: turn_inv_def)
  have "queue_inv q" using get_inv [OF inv, of urgentOnly] take.hyps by simp
  moreover have "active_keys q = insert key (active_keys (oQueue s))"
    using get_takes(8) [OF take.hyps] by (auto simp: active_keys_def')
  moreover have "key \<notin> active_keys (oQueue s)"
    using get_available(1) [OF inv take.hyps] by (auto simp: available_def active_keys_def')
  ultimately show ?case using take.prems by (auto simp: turn_inv_def)
next
  case (observe T key s ctx u t)
  then show ?case using work_begin_observing [OF observe.hyps(2)] by (auto simp: turn_inv_def)
next
  case (over T key s plan t)
  have "oObservations s key = None" using over.prems over.hyps(1) by (cases "oObservations s key") (auto simp: turn_inv_def)
  then have "oObservations t = (oObservations s)(key := None)" using work_begin_over(1) [OF over.hyps(2,3)] by (auto simp: fun_eq_iff)
  then show ?case using done_inv [OF over.prems _ _ work_begin_over(2) [OF over.hyps(2,3)]] over.hyps(1) by simp
next
  case (finish T key ctx u s observed)
  then show ?case using done_inv [OF finish.prems _ work_end_frame] by simp
qed

lemma turn_reach_inv: "turn_reach E \<sigma> \<Longrightarrow> turn_inv \<sigma>"
proof (induction rule: turn_reach.induct)
  case (start s)
  then show ?case using new_inv by (simp add: turn_inv_def active_keys_def' newObservationQueue_def)
qed (rule turn_step_inv)

text \<open>
  C12: a collection can always be superseded, and there is one per cluster. In every interleaving of
  workers, handlers and delays, the registered cancel functions are exactly those of the running
  collections, and a key that a worker takes from the queue has no turn and no registered collection:
  beginning an observation never replaces the registration of another one, and the event that cancels
  a cluster's observation reaches the collection that is running.
\<close>

theorem observation_exclusive:
  assumes "turn_reach E (s, T)"
  shows "(\<forall>key ctx. oObservations s key = Some ctx \<longleftrightarrow> (\<exists>u. T key = Some (Running ctx u))) \<and>
    (\<forall>key ctx u. T key = Some (Running ctx u) \<longrightarrow> ctx \<in> set (oSuperseded (cancelObservationLocked key s))) \<and>
    (\<forall>urgentOnly key q. get urgentOnly (oQueue s) = (Returns key False, q) \<longrightarrow> T key = None \<and> oObservations s key = None)"
proof -
  have inv: "turn_inv (s, T)" by (rule turn_reach_inv [OF assms])
  have "T key = None \<and> oObservations s key = None" if "get u (oQueue s) = (Returns key False, q)" for u key q
  proof -
    have "key \<in> available (oQueue s)" using get_available(1) [OF _ that] inv by (simp add: turn_inv_def)
    then have "key \<notin> dom T" using inv by (auto simp: turn_inv_def available_def active_keys_def')
    then show ?thesis using inv by (cases "oObservations s key") (auto simp: turn_inv_def)
  qed
  moreover have "ctx \<in> set (oSuperseded (cancelObservationLocked key s))" if "T key = Some (Running ctx u)" for key ctx u
    using inv that by (intro cancel_superseded(2)) (auto simp: turn_inv_def)
  ultimately show ?thesis using inv by (auto simp: turn_inv_def)
qed

text \<open>
  What a finished turn schedules: a cluster that is still wanted, and whose collection no event has
  superseded, comes back after the poll interval or, when the collection failed, after the backoff.
\<close>

lemma turn_reschedules:
  assumes "ctx \<notin> set (oSuperseded s)" and "fst (needsObservation E key (finish_observation key s))"
  shows "oRequeue (work_end E key ctx u observed s) = oRequeue (snd (needsObservation E key (finish_observation key s))) @
    (if observed then [Forget key, AddAfter key (optPollInterval (opts E))] else [AddRateLimited key])"
  using assms by (auto simp: work_end_def Let_def case_prod_beta requeue_def promote_key_def)

text \<open>The budget of a collection is positive and ends before the snapshot it refreshes expires.\<close>

lemma observe_timeout_bounds:
  assumes "0 < optProbeTimeout opt" and "optPollInterval opt < optTTL opt"
  shows "0 < observe_timeout opt \<and> observe_timeout opt \<le> optTTL opt - optPollInterval opt"
  using assms by (auto simp: observe_timeout_def Let_def)

section \<open>A concrete turn\<close>

definition idle :: sample_observer_state where
  "idle = wanted\<lparr>oObservations := Map.empty, oQueue := newObservationQueue\<rparr>"

definition taken_state :: sample_observer_state where
  "taken_state = (queue_Add app_key idle)\<lparr>oQueue := snd (get False (oQueue (queue_Add app_key idle)))\<rparr>"

definition running :: sample_observer_state where
  "running = snd (work_begin sample_env app_key taken_state)"

theorem observation_exclusive_witness:
  "oObservations running app_key = Some 2 \<and> 2 \<in> set (oSuperseded (cancelObservationLocked app_key running))"
proof -
  have 0: "turn_reach sample_env (idle, Map.empty)" by (rule turn_reach.start) (simp_all add: idle_def)
  note 1 = turn_reach.step [OF 0 turn_step.delayed [of _ idle Map.empty app_key]]
  have "fst (get False (oQueue (queue_Add app_key idle))) = Returns app_key False"
    by (simp add: queue_Add_def idle_def newObservationQueue_def Add_def push_def Broadcast_def get_def flagged_def Let_def)
  then have g: "get False (oQueue (queue_Add app_key idle)) = (Returns app_key False, snd (get False (oQueue (queue_Add app_key idle))))"
    by (metis prod.collapse)
  note 2 = turn_reach.step [OF 1 turn_step.take [OF g], folded taken_state_def]
  have "fst (work_begin sample_env app_key taken_state) = Observing 2 False" by code_simp
  then have w: "work_begin sample_env app_key taken_state = (Observing 2 False, running)" by (simp add: running_def prod_eq_iff)
  have "turn_reach sample_env (running, [app_key \<mapsto> Running 2 False])"
    using turn_reach.step [OF 2 turn_step.observe [OF _ w]] by simp
  note excl = observation_exclusive [OF this]
  have "[app_key \<mapsto> Running 2 False] app_key = Some (Running 2 False)" by simp
  with excl show ?thesis by blast
qed

end
