(* ===== verification/Collection.thy ===== *)
theory Collection
  imports Worker
begin

text \<open>
  Collecting the status of a cluster's instances: \<open>probeInstances\<close> of \<open>internal/observer/collection.go\<close>, on
  top of the probe slots. The loop over the Pods acquires a slot per ready Pod and starts a goroutine
  that probes it; the first Pod is the expected primary, and a failure of its verification stops the
  other probes. Loop, goroutines, the context and the calls of other collections run interleaved.
\<close>

section \<open>State\<close>

text \<open>
  The local state of one call: the results, the index of the loop, the call of \<open>acquireProbe\<close> that the
  loop waits for (its position among all calls), the goroutines (the index of the Pod and the call that
  holds its slot), and whether \<open>probeContext\<close> is cancelled.
\<close>

record collection =
  colResults :: "statusResult list"
  colNext :: nat
  colAcquire :: "nat option"
  colRunning :: "(nat \<times> nat) list"
  colStopped :: bool

type_synonym collecting = "probe_slots \<times> probe list \<times> collection"

definition zero_statusResult :: statusResult where
  "zero_statusResult = \<lparr>srStatus = zero_instanceStatus, srErr = None\<rparr>"

definition collect_start :: "bool \<Rightarrow> pod list \<Rightarrow> collection" where
  "collect_start ctxErr ps = \<lparr>colResults = replicate (length ps) zero_statusResult, colNext = 0, colAcquire = None, colRunning = [],
     colStopped = ctxErr\<rparr>"

definition set_err :: "nat \<Rightarrow> string \<Rightarrow> collection \<Rightarrow> collection" where
  "set_err i e c = c\<lparr>colResults := (colResults c)[i := (colResults c ! i)\<lparr>srErr := Some e\<rparr>]\<rparr>"

section \<open>Operations\<close>

text \<open>
  The branch of a Pod that is not ready, and the two ends of \<open>acquireProbe\<close>: \<open>e\<close> is the error of the
  context, cancelled or past its deadline.
\<close>

definition collect_not_ready :: "collection \<Rightarrow> collection" where
  "collect_not_ready c =
     (set_err (colNext c) ''pod not ready'' c)\<lparr>colStopped := colStopped c \<or> colNext c = 0, colNext := Suc (colNext c)\<rparr>"

definition collect_refused :: "string \<Rightarrow> collection \<Rightarrow> collection" where
  "collect_refused e c = (set_err (colNext c) e c)\<lparr>colAcquire := None, colNext := Suc (colNext c)\<rparr>"

definition collect_granted :: "nat \<Rightarrow> collection \<Rightarrow> collection" where
  "collect_granted k c = c\<lparr>colAcquire := None, colRunning := (colNext c, k) # colRunning c, colNext := Suc (colNext c)\<rparr>"

text \<open>What the goroutine of the first Pod looks at.\<close>

definition primary_failed :: "statusResult \<Rightarrow> bool" where
  "primary_failed r \<longleftrightarrow> srErr r \<noteq> None \<or> stIsPrimary (srStatus r) = None \<or> stIsPrimary (srStatus r) = Some False \<or>
     stUnavailable (srStatus r) \<or> stRewinding (srStatus r)"

definition collect_returned :: "nat \<Rightarrow> nat \<Rightarrow> statusResult \<Rightarrow> collection \<Rightarrow> collection" where
  "collect_returned i k r c = c\<lparr>colResults := (colResults c)[i := r], colStopped := colStopped c \<or> i = 0 \<and> primary_failed r,
     colRunning := remove1 (i, k) (colRunning c)\<rparr>"

definition collect_stop :: "collection \<Rightarrow> collection" where
  "collect_stop c = c\<lparr>colStopped := True\<rparr>"

text \<open>\<open>probes.Wait()\<close> returns once the loop is over and every goroutine has ended.\<close>

definition collected :: "pod list \<Rightarrow> collection \<Rightarrow> bool" where
  "collected ps c \<longleftrightarrow> colNext c = length ps \<and> colAcquire c = None \<and> colRunning c = []"

definition owned_calls :: "collection \<Rightarrow> nat set" where
  "owned_calls c = set_option (colAcquire c) \<union> snd ` set (colRunning c)"

text \<open>
  The steps of the collection. \<open>answers p r\<close>: the status request to Pod \<open>p\<close> may end with \<open>r\<close>. A goroutine
  stores its result and gives back its slot in one step; nobody reads the result before all have ended.
\<close>

inductive col_step :: "bool \<Rightarrow> pod list \<Rightarrow> (pod \<Rightarrow> statusResult \<Rightarrow> bool) \<Rightarrow> collecting \<Rightarrow> collecting \<Rightarrow> bool"
  for isUrgent targets answers where
  not_ready: "colAcquire c = None \<Longrightarrow> colNext c < length targets \<Longrightarrow> \<not> podReady (targets ! colNext c) \<Longrightarrow>
    col_step isUrgent targets answers (ps, xs, c) (ps, xs, collect_not_ready c)"
| acquire: "colAcquire c = None \<Longrightarrow> colNext c < length targets \<Longrightarrow> podReady (targets ! colNext c) \<Longrightarrow>
    acquire_start (colStopped c) isUrgent ps = (p, ps') \<Longrightarrow>
    col_step isUrgent targets answers (ps, xs, c) (ps', xs @ [p], c\<lparr>colAcquire := Some (length xs)\<rparr>)"
| send: "colAcquire c = Some k \<Longrightarrow> acquire_send (xs ! k) ps = Some (p, ps') \<Longrightarrow>
    col_step isUrgent targets answers (ps, xs, c) (ps', xs[k := p], c)"
| cancel: "colAcquire c = Some k \<Longrightarrow> colStopped c \<Longrightarrow> acquire_cancel (xs ! k) ps = Some (p, ps') \<Longrightarrow>
    col_step isUrgent targets answers (ps, xs, c) (ps', xs[k := p], c)"
| granted: "colAcquire c = Some k \<Longrightarrow> xs ! k = Holding u \<Longrightarrow>
    col_step isUrgent targets answers (ps, xs, c) (ps, xs, collect_granted k c)"
| refused: "colAcquire c = Some k \<Longrightarrow> xs ! k = Over \<Longrightarrow>
    col_step isUrgent targets answers (ps, xs, c) (ps, xs, collect_refused e c)"
| returned: "(i, k) \<in> set (colRunning c) \<Longrightarrow> answers (targets ! i) r \<Longrightarrow> release isUrgent ps = Some ps' \<Longrightarrow>
    col_step isUrgent targets answers (ps, xs, c) (ps', xs[k := Over], collect_returned i k r c)"

text \<open>The rest of the process: the context ends, or another call for a slot makes a transition.\<close>

inductive col_env :: "collecting \<Rightarrow> collecting \<Rightarrow> bool" where
  context_ends: "col_env (ps, xs, c) (ps, xs, collect_stop c)"
| others: "probe_step (ps, xs) (ps', xs') \<Longrightarrow> (\<forall>k\<in>owned_calls c. xs' ! k = xs ! k) \<Longrightarrow> col_env (ps, xs, c) (ps', xs', c)"

inductive col_reach :: "int \<Rightarrow> bool \<Rightarrow> pod list \<Rightarrow> (pod \<Rightarrow> statusResult \<Rightarrow> bool) \<Rightarrow> collecting \<Rightarrow> bool"
  for limit isUrgent targets answers where
  start: "probe_reach limit (ps, xs) \<Longrightarrow> col_reach limit isUrgent targets answers (ps, xs, collect_start ctxErr targets)"
| own: "col_reach limit isUrgent targets answers \<sigma> \<Longrightarrow> col_step isUrgent targets answers \<sigma> \<tau> \<Longrightarrow> col_reach limit isUrgent targets answers \<tau>"
| env: "col_reach limit isUrgent targets answers \<sigma> \<Longrightarrow> col_env \<sigma> \<tau> \<Longrightarrow> col_reach limit isUrgent targets answers \<tau>"

section \<open>Invariant\<close>

text \<open>The phases an urgent or a background call goes through.\<close>

fun phase_of :: "bool \<Rightarrow> probe \<Rightarrow> bool" where
  "phase_of isUrgent TryBackground = (\<not> isUrgent)"
| "phase_of isUrgent WaitBackground = (\<not> isUrgent)"
| "phase_of isUrgent (TryProbe u) = (u = isUrgent)"
| "phase_of isUrgent (WaitProbe u) = (u = isUrgent)"
| "phase_of isUrgent (Holding u) = (u = isUrgent)"
| "phase_of isUrgent Over = True"

lemma phase_start: "acquire_start e u ps = (p, ps') \<Longrightarrow> phase_of u p"
  by (auto simp: acquire_start_def split: if_splits)

lemma phase_send: "acquire_send q ps = Some (p, ps') \<Longrightarrow> phase_of u q \<Longrightarrow> phase_of u p"
  by (cases q) (auto split: option.splits)

lemma phase_cancel: "acquire_cancel q ps = Some (p, ps') \<Longrightarrow> p = Over"
  by (cases q) (auto simp: cancelled_probe_def)

definition loop_ok :: "bool \<Rightarrow> pod list \<Rightarrow> probe list \<Rightarrow> collection \<Rightarrow> bool" where
  "loop_ok isUrgent targets xs c \<longleftrightarrow> length (colResults c) = length targets \<and> colNext c \<le> length targets \<and>
     (case colAcquire c of None \<Rightarrow> True
      | Some k \<Rightarrow> k < length xs \<and> colNext c < length targets \<and> k \<notin> snd ` set (colRunning c) \<and> podReady (targets ! colNext c) \<and> phase_of isUrgent (xs ! k))"

definition running_ok :: "bool \<Rightarrow> pod list \<Rightarrow> probe list \<Rightarrow> collection \<Rightarrow> bool" where
  "running_ok isUrgent targets xs c \<longleftrightarrow> distinct (map fst (colRunning c)) \<and> distinct (map snd (colRunning c)) \<and>
     (\<forall>(i, k)\<in>set (colRunning c). i < colNext c \<and> k < length xs \<and> xs ! k = Holding isUrgent \<and> podReady (targets ! i))"

definition results_ok :: "pod list \<Rightarrow> (pod \<Rightarrow> statusResult \<Rightarrow> bool) \<Rightarrow> collection \<Rightarrow> bool" where
  "results_ok targets answers c \<longleftrightarrow> (\<forall>i<colNext c. i \<in> fst ` set (colRunning c) \<or> srErr (colResults c ! i) \<noteq> None \<or>
     podReady (targets ! i) \<and> answers (targets ! i) (colResults c ! i))"

definition col_inv :: "int \<Rightarrow> bool \<Rightarrow> pod list \<Rightarrow> (pod \<Rightarrow> statusResult \<Rightarrow> bool) \<Rightarrow> collecting \<Rightarrow> bool" where
  "col_inv limit isUrgent targets answers \<sigma> \<longleftrightarrow> (case \<sigma> of (ps, xs, c) \<Rightarrow>
     probe_reach limit (ps, xs) \<and> loop_ok isUrgent targets xs c \<and> running_ok isUrgent targets xs c \<and> results_ok targets answers c)"

lemmas col_inv_defs = col_inv_def loop_ok_def running_ok_def results_ok_def
lemmas collect_defs = collect_not_ready_def collect_refused_def collect_granted_def collect_returned_def collect_stop_def set_err_def

lemma remove_running:
  assumes "distinct (map fst rs)" and "distinct (map snd rs)" and "(i, k) \<in> set rs"
  shows "set (remove1 (i, k) rs) = set rs - {(i, k)}" "(j, l) \<in> set (remove1 (i, k) rs) \<Longrightarrow> j \<noteq> i \<and> l \<noteq> k"
    "distinct (map fst (remove1 (i, k) rs))" "distinct (map snd (remove1 (i, k) rs))"
proof -
  have d: "distinct rs" using assms(1) by (simp add: distinct_map)
  then show s: "set (remove1 (i, k) rs) = set rs - {(i, k)}" by simp
  show "j \<noteq> i \<and> l \<noteq> k" if "(j, l) \<in> set (remove1 (i, k) rs)"
  proof -
    have "inj_on fst (set rs)" "inj_on snd (set rs)" "(j, l) \<in> set rs" "(j, l) \<noteq> (i, k)"
      using assms that unfolding s by (simp_all add: distinct_map)
    then have "fst (j, l) \<noteq> fst (i, k)" "snd (j, l) \<noteq> snd (i, k)" using assms(3) inj_onD by metis+
    then show ?thesis by simp
  qed
  show "distinct (map fst (remove1 (i, k) rs))" "distinct (map snd (remove1 (i, k) rs))"
    using assms(1,2) d s by (auto simp: distinct_map intro: inj_on_subset)
qed

lemma col_step_inv:
  assumes "col_step u targets answers \<sigma> \<tau>" and "col_inv limit u targets answers \<sigma>"
  shows "col_inv limit u targets answers \<tau>"
  using assms
proof (induction rule: col_step.induct)
  case (not_ready c ps xs)
  then show ?case by (auto simp: col_inv_defs collect_defs nth_list_update less_Suc_eq split: option.splits)
next
  case (acquire c ps p ps' xs)
  then have "probe_reach limit (ps', xs @ [p])"
    using probe_reach.step probe_step.start by (auto simp: col_inv_def)
  with acquire phase_start [OF acquire.hyps(4)] show ?case
    by (fastforce simp: col_inv_defs nth_append)
next
  case (send c k xs ps p ps')
  then have k: "k < length xs" "k \<notin> snd ` set (colRunning c)" "phase_of u p"
    using phase_send [OF send.hyps(2), of u] by (auto simp: col_inv_defs)
  then have "probe_reach limit (ps', xs[k := p])"
    using send probe_reach.step probe_step.send by (auto simp: col_inv_def)
  with send k show ?case by (fastforce simp: col_inv_defs nth_list_update)
next
  case (cancel c k xs ps p ps')
  then have k: "k < length xs" "k \<notin> snd ` set (colRunning c)" "phase_of u p"
    using phase_cancel [OF cancel.hyps(3)] by (auto simp: col_inv_defs)
  then have "probe_reach limit (ps', xs[k := p])"
    using cancel probe_reach.step probe_step.cancel by (auto simp: col_inv_def)
  with cancel k show ?case by (fastforce simp: col_inv_defs nth_list_update)
next
  case (granted c k xs v ps)
  then show ?case by (fastforce simp: col_inv_defs collect_defs less_Suc_eq)
next
  case (refused c k xs ps)
  then show ?case by (auto simp: col_inv_defs collect_defs nth_list_update less_Suc_eq)
next
  case (returned i k c r ps ps' xs)
  then have i: "k < length xs" "xs ! k = Holding u" "i < colNext c" "podReady (targets ! i)" by (auto simp: col_inv_defs)
  then have "probe_reach limit (ps', xs[k := Over])"
    using returned probe_reach.step probe_step.release by (auto simp: col_inv_def)
  moreover have rs: "distinct (map fst (colRunning c))" "distinct (map snd (colRunning c))"
    using returned.prems by (auto simp: col_inv_defs)
  note rm = remove_running [OF rs returned.hyps(1)]
  have "loop_ok u targets (xs[k := Over]) (collect_returned i k r c)"
    using returned i rm(1) by (auto simp: col_inv_defs collect_defs nth_list_update split: option.splits)
  moreover have "running_ok u targets (xs[k := Over]) (collect_returned i k r c)"
    using returned.prems rm by (fastforce simp: col_inv_defs collect_defs nth_list_update)
  moreover have "results_ok targets answers (collect_returned i k r c)"
    using returned i rm(1) by (fastforce simp: col_inv_defs collect_defs nth_list_update image_iff)
  ultimately show ?case by (simp add: col_inv_def)
qed

lemma col_env_inv:
  assumes "col_env \<sigma> \<tau>" and "col_inv limit u targets answers \<sigma>"
  shows "col_inv limit u targets answers \<tau>"
  using assms
proof (induction rule: col_env.induct)
  case (context_ends ps xs c)
  then show ?case by (simp add: col_inv_defs collect_defs split: option.splits)
next
  case (others ps xs ps' xs' c)
  have len: "length xs \<le> length xs'" using others.hyps(1) by (auto elim: probe_step.cases)
  have "probe_reach limit (ps', xs')" using others probe_reach.step by (auto simp: col_inv_def)
  moreover have "loop_ok u targets xs' c"
    using others len by (auto simp: col_inv_defs owned_calls_def split: option.splits)
  moreover have "running_ok u targets xs' c"
  proof -
    have r: "running_ok u targets xs c" using others.prems by (simp add: col_inv_def)
    have "xs' ! k = xs ! k" if "(i, k) \<in> set (colRunning c)" for i k
      using others.hyps(2) that by (force simp: owned_calls_def)
    with r len show ?thesis unfolding running_ok_def by (auto dest: order_less_le_trans)
  qed
  ultimately show ?case using others.prems by (simp add: col_inv_def)
qed

lemma col_reach_inv: "col_reach limit u targets answers \<sigma> \<Longrightarrow> col_inv limit u targets answers \<sigma>"
proof (induction rule: col_reach.induct)
  case (start ps xs ctxErr)
  then show ?case by (simp add: col_inv_defs collect_start_def)
qed (auto intro: col_step_inv col_env_inv)

section \<open>Results\<close>

lemma probed_loop_total: "i + length ps \<le> length results \<Longrightarrow> probed_loop uids results i ps members \<noteq> None"
  by (induction ps arbitrary: i members) (simp_all add: Let_def)

lemma conflictingPrimary_total:
  assumes "length probed \<le> length results"
  shows "conflictingPrimary K observed c probed current results primaries \<noteq> None"
proof -
  have "(probed_loop uids results 0 probed members = None) = False" for uids members using probed_loop_total assms by simp
  then show ?thesis by (auto simp: conflictingPrimary_def Let_def simp del: not_None_eq split: prod.split option.split)
qed

lemma publish_total:
  fixes s :: "'d observer"
  assumes "length probed \<le> length results"
  shows "publishObservation E ctx key observed probed results params conn started s \<noteq> None"
proof (cases "\<exists>latest. cluster key s = Some latest \<and> fst (parameters (api E) latest) \<and> GetDeletionTimestamp (api E) latest = None")
  case True
  then obtain latest where l: "cluster key s = Some latest" "fst (parameters (api E) latest)" "GetDeletionTimestamp (api E) latest = None"
    by blast
  obtain conflict primaries where cp: "(if GetUID (api E) observed = GetUID (api E) latest
      then conflictingPrimary (api E) observed latest probed (pods E latest s) results (oPrimaries s) else Some (False, oPrimaries s))
      = Some (conflict, primaries)"
    using conflictingPrimary_total [OF assms, of "api E" observed latest "pods E latest s" "oPrimaries s"]
    by (metis not_None_eq surj_pair)
  obtain mapped where m: "matchInstanceResults probed (pods E latest s) results = Some mapped" "length mapped = length (pods E latest s)"
    using matched_results_same_route [OF assms] by blast
  obtain b where "buildSnapshot (api E) latest (pods E latest s) mapped params started (optTTL (opts E)) = Some b"
    using buildSnapshot_total [of "pods E latest s" mapped] m(2) by (metis order_refl)
  then show ?thesis unfolding publishObservation_live [OF l cp] m(1) by (simp add: Let_def del: not_None_eq)
next
  case False
  then show ?thesis by (cases "cluster key s") (simp_all add: publishObservation_def)
qed

text \<open>
  C17: every collection that ends has a result for each Pod, in order, and none of them is the zero
  value a result starts from: it is an error, or what the request to that Pod, which was ready,
  returned. So publishing the collection cannot index out of range.
\<close>

theorem collection_complete:
  assumes "col_reach limit isUrgent targets answers (ps, xs, c)" and "collected targets c"
  shows "length (colResults c) = length targets \<and>
    (\<forall>i<length targets. srErr (colResults c ! i) \<noteq> None \<or> podReady (targets ! i) \<and> answers (targets ! i) (colResults c ! i)) \<and>
    publishObservation E ctx key observed targets (colResults c) params conn started s \<noteq> None"
proof -
  have "length (colResults c) = length targets" "results_ok targets answers c"
    using col_reach_inv [OF assms(1)] by (simp_all add: col_inv_def loop_ok_def)
  then show ?thesis using publish_total [of targets "colResults c"] assms(2) by (auto simp: results_ok_def collected_def)
qed

section \<open>Failing fast\<close>

text \<open>From index \<open>j\<close> on nothing has been probed and nothing will be.\<close>

definition halted :: "nat \<Rightarrow> probe list \<Rightarrow> collection \<Rightarrow> bool" where
  "halted j xs c \<longleftrightarrow> colStopped c \<and> j \<le> colNext c \<and> colNext c \<le> length (colResults c) \<and>
     (\<forall>i. j \<le> i \<and> i < colNext c \<longrightarrow> srErr (colResults c ! i) \<noteq> None) \<and> (\<forall>(i, k)\<in>set (colRunning c). i < j) \<and>
     (\<forall>k. colAcquire c = Some k \<longrightarrow> xs ! k = Over)"

inductive col_run :: "bool \<Rightarrow> pod list \<Rightarrow> (pod \<Rightarrow> statusResult \<Rightarrow> bool) \<Rightarrow> collecting \<Rightarrow> collecting \<Rightarrow> bool"
  for isUrgent targets answers where
  refl: "col_run isUrgent targets answers \<sigma> \<sigma>"
| own: "col_run isUrgent targets answers \<sigma> \<tau> \<Longrightarrow> col_step isUrgent targets answers \<tau> \<tau>' \<Longrightarrow> col_run isUrgent targets answers \<sigma> \<tau>'"
| env: "col_run isUrgent targets answers \<sigma> \<tau> \<Longrightarrow> col_env \<tau> \<tau>' \<Longrightarrow> col_run isUrgent targets answers \<sigma> \<tau>'"

lemma halted_step:
  assumes "col_step u targets answers \<sigma> \<tau>" and "\<sigma> = (ps, xs, c)" and "halted j xs c" and "col_inv limit u targets answers \<sigma>"
  shows "\<exists>ps' xs' c'. \<tau> = (ps', xs', c') \<and> halted j xs' c'"
  using assms
proof (induction arbitrary: ps xs c rule: col_step.induct)
  case (acquire c0 ps0 p ps0' xs0)
  then have "p = Over" by (simp add: halted_def acquire_start_def)
  with acquire show ?case by (auto simp: halted_def)
next
  case (send c0 k xs0 ps0 p ps0')
  then show ?case by (auto simp: halted_def)
next
  case (cancel c0 k xs0 ps0 p ps0')
  then show ?case by (auto simp: halted_def)
next
  case (granted c0 k xs0 v ps0)
  then show ?case by (auto simp: halted_def)
next
  case (returned i k c0 r ps0 ps0' xs0)
  then have "i < j" by (auto simp: halted_def)
  moreover have "(case colAcquire c0 of None \<Rightarrow> True | Some l \<Rightarrow> l \<noteq> k)" 
    using returned by (auto simp: col_inv_defs split: option.splits) (metis image_eqI snd_conv)
  ultimately show ?case using returned
    by (auto simp: halted_def collect_defs nth_list_update split: option.splits dest: notin_set_remove1)
qed (auto simp: halted_def collect_defs nth_list_update less_Suc_eq col_inv_defs)

lemma halted_env:
  assumes "col_env \<sigma> \<tau>" and "\<sigma> = (ps, xs, c)" and "halted j xs c"
  shows "\<exists>ps' xs' c'. \<tau> = (ps', xs', c') \<and> halted j xs' c'"
  using assms by (induction arbitrary: ps xs c rule: col_env.induct) (auto simp: halted_def collect_defs owned_calls_def)

lemma halted_run:
  assumes "col_run u targets answers \<sigma> \<tau>" and "col_inv limit u targets answers \<sigma>" and "\<sigma> = (ps, xs, c)" and "halted j xs c"
  shows "col_inv limit u targets answers \<tau> \<and> (\<exists>ps' xs' c'. \<tau> = (ps', xs', c') \<and> halted j xs' c')"
  using assms
proof (induction rule: col_run.induct)
  case (own \<sigma> \<tau> \<tau>')
  then show ?case using col_step_inv halted_step by blast
next
  case (env \<sigma> \<tau> \<tau>')
  then show ?case using col_env_inv halted_env by blast
qed blast

text \<open>
  A failed primary stops the collection. Once the context of the probes is cancelled between two
  iterations, by the verification of the expected primary or from outside, no further Pod is probed:
  in every continuation the result of each later Pod is an error. In particular no probe of a standby
  starts when the expected primary, which comes first, is not ready.
\<close>

theorem collection_fails_fast:
  assumes "col_reach limit isUrgent targets answers (ps, xs, c)" and "colStopped c" and "colAcquire c = None"
    and "col_run isUrgent targets answers (ps, xs, c) (ps', xs', c')"
  shows "(\<forall>i. colNext c \<le> i \<and> i < colNext c' \<longrightarrow> srErr (colResults c' ! i) \<noteq> None) \<and>
    (\<forall>(i, k)\<in>set (colRunning c'). i < colNext c)"
proof -
  have "col_inv limit isUrgent targets answers (ps, xs, c)" by (rule col_reach_inv [OF assms(1)])
  moreover from this have "halted (colNext c) xs c"
    using assms(2,3) by (auto simp: halted_def col_inv_defs)
  ultimately show ?thesis using halted_run [OF assms(4)] by (fastforce simp: halted_def)
qed

section \<open>The collection ends\<close>

fun phase_rank :: "probe \<Rightarrow> nat" where
  "phase_rank TryBackground = 7"
| "phase_rank WaitBackground = 6"
| "phase_rank (TryProbe _) = 5"
| "phase_rank (WaitProbe _) = 4"
| "phase_rank _ = 3"

text \<open>Eight transitions per Pod: six of the call, the end of its iteration, the return of its probe.\<close>

definition col_work :: "pod list \<Rightarrow> collecting \<Rightarrow> nat" where
  "col_work targets \<sigma> = (case \<sigma> of (ps, xs, c) \<Rightarrow> length (colRunning c) +
     (case colAcquire c of
        None \<Rightarrow> 8 * (length targets - colNext c)
      | Some k \<Rightarrow> 8 * (length targets - Suc (colNext c)) + phase_rank (xs ! k)))"

lemma rank_send: "acquire_send q ps = Some (p, ps') \<Longrightarrow> phase_rank p < phase_rank q"
  by (cases q) (auto split: option.splits)

lemma rank_cancel: "acquire_cancel q ps = Some (p, ps') \<Longrightarrow> phase_rank p < phase_rank q"
  by (cases q) (auto simp: cancelled_probe_def)

lemma rank_bound: "3 \<le> phase_rank p" "phase_rank p \<le> 7"
  by (cases p; simp)+

lemma col_step_work:
  assumes "col_step u targets answers \<sigma> \<tau>" and "col_inv limit u targets answers \<sigma>"
  shows "col_work targets \<tau> < col_work targets \<sigma>"
  using assms
proof (induction rule: col_step.induct)
  case (acquire c ps p ps' xs)
  then show ?case using rank_bound(2) [of p] by (simp add: col_work_def)
next
  case (send c k xs ps p ps')
  then show ?case using rank_send [OF send.hyps(2)] by (simp add: col_work_def col_inv_defs)
next
  case (cancel c k xs ps p ps')
  then show ?case using rank_cancel [OF cancel.hyps(3)] by (simp add: col_work_def col_inv_defs)
next
  case (returned i k c r ps ps' xs)
  then have "(case colAcquire c of None \<Rightarrow> True | Some l \<Rightarrow> l \<noteq> k)"
    by (auto simp: col_inv_defs split: option.splits) (metis image_eqI snd_conv)
  with returned length_pos_if_in_set [OF returned.hyps(1)] show ?case
    by (auto simp: col_work_def collect_defs length_remove1 nth_list_update split: option.splits)
qed (auto simp: col_work_def collect_defs)

lemma col_env_work:
  assumes "col_env \<sigma> \<tau>"
  shows "col_work targets \<tau> = col_work targets \<sigma>"
  using assms by (induction rule: col_env.induct) (auto simp: col_work_def collect_defs owned_calls_def split: option.splits)

lemma col_progress:
  assumes "1 \<le> limit" and "col_inv limit u targets answers (ps, xs, c)" and "colStopped c" and "\<not> collected targets c"
    and "\<forall>p. \<exists>r. answers p r"
  shows "\<exists>\<tau>. col_step u targets answers (ps, xs, c) \<tau>"
proof (cases "colRunning c")
  case (Cons r rs)
  obtain i k where r: "(i, k) \<in> set (colRunning c)" using Cons by (metis list.set_intros(1) surj_pair)
  then have "k < length xs" "xs ! k = Holding u" using assms(2) by (auto simp: col_inv_defs)
  moreover have "probe_inv limit (ps, xs)" using probe_reach_inv [OF assms(1)] assms(2) by (simp add: col_inv_def)
  ultimately obtain ps' where "release u ps = Some ps'" using release_enabled(1) by blast
  moreover obtain a where "answers (targets ! i) a" using assms(5) by blast
  ultimately have "col_step u targets answers (ps, xs, c) (ps', xs[k := Over], collect_returned i k a c)" by (intro col_step.returned r)
  then show ?thesis ..
next
  case Nil
  show ?thesis
  proof (cases "colAcquire c")
    case None
    then have "colNext c < length targets" using Nil assms(2,4) by (auto simp: col_inv_defs collected_def)
    then show ?thesis using None col_step.not_ready col_step.acquire by (metis surj_pair)
  next
    case (Some k)
    then have "k < length xs" using assms(2) by (simp add: col_inv_defs)
    then have "acquire_send (xs ! k) ps \<noteq> None \<or> acquire_cancel (xs ! k) ps \<noteq> None \<or> (\<exists>v. xs ! k = Holding v) \<or> xs ! k = Over"
      using release_enabled(2) [OF probe_reach_inv [OF assms(1)]] assms(2)
      by (cases "xs ! k") (auto simp: col_inv_def simp del: acquire_cancel.simps(2) split: option.splits)
    then show ?thesis using col_step.send [OF Some] col_step.cancel [OF Some assms(3)] col_step.granted [OF Some] col_step.refused [OF Some]
      by (metis not_None_eq surj_pair)
  qed
qed

text \<open>
  C18: a collection ends. Each of its own transitions uses up a bounded amount of work, at most eight
  per Pod, which nothing else increases; and once the context is cancelled, which the I/O budget of the
  observation guarantees, a transition is always possible until the collection is complete (status
  requests return, since their context is cancelled too).
\<close>

theorem collection_ends:
  assumes "1 \<le> limit" and "col_reach limit isUrgent targets answers (ps, xs, c)" and "\<forall>p. \<exists>r. answers p r"
  shows "(\<forall>\<tau>. col_step isUrgent targets answers (ps, xs, c) \<tau> \<longrightarrow> col_work targets \<tau> < col_work targets (ps, xs, c)) \<and>
    (\<forall>\<tau>. col_env (ps, xs, c) \<tau> \<longrightarrow> col_work targets \<tau> = col_work targets (ps, xs, c)) \<and>
    (colStopped c \<and> \<not> collected targets c \<longrightarrow> (\<exists>\<tau>. col_step isUrgent targets answers (ps, xs, c) \<tau>)) \<and>
    col_work targets (ps, xs, collect_start e targets) = 8 * length targets"
proof -
  have "col_work targets (ps, xs, collect_start e targets) = 8 * length targets" by (simp add: col_work_def collect_start_def)
  then show ?thesis
    using col_step_work [OF _ col_reach_inv [OF assms(2)]] col_env_work col_progress [OF assms(1) col_reach_inv [OF assms(2)] _ _ assms(3)]
    by blast
qed

section \<open>Witnesses\<close>

text \<open>A primary that is not ready and a standby that is: the standby is never probed.\<close>

definition two_pods :: "pod list" where
  "two_pods = [(sample_pod ''p1'')\<lparr>podConditions := []\<rparr>, sample_pod ''p2'']"

definition after_primary :: collection where
  "after_primary = collect_not_ready (collect_start False two_pods)"

definition refused_slots :: probe_slots where
  "refused_slots = snd (acquire_start True True (configureProbeLimits 2))"

definition after_standby :: collection where
  "after_standby = collect_refused ''context canceled'' (after_primary\<lparr>colAcquire := Some 0\<rparr>)"

lemma two_pods_facts:
  "\<not> podReady (two_pods ! 0)" "podReady (two_pods ! 1)" "length two_pods = 2" "colNext after_primary = 1" "colStopped after_primary"
  "colAcquire after_primary = None" "collected two_pods after_standby" "colNext after_standby = 2"
  by code_simp+

lemma after_primary_reach: "col_reach 2 True two_pods (\<lambda>_ _. True) (configureProbeLimits 2, [], after_primary)"
proof -
  let ?c = "collect_start False two_pods"
  have "col_reach 2 True two_pods (\<lambda>_ _. True) (configureProbeLimits 2, [], ?c)" by (rule col_reach.start [OF probe_reach.start])
  moreover have "col_step True two_pods (\<lambda>_ _. True) (configureProbeLimits 2, [], ?c) (configureProbeLimits 2, [], after_primary)"
    unfolding after_primary_def by (rule col_step.not_ready) (use two_pods_facts in \<open>simp_all add: collect_start_def\<close>)
  ultimately show ?thesis by (rule col_reach.own)
qed

lemma refused_steps:
  "col_step True two_pods (\<lambda>_ _. True) (configureProbeLimits 2, [], after_primary) (refused_slots, [Over], after_primary\<lparr>colAcquire := Some 0\<rparr>)"
  "col_step True two_pods (\<lambda>_ _. True) (refused_slots, [Over], after_primary\<lparr>colAcquire := Some 0\<rparr>) (refused_slots, [Over], after_standby)"
proof -
  have "acquire_start (colStopped after_primary) True (configureProbeLimits 2) = (Over, refused_slots)"
    by (simp add: two_pods_facts acquire_start_def refused_slots_def)
  then show "col_step True two_pods (\<lambda>_ _. True) (configureProbeLimits 2, [], after_primary) (refused_slots, [Over], after_primary\<lparr>colAcquire := Some 0\<rparr>)"
    using col_step.acquire [of after_primary two_pods True "configureProbeLimits 2" Over refused_slots "\<lambda>_ _. True" "[]"] two_pods_facts by simp
  show "col_step True two_pods (\<lambda>_ _. True) (refused_slots, [Over], after_primary\<lparr>colAcquire := Some 0\<rparr>) (refused_slots, [Over], after_standby)"
    unfolding after_standby_def by (rule col_step.refused [where k = 0]) simp_all
qed

theorem collection_complete_witness:
  "length (colResults after_standby) = 2 \<and> srErr (colResults after_standby ! 0) = Some ''pod not ready'' \<and>
   publishObservation sample_env 0 app_key (sample_cluster ''p1'' ''p1'') two_pods (colResults after_standby) zero_Parameters sample_connection 0
     (fresh :: sample_observer_state) \<noteq> None"
proof -
  have "srErr (colResults after_standby ! 0) = Some ''pod not ready''" by code_simp
  moreover have "col_reach 2 True two_pods (\<lambda>_ _. True) (refused_slots, [Over], after_standby)"
    by (rule col_reach.own [OF col_reach.own [OF after_primary_reach refused_steps(1)] refused_steps(2)])
  note all = collection_complete [OF this two_pods_facts(7), of sample_env 0 app_key "sample_cluster ''p1'' ''p1''" zero_Parameters sample_connection 0
     "fresh :: sample_observer_state"]
  have "length (colResults after_standby) = 2" using all two_pods_facts(3) by simp
  moreover have "publishObservation sample_env 0 app_key (sample_cluster ''p1'' ''p1'') two_pods (colResults after_standby) zero_Parameters sample_connection 0
     (fresh :: sample_observer_state) \<noteq> None" using all by blast
  ultimately show ?thesis by blast
qed

theorem collection_fails_fast_witness: "srErr (colResults after_standby ! 1) \<noteq> None \<and> podReady (two_pods ! 1)"
proof -
  have "col_run True two_pods (\<lambda>_ _. True) (configureProbeLimits 2, [], after_primary) (refused_slots, [Over], after_standby)"
    by (rule col_run.own [OF col_run.own [OF col_run.refl refused_steps(1)] refused_steps(2)])
  from collection_fails_fast [OF after_primary_reach two_pods_facts(5,6) this] two_pods_facts show ?thesis by simp
qed

theorem collection_ends_witness:
  "(\<exists>\<tau>. col_step True two_pods (\<lambda>_ _. True) (configureProbeLimits 2, [], after_primary) \<tau>) \<and>
   col_work two_pods (configureProbeLimits 2, [], collect_start False two_pods) = 16"
proof -
  have "\<not> collected two_pods after_primary" by code_simp
  with collection_ends [OF _ after_primary_reach, of False] two_pods_facts show ?thesis by simp
qed

end
