(* ===== verification/Status_Client.thy ===== *)
theory Status_Client
  imports Topology_Props
begin

text \<open>
  Status requests to the instances, \<open>internal/observer/status.go\<close>: the cache of HTTP clients, one per
  server name, pinned to the CA of the Cluster, and the request itself. Parsing certificates, the hash
  and HTTP are parameters. A call of \<open>statusClient\<close> locks the cache twice and builds a candidate in
  between, so concurrent calls, the periodic sweep and the shutdown interleave at these points.
\<close>

section \<open>State\<close>

text \<open>
  A client with what its TLS configuration trusts and its lowest version, whether its transport asks a proxy and whether
  it follows redirects (\<open>CheckRedirect\<close>), and its transport by an allocation number. The timeouts and the limits of
  its connection pool are not modelled: a request takes no time here.
\<close>

definition tls_VersionTLS12 :: nat where "tls_VersionTLS12 = 0x0303"

record 'r http_client =
  clRoots :: 'r
  clServerName :: string
  clMinVersion :: nat
  clProxied :: bool
  clFollowsRedirects :: bool
  clTransport :: nat

record ('h, 'r) statusClientEntry =
  seDigest :: 'h
  seClient :: "'r http_client"
  seLastUsed :: time

text \<open>\<open>scClosed\<close>: the transports whose idle connections were closed, in order.\<close>

record ('h, 'r) status_clients =
  scEntries :: "string \<rightharpoonup> ('h, 'r) statusClientEntry"
  scFresh :: nat
  scClosed :: "nat list"

definition no_clients :: "('h, 'r) status_clients" where
  "no_clients = \<lparr>scEntries = Map.empty, scFresh = 0, scClosed = []\<rparr>"

definition transport_of :: "('h, 'r) statusClientEntry \<Rightarrow> nat" where
  "transport_of e = clTransport (seClient e)"

section \<open>statusClient\<close>

text \<open>The lookup under the read lock; a hit renews the time of use.\<close>

definition touch :: "string \<Rightarrow> ('h, 'r) statusClientEntry \<Rightarrow> time \<Rightarrow> ('h, 'r) status_clients \<Rightarrow> ('h, 'r) status_clients" where
  "touch serverName e now st = st\<lparr>scEntries := (scEntries st)(serverName \<mapsto> e\<lparr>seLastUsed := now\<rparr>)\<rparr>"

definition statusClient_cached :: "(string \<Rightarrow> 'h) \<Rightarrow> string \<Rightarrow> string \<Rightarrow> time \<Rightarrow> ('h, 'r) status_clients
    \<Rightarrow> 'r http_client option \<times> ('h, 'r) status_clients" where
  "statusClient_cached sha pem serverName now st =
     (case scEntries st serverName of
        Some e \<Rightarrow> if seDigest e = sha pem then (Some (seClient e), touch serverName e now st) else (None, st)
      | None \<Rightarrow> (None, st))"

text \<open>Building a candidate, outside the locks.\<close>

definition statusClient_new :: "(string \<Rightarrow> 'r option) \<Rightarrow> string \<Rightarrow> string \<Rightarrow> ('h, 'r) status_clients
    \<Rightarrow> (string + 'r http_client) \<times> ('h, 'r) status_clients" where
  "statusClient_new parse pem serverName st =
     (case parse pem of
        None \<Rightarrow> (Inl ''invalid PostgreSQL server CA'', st)
      | Some roots \<Rightarrow> (Inr \<lparr>clRoots = roots, clServerName = serverName, clMinVersion = tls_VersionTLS12, clProxied = False,
          clFollowsRedirects = False, clTransport = scFresh st\<rparr>, st\<lparr>scFresh := Suc (scFresh st)\<rparr>))"

text \<open>The second critical section: another call may have installed the same client, or an older one.\<close>

definition statusClient_install :: "(string \<Rightarrow> 'h) \<Rightarrow> string \<Rightarrow> string \<Rightarrow> 'r http_client \<Rightarrow> time \<Rightarrow> ('h, 'r) status_clients
    \<Rightarrow> 'r http_client \<times> ('h, 'r) status_clients" where
  "statusClient_install sha pem serverName client now st =
     (let entry = \<lparr>seDigest = sha pem, seClient = client, seLastUsed = now\<rparr>;
          installed = st\<lparr>scEntries := (scEntries st)(serverName \<mapsto> entry)\<rparr>
      in case scEntries st serverName of
           None \<Rightarrow> (client, installed)
         | Some existing \<Rightarrow>
             (if seDigest existing = sha pem then (seClient existing, touch serverName existing now st)
              else (client, installed\<lparr>scClosed := scClosed st @ [transport_of existing]\<rparr>)))"

definition statusClient :: "(string \<Rightarrow> 'h) \<Rightarrow> (string \<Rightarrow> 'r option) \<Rightarrow> string \<Rightarrow> string \<Rightarrow> time \<Rightarrow> ('h, 'r) status_clients
    \<Rightarrow> (string + 'r http_client) \<times> ('h, 'r) status_clients" where
  "statusClient sha parse pem serverName now st =
     (case statusClient_cached sha pem serverName now st of
        (Some client, st) \<Rightarrow> (Inr client, st)
      | (None, st) \<Rightarrow>
          (case statusClient_new parse pem serverName st of
             (Inl e, st) \<Rightarrow> (Inl e, st)
           | (Inr client, st) \<Rightarrow> (case statusClient_install sha pem serverName client now st of (client, st) \<Rightarrow> (Inr client, st))))"

section \<open>Sweep and shutdown\<close>

text \<open>\<open>keys\<close> is the order in which the map is iterated over.\<close>

definition idle_for :: "time \<Rightarrow> ('h, 'r) statusClientEntry \<Rightarrow> bool" where
  "idle_for now e \<longleftrightarrow> now - seLastUsed e \<ge> Minute"

definition prune_clients :: "string list \<Rightarrow> time \<Rightarrow> ('h, 'r) status_clients \<Rightarrow> ('h, 'r) status_clients" where
  "prune_clients keys now st =
     (let retired = filter (\<lambda>k. case scEntries st k of Some e \<Rightarrow> idle_for now e | None \<Rightarrow> False) keys in
        st\<lparr>scEntries := (scEntries st) |` (- set retired),
           scClosed := scClosed st @ map (\<lambda>k. transport_of (the (scEntries st k))) retired\<rparr>)"

definition closeStatusClients :: "string list \<Rightarrow> ('h, 'r) status_clients \<Rightarrow> ('h, 'r) status_clients" where
  "closeStatusClients keys st =
     st\<lparr>scEntries := Map.empty, scClosed := scClosed st @ map (\<lambda>k. transport_of (the (scEntries st k))) keys\<rparr>"

section \<open>Requests\<close>

text \<open>
  \<open>validURL\<close>: \<open>http.NewRequestWithContext\<close> accepts the address. \<open>Do\<close>: the answer of a request, a status code
  and the body, reading which may fail.
\<close>

record 'r http =
  validURL :: "string \<Rightarrow> bool"
  Do :: "'r http_client \<Rightarrow> string \<Rightarrow> string + (int \<times> (string + string))"

datatype read_error = NoPodIP | BadCA | BadURL | RequestFailed | HTTPStatus int | ReadFailed | TooLarge | BadStatus status_error

definition status_limit :: nat where
  "status_limit = 4 * 2 ^ 20"

definition readStatusHTTP :: "golib \<Rightarrow> 'r http \<Rightarrow> 'r http_client \<Rightarrow> string \<Rightarrow> read_error + instanceStatus" where
  "readStatusHTTP L H client address =
     (if \<not> validURL H address then Inl BadURL
      else case Do H client address of
        Inl e \<Rightarrow> Inl RequestFailed
      | Inr (code, body) \<Rightarrow>
          (if code \<noteq> 200 then Inl (HTTPStatus code)
           else case body of
             Inl e \<Rightarrow> Inl ReadFailed
           | Inr bytes \<Rightarrow>
               (let data = take (Suc status_limit) bytes in
                  if length data > status_limit then Inl TooLarge
                  else case decodeStatus L data of Inl e \<Rightarrow> Inl (BadStatus e) | Inr status \<Rightarrow> Inr status)))"

definition status_address :: "pod \<Rightarrow> string" where
  "status_address p = statusScheme p @ ''://'' @ JoinHostPort (podIP p) 8000 @ ''/pg/status''"

definition readStatus :: "golib \<Rightarrow> 'r http \<Rightarrow> (string \<Rightarrow> 'h) \<Rightarrow> (string \<Rightarrow> 'r option) \<Rightarrow> pod \<Rightarrow> string \<Rightarrow> string \<Rightarrow> time \<Rightarrow> ('h, 'r) status_clients
    \<Rightarrow> (read_error + instanceStatus) \<times> ('h, 'r) status_clients" where
  "readStatus L H sha parse p pem serverName now st =
     (if \<not> ParseIP L (podIP p) then (Inl NoPodIP, st)
      else case statusClient sha parse pem serverName now st of
        (Inl e, st) \<Rightarrow> (Inl BadCA, st)
      | (Inr client, st) \<Rightarrow> (readStatusHTTP L H client (status_address p), st))"

section \<open>All calls together\<close>

text \<open>A call of \<open>statusClient\<close> for a CA and a server name: before the lookup, with a candidate, returned.\<close>

datatype 'r client_call =
  Wants string string | Candidate string string "'r http_client" | Returned string string "'r http_client" | Refused

inductive sc_step :: "(string \<Rightarrow> 'h) \<Rightarrow> (string \<Rightarrow> 'r option) \<Rightarrow> ('h, 'r) status_clients \<times> 'r client_call list
    \<Rightarrow> ('h, 'r) status_clients \<times> 'r client_call list \<Rightarrow> bool" for sha parse where
  called: "sc_step sha parse (st, cs) (st, cs @ [Wants pem name])"
| hit: "i < length cs \<Longrightarrow> cs ! i = Wants pem name \<Longrightarrow> statusClient_cached sha pem name now st = (Some cl, st') \<Longrightarrow>
    sc_step sha parse (st, cs) (st', cs[i := Returned pem name cl])"
| miss: "i < length cs \<Longrightarrow> cs ! i = Wants pem name \<Longrightarrow> statusClient_new parse pem name st = (Inr cl, st') \<Longrightarrow>
    sc_step sha parse (st, cs) (st', cs[i := Candidate pem name cl])"
| refuse: "i < length cs \<Longrightarrow> cs ! i = Wants pem name \<Longrightarrow> statusClient_new parse pem name st = (Inl e, st') \<Longrightarrow>
    sc_step sha parse (st, cs) (st', cs[i := Refused])"
| install: "i < length cs \<Longrightarrow> cs ! i = Candidate pem name cl0 \<Longrightarrow> statusClient_install sha pem name cl0 now st = (cl, st') \<Longrightarrow>
    sc_step sha parse (st, cs) (st', cs[i := Returned pem name cl])"
| prune: "set keys = dom (scEntries st) \<Longrightarrow> distinct keys \<Longrightarrow> sc_step sha parse (st, cs) (prune_clients keys now st, cs)"
| close: "set keys = dom (scEntries st) \<Longrightarrow> distinct keys \<Longrightarrow> sc_step sha parse (st, cs) (closeStatusClients keys st, cs)"

inductive sc_reach :: "(string \<Rightarrow> 'h) \<Rightarrow> (string \<Rightarrow> 'r option) \<Rightarrow> ('h, 'r) status_clients \<times> 'r client_call list \<Rightarrow> bool" for sha parse where
  start: "sc_reach sha parse (no_clients, [])"
| step: "sc_reach sha parse \<sigma> \<Longrightarrow> sc_step sha parse \<sigma> \<tau> \<Longrightarrow> sc_reach sha parse \<tau>"

section \<open>Invariant\<close>

text \<open>A client that may be used for a CA with digest \<open>d\<close> and a server name.\<close>

definition pinned :: "(string \<Rightarrow> 'h) \<Rightarrow> (string \<Rightarrow> 'r option) \<Rightarrow> 'h \<Rightarrow> string \<Rightarrow> 'r http_client \<Rightarrow> bool" where
  "pinned sha parse d name cl \<longleftrightarrow> clServerName cl = name \<and> (\<exists>pem. sha pem = d \<and> parse pem = Some (clRoots cl)) \<and>
     clMinVersion cl = tls_VersionTLS12 \<and> \<not> clProxied cl \<and> \<not> clFollowsRedirects cl"

definition entries_ok :: "(string \<Rightarrow> 'h) \<Rightarrow> (string \<Rightarrow> 'r option) \<Rightarrow> ('h, 'r) status_clients \<Rightarrow> bool" where
  "entries_ok sha parse st \<longleftrightarrow> (\<forall>name e. scEntries st name = Some e \<longrightarrow>
     pinned sha parse (seDigest e) name (seClient e) \<and> transport_of e < scFresh st \<and> transport_of e \<notin> set (scClosed st)) \<and>
     (\<forall>a b e f. scEntries st a = Some e \<and> scEntries st b = Some f \<and> transport_of e = transport_of f \<longrightarrow> a = b) \<and>
     distinct (scClosed st) \<and> (\<forall>t\<in>set (scClosed st). t < scFresh st)"

fun candidate_of :: "'r client_call \<Rightarrow> nat option" where
  "candidate_of (Candidate _ _ cl) = Some (clTransport cl)"
| "candidate_of _ = None"

text \<open>Candidates are private: not in the cache, not closed, and each its own.\<close>

fun call_ok :: "(string \<Rightarrow> 'h) \<Rightarrow> (string \<Rightarrow> 'r option) \<Rightarrow> ('h, 'r) status_clients \<Rightarrow> 'r client_call \<Rightarrow> bool" where
  "call_ok sha parse st (Candidate pem name cl) \<longleftrightarrow> pinned sha parse (sha pem) name cl \<and> clTransport cl < scFresh st \<and>
     clTransport cl \<notin> set (scClosed st) \<and> (\<forall>n e. scEntries st n = Some e \<longrightarrow> transport_of e \<noteq> clTransport cl)"
| "call_ok sha parse st (Returned pem name cl) \<longleftrightarrow> pinned sha parse (sha pem) name cl"
| "call_ok sha parse st _ \<longleftrightarrow> True"

definition calls_ok :: "(string \<Rightarrow> 'h) \<Rightarrow> (string \<Rightarrow> 'r option) \<Rightarrow> ('h, 'r) status_clients \<Rightarrow> 'r client_call list \<Rightarrow> bool" where
  "calls_ok sha parse st cs \<longleftrightarrow> (\<forall>q\<in>set cs. call_ok sha parse st q) \<and>
     (\<forall>i<length cs. \<forall>j<length cs. candidate_of (cs ! i) \<noteq> None \<and> candidate_of (cs ! i) = candidate_of (cs ! j) \<longrightarrow> i = j)"

definition sc_inv :: "(string \<Rightarrow> 'h) \<Rightarrow> (string \<Rightarrow> 'r option) \<Rightarrow> ('h, 'r) status_clients \<times> 'r client_call list \<Rightarrow> bool" where
  "sc_inv sha parse \<sigma> \<longleftrightarrow> (case \<sigma> of (st, cs) \<Rightarrow> entries_ok sha parse st \<and> calls_ok sha parse st cs)"

text \<open>What a hit, the sweep and the shutdown do: entries keep their clients or go, and what goes is closed.\<close>

definition narrows :: "('h, 'r) status_clients \<Rightarrow> ('h, 'r) status_clients \<Rightarrow> bool" where
  "narrows st st' \<longleftrightarrow> scFresh st' = scFresh st \<and>
     (\<forall>n f'. scEntries st' n = Some f' \<longrightarrow> (\<exists>f. scEntries st n = Some f \<and> seDigest f' = seDigest f \<and> seClient f' = seClient f)) \<and>
     (\<exists>ts. scClosed st' = scClosed st @ ts \<and> distinct ts \<and>
        (\<forall>t\<in>set ts. (\<exists>n f. scEntries st n = Some f \<and> transport_of f = t) \<and> (\<forall>n f'. scEntries st' n = Some f' \<longrightarrow> transport_of f' \<noteq> t)))"

lemma narrows_entries:
  assumes "narrows st st'" and "entries_ok sha parse st"
  shows "entries_ok sha parse st'"
proof -
  obtain ts where ts: "scClosed st' = scClosed st @ ts" "distinct ts"
    "\<forall>t\<in>set ts. (\<exists>n f. scEntries st n = Some f \<and> transport_of f = t) \<and> (\<forall>n f'. scEntries st' n = Some f' \<longrightarrow> transport_of f' \<noteq> t)"
    using assms(1) unfolding narrows_def by blast
  have old: "\<exists>f. scEntries st n = Some f \<and> seDigest f' = seDigest f \<and> seClient f' = seClient f" if "scEntries st' n = Some f'" for n f'
    using assms(1) that unfolding narrows_def by blast
  have fresh: "scFresh st' = scFresh st" using assms(1) by (simp add: narrows_def)
  have E: "pinned sha parse (seDigest e) name (seClient e)" "transport_of e < scFresh st" "transport_of e \<notin> set (scClosed st)"
    if "scEntries st name = Some e" for name e
    using assms(2) that unfolding entries_ok_def by blast+
  have U: "a = b" if "scEntries st a = Some e" "scEntries st b = Some f" "transport_of e = transport_of f" for a b e f
    using assms(2) that unfolding entries_ok_def by blast
  have C: "distinct (scClosed st)" "\<forall>t\<in>set (scClosed st). t < scFresh st" using assms(2) unfolding entries_ok_def by blast+
  show ?thesis unfolding entries_ok_def fresh
  proof (intro conjI allI impI ballI)
    fix name e
    assume e: "scEntries st' name = Some e"
    from old [OF e] obtain f where f: "scEntries st name = Some f" "seDigest e = seDigest f" "seClient e = seClient f" by blast
    have t: "transport_of e = transport_of f" by (simp add: transport_of_def f(3))
    have "transport_of e \<notin> set ts" using e ts(3) by blast
    then show "pinned sha parse (seDigest e) name (seClient e)" "transport_of e < scFresh st" "transport_of e \<notin> set (scClosed st')"
      using E [OF f(1)] by (simp_all add: f t ts(1))
  next
    fix a b e f
    assume "scEntries st' a = Some e \<and> scEntries st' b = Some f \<and> transport_of e = transport_of f"
    then show "a = b" using old U by (metis transport_of_def)
  next
    show "distinct (scClosed st')" using ts C(1) E(3) by fastforce
  next
    fix t
    assume "t \<in> set (scClosed st')"
    then show "t < scFresh st" using ts C(2) E(2) by auto
  qed
qed

lemma narrows_calls:
  assumes "narrows st st'" and "calls_ok sha parse st cs"
  shows "calls_ok sha parse st' cs"
proof -
  obtain ts where ts: "scClosed st' = scClosed st @ ts" "\<forall>t\<in>set ts. \<exists>n f. scEntries st n = Some f \<and> transport_of f = t"
    using assms(1) unfolding narrows_def by blast
  have old: "\<exists>f. scEntries st n = Some f \<and> transport_of f' = transport_of f" if "scEntries st' n = Some f'" for n f'
    using assms(1) that unfolding narrows_def transport_of_def by metis
  have fresh: "scFresh st' = scFresh st" using assms(1) by (simp add: narrows_def)
  have "call_ok sha parse st' q" if "call_ok sha parse st q" for q
  proof (cases q)
    case (Candidate pem name cl)
    with that have c: "pinned sha parse (sha pem) name cl" "clTransport cl < scFresh st" "clTransport cl \<notin> set (scClosed st)"
      "\<forall>n e. scEntries st n = Some e \<longrightarrow> transport_of e \<noteq> clTransport cl" by simp_all
    have "clTransport cl \<notin> set ts" using ts(2) c(4) by metis
    moreover have "\<forall>n e. scEntries st' n = Some e \<longrightarrow> transport_of e \<noteq> clTransport cl" using old c(4) by metis
    ultimately show ?thesis using c Candidate by (simp add: fresh ts(1))
  qed (use that in simp_all)
  then show ?thesis using assms(2) unfolding calls_ok_def by blast
qed

lemma narrows_touch: "scEntries st name = Some e \<Longrightarrow> narrows st (touch name e now st)"
  by (auto simp: narrows_def touch_def split: if_splits)

lemma narrows_retire:
  assumes "entries_ok sha parse st" and "distinct ks" and "\<forall>k\<in>set ks. scEntries st k \<noteq> None"
    and "scEntries st' = (scEntries st) |` (- set ks)" and "scFresh st' = scFresh st"
    and "scClosed st' = scClosed st @ map (\<lambda>k. transport_of (the (scEntries st k))) ks"
  shows "narrows st st'"
proof -
  let ?f = "\<lambda>k. transport_of (the (scEntries st k))"
  have U: "a = b" if "scEntries st a = Some e" "scEntries st b = Some f" "transport_of e = transport_of f" for a b e f
    using assms(1) that unfolding entries_ok_def by blast
  have inj: "a = b" if a: "a \<in> set ks" and b: "scEntries st b = Some f" "?f a = transport_of f" for a b f
  proof -
    obtain e where e: "scEntries st a = Some e" using a assms(3) by blast
    then have "transport_of e = transport_of f" using b(2) by simp
    then show ?thesis by (rule U [OF e b(1)])
  qed
  have "inj_on ?f (set ks)"
  proof (rule inj_onI)
    fix a b
    assume ab: "a \<in> set ks" "b \<in> set ks" "?f a = ?f b"
    obtain f where "scEntries st b = Some f" using ab(2) assms(3) by force
    moreover from this have "?f a = transport_of f" using ab(3) by simp
    ultimately show "a = b" by (rule inj [OF ab(1)])
  qed
  then have "distinct (map ?f ks)" using assms(2) by (simp add: distinct_map)
  moreover have "(\<exists>n f. scEntries st n = Some f \<and> transport_of f = t) \<and> (\<forall>n f'. scEntries st' n = Some f' \<longrightarrow> transport_of f' \<noteq> t)"
    if t: "t \<in> set (map ?f ks)" for t
  proof -
    obtain k e where k: "k \<in> set ks" "scEntries st k = Some e" "t = transport_of e" using t assms(3) by force
    then have "transport_of f' \<noteq> t" if "scEntries st' n = Some f'" for n f'
      using U [of n f' k e] that assms(4) by (auto simp: restrict_map_def split: if_splits)
    with k show ?thesis by blast
  qed
  ultimately show ?thesis unfolding narrows_def assms(4-6) by (auto simp: restrict_map_def split: if_splits)
qed

lemma narrows_prune:
  assumes "entries_ok sha parse st" and "set keys = dom (scEntries st)" and "distinct keys"
  shows "narrows st (prune_clients keys now st)" "narrows st (closeStatusClients keys st)"
proof -
  show "narrows st (prune_clients keys now st)"
    by (rule narrows_retire [OF assms(1), where ks = "filter (\<lambda>k. case scEntries st k of Some e \<Rightarrow> idle_for now e | None \<Rightarrow> False) keys"])
      (use assms(3) in \<open>simp_all add: prune_clients_def Let_def split: option.splits\<close>)
  show "narrows st (closeStatusClients keys st)"
    by (rule narrows_retire [OF assms(1), where ks = keys])
      (use assms(2,3) in \<open>auto simp: closeStatusClients_def restrict_map_def fun_eq_iff\<close>)
qed

lemma unique_update:
  assumes "\<forall>i<length cs. \<forall>j<length cs. f (cs ! i) \<noteq> None \<and> f (cs ! i) = f (cs ! j) \<longrightarrow> i = j"
    and "f q = None \<or> (\<forall>p\<in>set cs. f p \<noteq> f q)"
  shows "\<forall>i<length (cs[k := q]). \<forall>j<length (cs[k := q]). f (cs[k := q] ! i) \<noteq> None \<and> f (cs[k := q] ! i) = f (cs[k := q] ! j) \<longrightarrow> i = j"
proof (cases "k < length cs")
  case True
  show ?thesis
  proof (intro allI impI)
    fix i j
    assume ij: "i < length (cs[k := q])" "j < length (cs[k := q])"
      "f (cs[k := q] ! i) \<noteq> None \<and> f (cs[k := q] ! i) = f (cs[k := q] ! j)"
    then show "i = j" using assms True by (cases "i = k"; cases "j = k") (auto simp: nth_list_update)
  qed
qed (use assms in \<open>simp add: list_update_beyond\<close>)

lemma calls_ok_update:
  assumes "calls_ok sha parse st cs" and "call_ok sha parse st q" and "candidate_of q = None \<or> (\<forall>p\<in>set cs. candidate_of p \<noteq> candidate_of q)"
  shows "calls_ok sha parse st (cs[k := q])"
  using assms unique_update [of cs candidate_of q k] set_update_subset_insert [of cs k q] unfolding calls_ok_def by blast

lemma sc_inv_call:
  assumes "sc_inv sha parse (st, cs)" and "narrows st st'" and "call_ok sha parse st' q" and "candidate_of q = None"
  shows "sc_inv sha parse (st', cs[i := q])"
  using assms narrows_calls narrows_entries calls_ok_update by (fastforce simp: sc_inv_def)

text \<open>
  A fresh client takes the place of an entry: the transport it replaces is closed, and no other cached client or
  candidate has that one or the fresh one.
\<close>

definition replaced :: "('h, 'c) status_clients \<Rightarrow> string \<Rightarrow> nat list" where
  "replaced st name = (case scEntries st name of None \<Rightarrow> [] | Some x \<Rightarrow> [transport_of x])"

lemma in_replaced: "t \<in> set (replaced st name) \<longleftrightarrow> (\<exists>x. scEntries st name = Some x \<and> t = transport_of x)"
  by (cases "scEntries st name") (auto simp: replaced_def)

lemma replace_entries:
  assumes e: "entries_ok sha parse st" and new: "pinned sha parse (seDigest new) name (seClient new)" "transport_of new < scFresh st"
      "transport_of new \<notin> set (scClosed st)" "\<forall>n e. scEntries st n = Some e \<longrightarrow> transport_of e \<noteq> transport_of new"
    and r: "scEntries st' = (scEntries st)(name \<mapsto> new)" "scFresh st' = scFresh st" "scClosed st' = scClosed st @ replaced st name"
  shows "entries_ok sha parse st'"
  unfolding entries_ok_def r(2)
proof (intro conjI allI impI ballI)
  have E: "pinned sha parse (seDigest x) m (seClient x) \<and> transport_of x < scFresh st \<and> transport_of x \<notin> set (scClosed st)"
    if "scEntries st m = Some x" for m x using e that unfolding entries_ok_def by blast
  have U: "a = b" if "scEntries st a = Some x" "scEntries st b = Some y" "transport_of x = transport_of y" for a b x y
    using e that unfolding entries_ok_def by blast
  have C: "distinct (scClosed st)" "\<forall>t\<in>set (scClosed st). t < scFresh st" using e unfolding entries_ok_def by blast+
  have at: "scEntries st' m = Some x \<longleftrightarrow> (if m = name then x = new else scEntries st m = Some x)" for m x by (auto simp: r(1))
  {
    fix m x
    assume x: "scEntries st' m = Some x"
    have "pinned sha parse (seDigest x) m (seClient x) \<and> transport_of x < scFresh st \<and> transport_of x \<notin> set (scClosed st) \<and>
      transport_of x \<notin> set (replaced st name)"
    proof (cases "m = name")
      case True
      then have "x = new" using x at by simp
      moreover have "transport_of new \<notin> set (replaced st name)" using new(4) in_replaced [of "transport_of new" st name] by metis
      ultimately show ?thesis using True new(1-3) by simp
    next
      case False
      then have o: "scEntries st m = Some x" using x at by simp
      then show ?thesis using E [OF o] U [OF o] False in_replaced [of "transport_of x" st name] by blast
    qed
    then show "pinned sha parse (seDigest x) m (seClient x)" "transport_of x < scFresh st" "transport_of x \<notin> set (scClosed st')"
      unfolding r(3) by auto
  }
  show "a = b" if "scEntries st' a = Some x \<and> scEntries st' b = Some y \<and> transport_of x = transport_of y" for a b x y
    using that U [of a x b y] new(4) unfolding at by (metis (full_types))
  show "distinct (scClosed st')" using C(1) E [of name] unfolding r(3) replaced_def by (auto split: option.split)
  show "t < scFresh st" if "t \<in> set (scClosed st')" for t
    using that C(2) E [of name] unfolding r(3) replaced_def by (auto split: option.split_asm)
qed

lemma replace_call:
  assumes q: "call_ok sha parse st q" and "candidate_of q \<noteq> Some (transport_of new)"
    and r: "scEntries st' = (scEntries st)(name \<mapsto> new)" "scFresh st' = scFresh st" "scClosed st' = scClosed st @ replaced st name"
  shows "call_ok sha parse st' q"
proof (cases q)
  case (Candidate pem name' cl)
  then have "clTransport cl \<notin> set (replaced st name)" using q in_replaced [of _ st name] by fastforce
  then show ?thesis using assms Candidate by (auto split: if_split_asm)
qed (use q in simp_all)

lemma install_inv:
  assumes "sc_inv sha parse (st, cs)" and "i < length cs" and "cs ! i = Candidate pem name cl0"
    and "statusClient_install sha pem name cl0 now st = (cl, st')"
  shows "sc_inv sha parse (st', cs[i := Returned pem name cl])"
proof (cases "\<exists>x. scEntries st name = Some x \<and> seDigest x = sha pem")
  case True
  then obtain x where x: "scEntries st name = Some x" "seDigest x = sha pem" by blast
  then have r: "cl = seClient x" "st' = touch name x now st" using assms(4) by (simp_all add: statusClient_install_def Let_def)
  have "call_ok sha parse st' (Returned pem name cl)" using assms(1) x unfolding sc_inv_def entries_ok_def r by fastforce
  then show ?thesis using sc_inv_call [OF assms(1) narrows_touch [OF x(1)]] unfolding r by simp
next
  case False
  let ?new = "\<lparr>seDigest = sha pem, seClient = cl0, seLastUsed = now\<rparr>" and ?cs = "cs[i := Returned pem name cl]"
  have e: "entries_ok sha parse st" and c: "calls_ok sha parse st cs" using assms(1) by (simp_all add: sc_inv_def)
  have p: "call_ok sha parse st (Candidate pem name cl0)" using c assms(2,3) nth_mem [OF assms(2)] unfolding calls_ok_def by force
  have n: "transport_of ?new = clTransport cl0" by (simp add: transport_of_def)
  have r: "cl = cl0" "scEntries st' = (scEntries st)(name \<mapsto> ?new)" "scFresh st' = scFresh st" "scClosed st' = scClosed st @ replaced st name"
    using assms(4) False by (auto simp: statusClient_install_def replaced_def Let_def split: option.splits)
  have "entries_ok sha parse st'" using p n by (intro replace_entries [OF e _ _ _ _ r(2-4)]) auto
  moreover have "call_ok sha parse st' q" if q: "q \<in> set ?cs" for q
  proof -
    obtain j where j: "j < length cs" "q = ?cs ! j" using q by (metis in_set_conv_nth length_list_update)
    show ?thesis
    proof (cases "j = i")
      case False
      then have q': "q = cs ! j" "call_ok sha parse st q" using j c by (auto simp: calls_ok_def)
      have "candidate_of q \<noteq> Some (transport_of ?new)"
        using c False j(1) assms(2,3) q'(1) n unfolding calls_ok_def by (metis candidate_of.simps(1) option.distinct(1))
      then show ?thesis using replace_call [OF q'(2) _ r(2-4)] by simp
    qed (use j p r(1) in simp)
  qed
  moreover have "\<forall>k<length ?cs. \<forall>j<length ?cs. candidate_of (?cs ! k) \<noteq> None \<and> candidate_of (?cs ! k) = candidate_of (?cs ! j) \<longrightarrow> k = j"
    by (rule unique_update [OF c [unfolded calls_ok_def, THEN conjunct2]]) simp
  ultimately show ?thesis by (simp add: sc_inv_def calls_ok_def)
qed

lemma client_new_inv:
  assumes "sc_inv sha parse (st, cs)" and "i < length cs" and "statusClient_new parse pem name st = (Inr cl, st')"
  shows "sc_inv sha parse (st', cs[i := Candidate pem name cl])"
proof -
  from assms(3) have r: "parse pem = Some (clRoots cl)" "clServerName cl = name" "clTransport cl = scFresh st" "st' = st\<lparr>scFresh := Suc (scFresh st)\<rparr>"
    "clMinVersion cl = tls_VersionTLS12" "\<not> clProxied cl" "\<not> clFollowsRedirects cl"
    by (auto simp: statusClient_new_def split: option.splits)
  have e: "entries_ok sha parse st" and c: "calls_ok sha parse st cs" using assms(1) by (simp_all add: sc_inv_def)
  have e': "entries_ok sha parse st'" using e unfolding entries_ok_def r(4) by (auto intro: less_SucI)
  have "call_ok sha parse st' q" if "call_ok sha parse st q" for q
    using that by (cases q) (simp_all add: r(4))
  then have c': "calls_ok sha parse st' cs" using c unfolding calls_ok_def by blast
  have "candidate_of q \<noteq> Some (scFresh st)" if "q \<in> set cs" for q
    using c that unfolding calls_ok_def by (cases q) fastforce+
  moreover have "call_ok sha parse st' (Candidate pem name cl)"
    using e r by (fastforce simp: entries_ok_def pinned_def)
  ultimately show ?thesis using e' calls_ok_update [OF c', of "Candidate pem name cl" i] by (simp add: sc_inv_def r(3))
qed

lemma sc_step_inv: "sc_step sha parse \<sigma> \<tau> \<Longrightarrow> sc_inv sha parse \<sigma> \<Longrightarrow> sc_inv sha parse \<tau>"
proof (induction rule: sc_step.induct)
  case (called st cs pem name)
  then show ?case by (auto simp: sc_inv_def calls_ok_def nth_append less_Suc_eq)
next
  case (hit i cs pem name now st cl st')
  then obtain e where e: "scEntries st name = Some e" "seDigest e = sha pem" "cl = seClient e" "st' = touch name e now st"
    by (auto simp: statusClient_cached_def split: option.splits if_splits)
  then have c: "call_ok sha parse st' (Returned pem name cl)" using hit.prems by (fastforce simp: sc_inv_def entries_ok_def)
  have "narrows st st'" unfolding e(4) by (rule narrows_touch [OF e(1)])
  then show ?case by (rule sc_inv_call [OF hit.prems _ c]) simp
next
  case (refuse i cs pem name st e st')
  then have "st' = st" by (auto simp: statusClient_new_def split: option.splits)
  then show ?case using refuse calls_ok_update [of sha parse st cs Refused i] by (simp add: sc_inv_def)
next
  case (prune keys st cs now)
  then show ?case using narrows_prune(1) narrows_entries narrows_calls by (fastforce simp: sc_inv_def)
next
  case (close keys st cs)
  then show ?case using narrows_prune(2) narrows_entries narrows_calls by (fastforce simp: sc_inv_def)
qed (auto intro: install_inv client_new_inv)

lemma sc_reach_inv: "sc_reach sha parse \<sigma> \<Longrightarrow> sc_inv sha parse \<sigma>"
proof (induction rule: sc_reach.induct)
  case start
  then show ?case by (simp add: sc_inv_def entries_ok_def calls_ok_def no_clients_def)
qed (rule sc_step_inv)

text \<open>
  C19: status requests trust only the Cluster's CA. Under every interleaving of calls, sweeps and shutdown,
  the client a call returns verifies the server name that was asked for against the roots of a CA with
  the digest of the one given (that very CA, unless the hash has a collision), even when another call
  replaced the cache entry meanwhile; it speaks TLS 1.2 or later, asks no proxy and follows no redirect. No transport is closed twice, none that is still in the cache
  is closed, and no two entries share one.
\<close>

theorem status_clients_pinned:
  assumes "sc_reach sha parse (st, cs)"
  shows "(\<forall>pem name cl. Returned pem name cl \<in> set cs \<longrightarrow>
      clServerName cl = name \<and> (\<exists>pem'. sha pem' = sha pem \<and> parse pem' = Some (clRoots cl)) \<and>
      clMinVersion cl = tls_VersionTLS12 \<and> \<not> clProxied cl \<and> \<not> clFollowsRedirects cl) \<and>
    distinct (scClosed st) \<and> (\<forall>name e. scEntries st name = Some e \<longrightarrow> transport_of e \<notin> set (scClosed st)) \<and>
    (\<forall>a b e f. scEntries st a = Some e \<and> scEntries st b = Some f \<and> transport_of e = transport_of f \<longrightarrow> a = b)"
proof -
  have inv: "entries_ok sha parse st" "\<forall>q\<in>set cs. call_ok sha parse st q"
    using sc_reach_inv [OF assms] by (simp_all add: sc_inv_def calls_ok_def)
  have "pinned sha parse (sha pem) name cl" if "Returned pem name cl \<in> set cs" for pem name cl
    using bspec [OF inv(2) that] by simp
  then show ?thesis using inv(1) by (simp add: entries_ok_def pinned_def)
qed

section \<open>What a status is\<close>

text \<open>The sweep keeps exactly the entries used within the last minute.\<close>

lemma prune_keeps:
  assumes "set keys = dom (scEntries st)"
  shows "scEntries (prune_clients keys now st) n = Some e \<longleftrightarrow> scEntries st n = Some e \<and> now - seLastUsed e < Minute"
  using assms by (auto simp: prune_clients_def restrict_map_def idle_for_def dom_def)

lemma statusClient_client:
  assumes "statusClient sha parse pem serverName now st = (Inr cl, st')" and "entries_ok sha parse st"
  shows "pinned sha parse (sha pem) serverName cl"
  using assms
  by (auto simp: statusClient_def statusClient_cached_def statusClient_new_def statusClient_install_def Let_def pinned_def entries_ok_def
      split: option.splits if_splits sum.splits) metis

text \<open>
  What counts as the status of an instance. A status is accepted only from a Pod with a valid
  address, over a client pinned to the Cluster's CA and server name, from that Pod's status endpoint,
  with the status code 200 and a body of at most 4 MiB that is one complete status: with a role, a
  system identifier and a positive timeline.
\<close>

theorem status_accepted:
  assumes "entries_ok sha parse st" and "readStatus L H sha parse p pem serverName now st = (Inr status, st')"
  shows "ParseIP L (podIP p) \<and> (\<exists>client body. pinned sha parse (sha pem) serverName client \<and>
    Do H client (status_address p) = Inr (200, Inr body) \<and> length body \<le> status_limit \<and> decodeStatus L body = Inr status) \<and>
    stIsPrimary status \<noteq> None \<and> stSystemID status \<noteq> [] \<and> 0 < stTimeline status"
proof -
  obtain client where c: "statusClient sha parse pem serverName now st = (Inr client, st')" "ParseIP L (podIP p)"
    "readStatusHTTP L H client (status_address p) = Inr status"
    using assms(2) by (auto simp: readStatus_def split: if_splits prod.splits sum.splits)
  then obtain body where b: "Do H client (status_address p) = Inr (200, Inr body)" "\<not> length (take (Suc status_limit) body) > status_limit"
    "decodeStatus L (take (Suc status_limit) body) = Inr status"
    by (auto simp: readStatusHTTP_def Let_def split: if_splits sum.splits prod.splits)
  then have l: "length body \<le> status_limit" by (simp add: min_def split: if_splits)
  moreover from this have "decodeStatus L body = Inr status" using b(3) by simp
  moreover from this have "stIsPrimary status \<noteq> None" "stSystemID status \<noteq> []" "0 < stTimeline status"
    by (auto simp: decodeStatus_def split: option.splits prod.splits if_splits)
  ultimately show ?thesis using c b(1) statusClient_client [OF c(1) assms(1)] by blast
qed

section \<open>Witnesses\<close>

definition ca_client :: "string http_client" where
  "ca_client = \<lparr>clRoots = ''ca'', clServerName = ''db'', clMinVersion = tls_VersionTLS12, clProxied = False,
     clFollowsRedirects = False, clTransport = 0\<rparr>"

definition ca_clients :: "(string, string) status_clients" where
  "ca_clients = \<lparr>scEntries = [''db'' \<mapsto> \<lparr>seDigest = ''ca'', seClient = ca_client, seLastUsed = 7\<rparr>], scFresh = 1, scClosed = []\<rparr>"

lemma ca_clients_reach: "sc_reach id Some (ca_clients, [Returned ''ca'' ''db'' ca_client])"
proof -
  let ?st = "no_clients\<lparr>scFresh := 1\<rparr> :: (string, string) status_clients"
  have "sc_reach id Some (no_clients :: (string, string) status_clients, [] @ [Wants ''ca'' ''db''])"
    by (rule sc_reach.step [OF sc_reach.start sc_step.called])
  moreover have "sc_step id Some (no_clients, [Wants ''ca'' ''db'']) (?st, [Wants ''ca'' ''db''][0 := Candidate ''ca'' ''db'' ca_client])"
    by (rule sc_step.miss) (simp_all add: statusClient_new_def no_clients_def ca_client_def)
  ultimately have "sc_reach id Some (?st, [Candidate ''ca'' ''db'' ca_client])" using sc_reach.step by fastforce
  moreover have "sc_step id Some (?st, [Candidate ''ca'' ''db'' ca_client])
      (ca_clients, [Candidate ''ca'' ''db'' ca_client][0 := Returned ''ca'' ''db'' ca_client])"
    by (rule sc_step.install [where now = 7]) (simp_all add: statusClient_install_def no_clients_def ca_clients_def)
  ultimately show ?thesis using sc_reach.step by fastforce
qed

theorem status_clients_pinned_witness:
  "clServerName ca_client = ''db'' \<and> (\<exists>pem. id pem = id ''ca'' \<and> Some pem = Some (clRoots ca_client)) \<and> \<not> clFollowsRedirects ca_client"
proof -
  have "Returned ''ca'' ''db'' ca_client \<in> set [Returned ''ca'' ''db'' ca_client]" by simp
  with status_clients_pinned [OF ca_clients_reach] show ?thesis by blast
qed

definition status_json :: json where
  "status_json = JObject [(''isPrimary'', JBool True), (''systemID'', JString ''sys''), (''timeLineID'', JNumber ''3'')]"

definition status_golib :: golib where
  "status_golib = sample_golib\<lparr>scan := (\<lambda>s. if s = ''doc'' then Some (status_json, []) else None)\<rparr>"

definition status_http :: "string http" where
  "status_http = \<lparr>validURL = (\<lambda>_. True), Do = (\<lambda>_ _. Inr (200, Inr ''doc''))\<rparr>"

definition status_sample :: instanceStatus where
  "status_sample = zero_instanceStatus\<lparr>stIsPrimary := Some True, stSystemID := ''sys'', stTimeline := 3\<rparr>"

lemma status_sample_decoded: "decodeStatus status_golib ''doc'' = Inr status_sample"
proof -
  have "decode_struct set_status_field status_fields zero_instanceStatus status_json = Some status_sample" by code_simp
  then show ?thesis by (simp add: decodeStatus_def status_golib_def only_space_def status_sample_def)
qed

theorem status_accepted_witness:
  "fst (readStatus status_golib status_http id Some (sample_pod ''p1'') ''ca'' ''db'' 9 ca_clients) = Inr status_sample \<and> 0 < stTimeline status_sample"
proof -
  have ok: "entries_ok id Some ca_clients" using sc_reach_inv [OF ca_clients_reach] by (simp add: sc_inv_def)
  have ip: "ParseIP status_golib (podIP (sample_pod ''p1''))" by code_simp
  obtain st where r: "readStatus status_golib status_http id Some (sample_pod ''p1'') ''ca'' ''db'' 9 ca_clients = (Inr status_sample, st)"
    using ip status_sample_decoded
    by (simp add: readStatus_def statusClient_def statusClient_cached_def ca_clients_def readStatusHTTP_def status_http_def status_limit_def Let_def)
  show ?thesis using status_accepted [OF ok r] r by simp
qed

end
