(* ===== verification/Observation.thy ===== *)
theory Observation
  imports Collection Status_Client
begin

text \<open>
  One observation from its start to its publication, \<open>observe\<close> of \<open>internal/observer/collection.go\<close>: the sections of
  the Observer theory, the collection and the status requests put together in the order of the code. Between any
  two of its steps, the rest of the process may change the observer.
\<close>

section \<open>The steps of observe\<close>

text \<open>Where an observation is; the last phase carries the result of the function.\<close>

datatype observation =
    Starts
  | ReadsPods gomap Parameters
  | Connects gomap Parameters "pod list"
  | Probes gomap Parameters "pod list" connectionInfo
  | Publishes gomap Parameters "pod list" connectionInfo "statusResult list"
  | PublishesFailure string
  | Observed bool

definition observe_started :: "observe_plan \<Rightarrow> observation" where
  "observe_started plan = (case plan of Gone \<Rightarrow> Observed True | Fails reason \<Rightarrow> PublishesFailure reason | Collects c params \<Rightarrow> ReadsPods c params)"

definition observe_targets :: "'d oenv \<Rightarrow> gomap \<Rightarrow> 'd observer \<Rightarrow> pod list" where
  "observe_targets E c s = primary_first (fst (primaryNames (api E) c)) (pods E c s)"

definition observe_connected :: "gomap \<Rightarrow> Parameters \<Rightarrow> pod list \<Rightarrow> connectionInfo option \<Rightarrow> observation" where
  "observe_connected c params ps conn =
     (case conn of None \<Rightarrow> PublishesFailure ''connection_defaults_unavailable'' | Some ci \<Rightarrow> Probes c params ps ci)"

text \<open>
  The environment of the requests: the Go library, the HTTP exchanges, the hash and the parser of CA
  pools. A result is the answer of \<open>readStatus\<close> with some state of the client cache, or an error.
\<close>

record ('h, 'r) probe_env =
  peLib :: golib
  peHTTP :: "'r http"
  peSHA :: "string \<Rightarrow> 'h"
  peParse :: "string \<Rightarrow> 'r option"

definition probe_answer :: "('h, 'r) probe_env \<Rightarrow> string \<Rightarrow> string \<Rightarrow> pod \<Rightarrow> statusResult \<Rightarrow> bool" where
  "probe_answer P pem serverName p r \<longleftrightarrow> srErr r \<noteq> None \<or>
     (\<exists>st now st'. entries_ok (peSHA P) (peParse P) st \<and>
        readStatus (peLib P) (peHTTP P) (peSHA P) (peParse P) p pem serverName now st = (Inr (srStatus r), st'))"

definition probe_server_name :: "'d oenv \<Rightarrow> gomap \<Rightarrow> Parameters \<Rightarrow> string" where
  "probe_server_name E c params = default_serverName (api E) c params"

inductive observe_step :: "'d oenv \<Rightarrow> ('h, 'r) probe_env \<Rightarrow> int \<Rightarrow> nat \<Rightarrow> clusterKey \<Rightarrow> time \<Rightarrow> observation \<times> 'd observer \<Rightarrow> observation \<times> 'd observer \<Rightarrow> bool"
  for E P limit ctx key started where
  starts: "observe_begin E key s = (plan, t) \<Longrightarrow> observe_step E P limit ctx key started (Starts, s) (observe_started plan, t)"
| reads: "observe_step E P limit ctx key started (ReadsPods c params, s) (Connects c params (observe_targets E c s), s)"
| connects: "cachedConnection E ctxErr c s = (conn, t) \<Longrightarrow>
    observe_step E P limit ctx key started (Connects c params ps, s) (observe_connected c params ps conn, t)"
| collects: "col_reach limit isUrgent ps (probe_answer P (cServerCAPEM (ciParameters conn)) (probe_server_name E c params)) (sl, xs, col) \<Longrightarrow>
    collected ps col \<Longrightarrow> observe_step E P limit ctx key started (Probes c params ps conn, s) (Publishes c params ps conn (colResults col), s)"
| fails: "observe_step E P limit ctx key started (PublishesFailure reason, s) (Observed False, publishFailure E ctx key reason s)"
| publishes: "publishObservation E ctx key c ps results params conn started s = Some (b, t) \<Longrightarrow>
    observe_step E P limit ctx key started (Publishes c params ps conn results, s) (Observed b, t)"
| others: "observe_step E P limit ctx key started (x, s) (x, t)"

inductive observe_reach :: "'d oenv \<Rightarrow> ('h, 'r) probe_env \<Rightarrow> int \<Rightarrow> nat \<Rightarrow> clusterKey \<Rightarrow> time \<Rightarrow> observation \<times> 'd observer \<Rightarrow> bool"
  for E P limit ctx key started where
  start: "observe_reach E P limit ctx key started (Starts, s)"
| step: "observe_reach E P limit ctx key started \<sigma> \<Longrightarrow> observe_step E P limit ctx key started \<sigma> \<tau> \<Longrightarrow> observe_reach E P limit ctx key started \<tau>"

section \<open>What is published was answered\<close>

definition results_answered :: "'d oenv \<Rightarrow> ('h, 'r) probe_env \<Rightarrow> observation \<Rightarrow> bool" where
  "results_answered E P x \<longleftrightarrow> (case x of
     Publishes c params ps conn results \<Rightarrow> length results = length ps \<and>
       (\<forall>i<length ps. srErr (results ! i) \<noteq> None \<or>
          podReady (ps ! i) \<and> probe_answer P (cServerCAPEM (ciParameters conn)) (probe_server_name E c params) (ps ! i) (results ! i))
   | _ \<Rightarrow> True)"

lemma collected_results:
  assumes "col_reach limit u ps answers (sl, xs, col)" and "collected ps col"
  shows "length (colResults col) = length ps \<and>
    (\<forall>i<length ps. srErr (colResults col ! i) \<noteq> None \<or> podReady (ps ! i) \<and> answers (ps ! i) (colResults col ! i))"
  using col_reach_inv [OF assms(1)] assms(2) by (auto simp: col_inv_def loop_ok_def results_ok_def collected_def)

lemma observe_reach_answered: "observe_reach E P limit ctx key started (x, s) \<Longrightarrow> results_answered E P x"
proof (induction "(x, s)" arbitrary: x s rule: observe_reach.induct)
  case (step \<sigma> x s)
  from step.hyps(3) show ?case
  proof cases
    case (collects isUrgent ps conn c params sl xs col)
    then show ?thesis using collected_results [OF collects(3,4)] by (simp add: results_answered_def)
  next
    case others
    then show ?thesis using step.hyps(2) by simp
  qed (simp_all add: results_answered_def observe_started_def observe_connected_def split: observe_plan.split option.split)
qed (simp add: results_answered_def)

lemma committed_route:
  assumes "\<not> withdrawn (pSnapshot (rPublication (committed E snap s)))"
  shows "sPrimaryID (pSnapshot (rPublication (committed E snap s))) = sPrimaryID snap"
    "sConnection (pSnapshot (rPublication (committed E snap s))) = sConnection snap" "\<not> withdrawn snap"
proof -
  obtain v where c: "pSnapshot (rPublication (committed E snap s)) = snap\<lparr>sAPIVersion := APIVersion, sRevision := v\<rparr>"
    using committed_snapshot [OF assms] by blast
  show "sPrimaryID (pSnapshot (rPublication (committed E snap s))) = sPrimaryID snap"
    "sConnection (pSnapshot (rPublication (committed E snap s))) = sConnection snap" "\<not> withdrawn snap"
    using assms unfolding c by (simp_all add: withdrawn_def)
qed

lemma answered_by_instance:
  assumes "probe_answer P pem serverName p r" and "srErr r = None"
  shows "\<exists>client body. pinned (peSHA P) (peParse P) (peSHA P pem) serverName client \<and>
    Do (peHTTP P) client (status_address p) = Inr (200, Inr body) \<and> length body \<le> status_limit \<and> decodeStatus (peLib P) body = Inr (srStatus r)"
  using assms status_accepted unfolding probe_answer_def by blast

text \<open>
  C3: every new route was answered for by the primary itself. When an observation, interleaved with anything
  else the process does, leaves a route in the store that was not there before, one of the Pods it
  probed is the primary the stored snapshot names; that Pod was ready and answered this observation's status request, from
  its own address, with HTTP 200, over a client that, when the status port of the Pod speaks TLS, trusts only a CA with the
  digest of the one the snapshot offers to applications and verifies the server name (for a status port without TLS the code
  uses the same client over plain HTTP), and its answer says that it is the primary.
\<close>

theorem observation_verified:
  assumes "observe_reach E P limit ctx key started (Publishes c params ps conn results, s)"
    and "publishObservation E ctx key c ps results params conn started s = Some (b, t)"
    and "records (oStore t) k = Some r" and "\<not> withdrawn (pSnapshot (rPublication r))" and "records (oStore s) k \<noteq> Some r"
  shows "\<exists>i<length ps. podUID (ps ! i) = sPrimaryID (pSnapshot (rPublication r)) \<and> podReady (ps ! i) \<and>
    srErr (results ! i) = None \<and> stIsPrimary (srStatus (results ! i)) = Some True \<and>
    (\<exists>client body. pinned (peSHA P) (peParse P) (peSHA P (cServerCAPEM (sConnection (pSnapshot (rPublication r))))) (probe_server_name E c params) client \<and>
       Do (peHTTP P) client (status_address (ps ! i)) = Inr (200, Inr body) \<and> length body \<le> status_limit \<and>
       decodeStatus (peLib P) body = Inr (srStatus (results ! i)))"
proof -
  have ok: "length results = length ps" "\<forall>i<length ps. srErr (results ! i) \<noteq> None \<or>
      podReady (ps ! i) \<and> probe_answer P (cServerCAPEM (ciParameters conn)) (probe_server_name E c params) (ps ! i) (results ! i)"
    using observe_reach_answered [OF assms(1)] by (simp_all add: results_answered_def)
  obtain latest primaries mapped snap where m: "matchInstanceResults ps (pods E latest s) results = Some mapped"
      and b: "buildSnapshot (api E) latest (pods E latest s) mapped params started (optTTL (opts E)) = Some snap"
      and r: "r = committed E (snap\<lparr>sConnection := ciParameters conn\<rparr>) (s\<lparr>oPrimaries := primaries\<rparr>)"
    by (rule publish_new_route [OF assms(2-5)]) blast
  note route = committed_route [OF assms(4) [unfolded r], folded r]
  have av: "sAvailable snap" using justified_built [OF b, of "ciParameters conn"] route(3) by (auto simp: justified_def snapshot_below_def)
  obtain fenced n where n: "sole_primary (api E) latest fenced (pods E latest s) mapped n" "sPrimaryID snap = podUID (pods E latest s ! n)"
    using b by (cases rule: buildSnapshot_cases) (use av in \<open>auto simp: unavailable_def zero_Snapshot_def\<close>)
  then have claim: "n < length (pods E latest s)" "srErr (mapped ! n) = None" "stIsPrimary (srStatus (mapped ! n)) = Some True"
    by (auto simp: sole_primary_def claims_primary_def eligible_def)
  then obtain i where i: "i < length ps" "mapped ! n = results ! i" "samePodRoute (ps ! i) (pods E latest s ! n)"
    using matched_results_same_route [of ps results "pods E latest s"] m ok(1) by auto
  then have "srErr (results ! i) = None" "podUID (ps ! i) = podUID (pods E latest s ! n)" using claim by (auto simp: samePodRoute_def split: if_splits)
  moreover from this have "podReady (ps ! i)" "probe_answer P (cServerCAPEM (ciParameters conn)) (probe_server_name E c params) (ps ! i) (results ! i)"
    using ok(2) i(1) by auto
  ultimately show ?thesis
    using answered_by_instance [of P _ _ "ps ! i" "results ! i"] i n(2) claim(3) route(1,2) by (intro exI [of _ i]) simp
qed

section \<open>A complete observation\<close>

definition lone_state :: sample_observer_state where
  "lone_state = fresh\<lparr>oPods := [sample_pod ''p1'']\<rparr>"

definition lone_env :: "(string, string) probe_env" where
  "lone_env = \<lparr>peLib = status_golib, peHTTP = status_http, peSHA = id, peParse = Some\<rparr>"

definition lone_result :: statusResult where
  "lone_result = \<lparr>srStatus = status_sample, srErr = None\<rparr>"

definition lone_collection :: collection where
  "lone_collection = collect_returned 0 0 lone_result (collect_granted 0 ((collect_start False [sample_pod ''p1''])\<lparr>colAcquire := Some 0\<rparr>))"

definition lone_params :: Parameters where
  "lone_params = \<lparr>ExternalEndpoints = Some fmempty, ServerName = []\<rparr>"

definition lone_connection :: connectionInfo where
  "lone_connection = sample_connection\<lparr>ciParameters := \<lparr>cDatabase = applicationDatabase (api sample_env) secured_cluster, cServerCAPEM = ''PEM''\<rparr>\<rparr>"

definition lone_publish :: "(bool \<times> sample_observer_state) option" where
  "lone_publish = publishObservation sample_env 5 app_key secured_cluster [sample_pod ''p1''] [lone_result] lone_params lone_connection 100 lone_state"

lemma lone_answer: "probe_answer lone_env pem serverName (sample_pod ''p1'') lone_result"
proof -
  have ok: "entries_ok id Some (no_clients :: (string, string) status_clients)" by (simp add: entries_ok_def no_clients_def)
  have ip: "ParseIP status_golib (podIP (sample_pod ''p1''))" by code_simp
  have "fst (readStatus status_golib status_http id Some (sample_pod ''p1'') pem serverName 9 (no_clients :: (string, string) status_clients)) = Inr status_sample"
    using ip status_sample_decoded
    by (simp add: readStatus_def statusClient_def statusClient_cached_def statusClient_new_def statusClient_install_def no_clients_def readStatusHTTP_def
        status_http_def status_limit_def Let_def)
  then obtain st' where "readStatus status_golib status_http id Some (sample_pod ''p1'') pem serverName 9 (no_clients :: (string, string) status_clients) = (Inr status_sample, st')"
    by (metis prod.collapse)
  with ok show ?thesis unfolding probe_answer_def lone_env_def lone_result_def by auto
qed

lemma lone_collected:
  "\<exists>sl xs. col_reach 2 True [sample_pod ''p1''] (probe_answer lone_env pem serverName) (sl, xs, lone_collection)"
  "collected [sample_pod ''p1''] lone_collection" "colResults lone_collection = [lone_result]"
proof -
  let ?ps = "[sample_pod ''p1'']" and ?a = "probe_answer lone_env pem serverName" and ?sl = "configureProbeLimits 2"
  let ?c = "collect_start False ?ps"
  let ?sl1 = "?sl\<lparr>probeSlots := (probeSlots ?sl)\<lparr>slotUsed := Suc 0\<rparr>\<rparr>"
  have ready: "podReady (sample_pod ''p1'')" by code_simp
  have 0: "col_reach 2 True ?ps ?a (?sl, [], ?c)" by (rule col_reach.start [OF probe_reach.start])
  have "col_step True ?ps ?a (?sl, [], ?c) (?sl, [] @ [TryProbe True], ?c\<lparr>colAcquire := Some (length ([] :: probe list))\<rparr>)"
    by (rule col_step.acquire) (simp_all add: collect_start_def acquire_start_def ready)
  note 1 = col_reach.own [OF 0 this, simplified]
  have "col_step True ?ps ?a (?sl, [TryProbe True], ?c\<lparr>colAcquire := Some 0\<rparr>) (?sl1, [TryProbe True][0 := Holding True], ?c\<lparr>colAcquire := Some 0\<rparr>)"
    by (rule col_step.send [where k = 0]) (simp_all add: configureProbeLimits_def make_slots_def trySend_def)
  note 2 = col_reach.own [OF 1 this, simplified]
  have "col_step True ?ps ?a (?sl1, [Holding True], ?c\<lparr>colAcquire := Some 0\<rparr>) (?sl1, [Holding True], collect_granted 0 (?c\<lparr>colAcquire := Some 0\<rparr>))"
    by (rule col_step.granted [where k = 0]) simp_all
  note 3 = col_reach.own [OF 2 this]
  have "col_step True ?ps ?a (?sl1, [Holding True], collect_granted 0 (?c\<lparr>colAcquire := Some 0\<rparr>)) (?sl, [Holding True][0 := Over], lone_collection)"
    unfolding lone_collection_def
    by (rule col_step.returned)
      (simp_all add: collect_granted_def collect_start_def lone_answer release_def release_background_def receive_def configureProbeLimits_def make_slots_def)
  from col_reach.own [OF 3 this] show "\<exists>sl xs. col_reach 2 True ?ps ?a (sl, xs, lone_collection)" by blast
  show "collected ?ps lone_collection" "colResults lone_collection = [lone_result]"
    by (simp_all add: lone_collection_def collected_def collect_returned_def collect_granted_def collect_start_def)
qed

lemma lone_reach:
  "observe_reach sample_env lone_env 2 5 app_key 100 (Publishes secured_cluster lone_params [sample_pod ''p1''] lone_connection [lone_result], lone_state)"
proof -
  let ?R = "observe_reach sample_env lone_env 2 5 app_key 100" and ?p = "lone_params" and ?c = secured_cluster
  have jump: "?R (x, s) \<Longrightarrow> ?R (x, t)" for x and s t :: sample_observer_state by (rule observe_reach.step [OF _ observe_step.others])
  have c: "cluster app_key lone_state = Some ?c" by (simp add: cluster_def lone_state_def fresh_def sample_observer_def app_key_def clusterKey_String_def)
  have "fst (observe_begin sample_env app_key lone_state) = Collects ?c ?p" by code_simp
  then obtain t where "observe_begin sample_env app_key lone_state = (Collects ?c ?p, t)" by (metis prod.collapse)
  from observe_reach.step [OF observe_reach.start observe_step.starts [OF this]] have "?R (ReadsPods ?c ?p, t)"
    by (simp add: observe_started_def)
  note 1 = jump [OF this, of lone_state]
  have "clusterKey_String (cluster_key sample_env ?c) \<in> set (indexPodCluster (sample_pod ''p1''))"
    "owned_by (GetUID (api sample_env) ?c) (sample_pod ''p1'')" by code_simp+
  then have "observe_targets sample_env ?c lone_state = [sample_pod ''p1'']"
    by (simp add: observe_targets_def pods_def ownedPods_def primary_first_def lone_state_def)
  with observe_reach.step [OF 1 observe_step.reads] have 2: "?R (Connects ?c ?p [sample_pod ''p1''], lone_state)" by simp
  have "fst (cachedConnection sample_env False ?c lone_state) = Some lone_connection" by code_simp
  then obtain u where "cachedConnection sample_env False ?c lone_state = (Some lone_connection, u)" by (metis prod.collapse)
  from observe_reach.step [OF 2 observe_step.connects [OF this]] have "?R (Probes ?c ?p [sample_pod ''p1''] lone_connection, u)"
    by (simp add: observe_connected_def)
  note 3 = jump [OF this, of lone_state]
  obtain sl xs where "col_reach 2 True [sample_pod ''p1''] (probe_answer lone_env (cServerCAPEM (ciParameters lone_connection)) (probe_server_name sample_env ?c ?p)) (sl, xs, lone_collection)"
    using lone_collected(1) by blast
  from observe_reach.step [OF 3 observe_step.collects [OF this lone_collected(2)]] show ?thesis by (simp add: lone_collected(3))
qed

theorem observation_verified_witness:
  "sAvailable (stored (snd (the lone_publish))) \<and> sPrimaryID (stored (snd (the lone_publish))) = ''p1-uid'' \<and>
   (\<exists>client body. pinned id Some ''PEM'' (probe_server_name sample_env secured_cluster lone_params) client \<and>
      Do status_http client (status_address (sample_pod ''p1'')) = Inr (200, Inr body) \<and> decodeStatus status_golib body = Inr status_sample)"
proof -
  have "lone_publish \<noteq> None" by code_simp
  then obtain b t where t: "lone_publish = Some (b, t)" by (metis option.exhaust surj_pair)
  have facts: "sAvailable (stored (snd (the lone_publish)))" "sPrimaryID (stored (snd (the lone_publish))) = ''p1-uid''"
    "cServerCAPEM (sConnection (stored (snd (the lone_publish)))) = ''PEM''" by code_simp+
  have "records (oStore (snd (the lone_publish))) app_key \<noteq> None" by code_simp
  then obtain r where r: "records (oStore t) app_key = Some r" by (auto simp: t)
  have st: "stored (snd (the lone_publish)) = pSnapshot (rPublication r)" by (simp add: t stored_eq [OF r])
  have w: "\<not> withdrawn (pSnapshot (rPublication r))" using facts(1) by (simp add: st withdrawn_def)
  have "records (oStore lone_state) app_key = None" by code_simp
  then have new: "records (oStore lone_state) app_key \<noteq> Some r" by simp
  show ?thesis using observation_verified [OF lone_reach t [unfolded lone_publish_def] r w new] facts
    by (auto simp: st lone_env_def lone_result_def)
qed

end
