(* ===== verification/Public_CA.thy ===== *)
theory Public_CA
  imports Observer_Props
begin

text \<open>
  The public CA of a Cluster, \<open>readPublicCA\<close> of \<open>internal/observer/connection.go\<close>, and the sweep of cached
  CAs in \<open>pruneConnections\<close> of \<open>status.go\<close>. The Secret comes from the API server; PEM and X.509 decoding are
  parameters. The loop over the PEM blocks is a partial function, which returns when decoding consumes
  input.
\<close>

section \<open>Reading\<close>

record pem_block =
  pemType :: string
  pemBytes :: string

record pem_library =
  pem_Decode :: "string \<Rightarrow> (pem_block \<times> string) option"
  pem_EncodeToMemory :: "pem_block \<Rightarrow> string"
  ParseCertificate :: "string \<Rightarrow> bool"

datatype ca_error = ReadSecret | InvalidCertificate | NoCertificates

text \<open>The loop, with the certificates collected so far; \<open>None\<close> when it does not end.\<close>

partial_function (option) public_blocks :: "pem_library \<Rightarrow> string \<Rightarrow> string \<Rightarrow> (ca_error + string) option" where
  "public_blocks P remaining public =
     (if remaining = [] then Some (Inr public)
      else case pem_Decode P remaining of
        None \<Rightarrow> Some (Inr public)
      | Some (block, rest) \<Rightarrow>
          (if pemType block \<noteq> ''CERTIFICATE'' then public_blocks P rest public
           else if \<not> ParseCertificate P (pemBytes block) then Some (Inl InvalidCertificate)
           else public_blocks P rest (public @ pem_EncodeToMemory P \<lparr>pemType = ''CERTIFICATE'', pemBytes = pemBytes block\<rparr>)))"

text \<open>
  The Secret that the API server returns (UID, version, the data under \<open>ca.crt\<close>, empty when absent), or an
  error; \<open>ptr\<close> is the address of the new entry.
\<close>

definition readPublicCA :: "pem_library \<Rightarrow> nat \<Rightarrow> clusterKey \<Rightarrow> (string \<times> string \<times> string) option \<Rightarrow> (ca_error + cachedCA) option" where
  "readPublicCA P ptr key secret =
     (case secret of
        None \<Rightarrow> Some (Inl ReadSecret)
      | Some (uid, version, crt) \<Rightarrow>
          (case public_blocks P crt [] of
             None \<Rightarrow> None
           | Some (Inl e) \<Rightarrow> Some (Inl e)
           | Some (Inr public) \<Rightarrow>
               Some (if public = [] then Inl NoCertificates
                     else Inr \<lparr>caPtr = ptr, caKey = key, caUID = uid, caResourceVersion = version, caPublic = public\<rparr>)))"

section \<open>Specification\<close>

text \<open>Decoding returns a block and the remainder of the input, which is shorter.\<close>

definition pem_progress :: "pem_library \<Rightarrow> bool" where
  "pem_progress P \<longleftrightarrow> (\<forall>s block rest. pem_Decode P s = Some (block, rest) \<longrightarrow> length rest < length s)"

text \<open>The blocks of a text, at most \<open>n\<close> of them.\<close>

fun pem_blocks :: "pem_library \<Rightarrow> nat \<Rightarrow> string \<Rightarrow> pem_block list" where
  "pem_blocks P 0 s = []"
| "pem_blocks P (Suc n) s =
     (if s = [] then [] else case pem_Decode P s of None \<Rightarrow> [] | Some (block, rest) \<Rightarrow> block # pem_blocks P n rest)"

definition certificates :: "pem_library \<Rightarrow> string \<Rightarrow> string list" where
  "certificates P s = map pemBytes (filter (\<lambda>b. pemType b = ''CERTIFICATE'') (pem_blocks P (length s) s))"

definition encode_certificates :: "pem_library \<Rightarrow> string list \<Rightarrow> string" where
  "encode_certificates P certs = concat (map (\<lambda>c. pem_EncodeToMemory P \<lparr>pemType = ''CERTIFICATE'', pemBytes = c\<rparr>) certs)"

lemma public_blocks_eq:
  assumes "pem_progress P"
  shows "length s \<le> n \<Longrightarrow> public_blocks P s public =
    (let certs = map pemBytes (filter (\<lambda>b. pemType b = ''CERTIFICATE'') (pem_blocks P n s)) in
       Some (if list_all (ParseCertificate P) certs then Inr (public @ encode_certificates P certs) else Inl InvalidCertificate))"
proof (induction n arbitrary: s public)
  case 0
  then show ?case by (simp add: public_blocks.simps encode_certificates_def)
next
  case (Suc n)
  show ?case
  proof (cases "s = [] \<or> pem_Decode P s = None")
    case True
    then show ?thesis by (subst public_blocks.simps) (auto simp: encode_certificates_def)
  next
    case False
    then obtain block rest where d: "pem_Decode P s = Some (block, rest)" by fastforce
    with assms have "length rest < length s" by (simp add: pem_progress_def)
    with Suc.prems have "length rest \<le> n" by simp
    note IH = Suc.IH [OF this]
    show ?thesis using False d by (subst public_blocks.simps) (simp add: IH Let_def encode_certificates_def)
  qed
qed

text \<open>
  C33: only public certificates of the CA Secret are kept, and reading ends. When decoding consumes its
  input, the read returns; it fails exactly when the Secret cannot be read, a certificate block is
  invalid, or there is nothing to keep; otherwise what is kept is the re-encoding of the certificate
  blocks in their order, whatever else (a private key) the Secret holds, with the identity and version
  of the Secret that was read.
\<close>

theorem public_ca_only:
  assumes "pem_progress P"
  shows "\<exists>r. readPublicCA P ptr key secret = Some r \<and>
    (case r of
       Inl e \<Rightarrow> secret = None \<or> (\<exists>uid version crt. secret = Some (uid, version, crt) \<and>
         (\<not> list_all (ParseCertificate P) (certificates P crt) \<or> encode_certificates P (certificates P crt) = []))
     | Inr ca \<Rightarrow> \<exists>crt. secret = Some (caUID ca, caResourceVersion ca, crt) \<and> caKey ca = key \<and> caPtr ca = ptr \<and>
         list_all (ParseCertificate P) (certificates P crt) \<and> caPublic ca = encode_certificates P (certificates P crt) \<and> caPublic ca \<noteq> [])"
proof (cases secret)
  case (Some x)
  obtain uid version crt where x: "x = (uid, version, crt)" by (cases x) auto
  have "public_blocks P crt [] = Some (if list_all (ParseCertificate P) (certificates P crt)
      then Inr (encode_certificates P (certificates P crt)) else Inl InvalidCertificate)"
    using public_blocks_eq [OF assms order_refl, of crt "[]"] by (simp add: certificates_def)
  then show ?thesis using Some x by (auto simp: readPublicCA_def)
qed (simp add: readPublicCA_def)

text \<open>A library whose blocks are characters: certificates are letters, a minus sign is a key.\<close>

definition sample_pem :: pem_library where
  "sample_pem = \<lparr>pem_Decode = (\<lambda>s. case s of [] \<Rightarrow> None
       | c # cs \<Rightarrow> Some (\<lparr>pemType = (if c = CHR ''-'' then ''PRIVATE KEY'' else ''CERTIFICATE''), pemBytes = [c]\<rparr>, cs)),
     pem_EncodeToMemory = pemBytes, ParseCertificate = (\<lambda>b. b \<noteq> ''!'')\<rparr>"

theorem public_ca_only_witness:
  "\<exists>ca. readPublicCA sample_pem 1 app_key (Some (''u'', ''7'', ''a-b'')) = Some (Inr ca) \<and> caPublic ca = ''ab'' \<and> caUID ca = ''u''"
proof -
  have p: "pem_progress sample_pem" by (auto simp: pem_progress_def sample_pem_def split: list.splits)
  have c: "certificates sample_pem ''a-b'' = [''a'', ''b'']" "list_all (ParseCertificate sample_pem) [''a'', ''b'']"
    "encode_certificates sample_pem [''a'', ''b''] = ''ab''" by code_simp+
  obtain r where r: "readPublicCA sample_pem 1 app_key (Some (''u'', ''7'', ''a-b'')) = Some r" and k: "case r of
       Inl e \<Rightarrow> Some (''u'', ''7'', ''a-b'') = None \<or> (\<exists>uid version crt. Some (''u'', ''7'', ''a-b'') = Some (uid, version, crt) \<and>
         (\<not> list_all (ParseCertificate sample_pem) (certificates sample_pem crt) \<or> encode_certificates sample_pem (certificates sample_pem crt) = []))
     | Inr ca \<Rightarrow> \<exists>crt. Some (''u'', ''7'', ''a-b'') = Some (caUID ca, caResourceVersion ca, crt) \<and> caKey ca = app_key \<and> caPtr ca = 1 \<and>
         list_all (ParseCertificate sample_pem) (certificates sample_pem crt) \<and>
         caPublic ca = encode_certificates sample_pem (certificates sample_pem crt) \<and> caPublic ca \<noteq> []"
    using public_ca_only [OF p, of 1 app_key "Some (''u'', ''7'', ''a-b'')"] by blast
  then show ?thesis using c by (cases r) auto
qed

section \<open>Sweeping\<close>

text \<open>The first part of \<open>pruneConnections\<close>: CAs that no demanded Cluster uses are dropped. \<open>keys\<close> is the iteration order.\<close>

definition prune_ca :: "'d oenv \<Rightarrow> clusterKey \<Rightarrow> 'd observer \<Rightarrow> 'd observer" where
  "prune_ca E key s =
     (case demandedCAClusters E key s of (clusters, s) \<Rightarrow> if clusters = [] then s\<lparr>oCAs := (oCAs s)(key := None)\<rparr> else s)"

definition prune_cas :: "'d oenv \<Rightarrow> clusterKey list \<Rightarrow> 'd observer \<Rightarrow> 'd observer" where
  "prune_cas E keys s = fold (prune_ca E) keys s"

lemma demanded_frame:
  "control (snd (demandedCAClusters E key s)) = control s" "records (oStore (snd (demandedCAClusters E key s))) = records (oStore s)"
  "oCAs (snd (demandedCAClusters E key s)) = oCAs s"
proof -
  have step: "control (snd (demanded_step E c acc)) = control (snd acc)" "records (oStore (snd (demanded_step E c acc))) = records (oStore (snd acc))" for c acc
    by (simp_all add: demanded_step_def case_prod_beta control_frame frame_simps)
  have "control (snd (fold (demanded_step E) cs acc)) = control (snd acc) \<and>
      records (oStore (snd (fold (demanded_step E) cs acc))) = records (oStore (snd acc))" for cs acc
    by (induction cs arbitrary: acc) (simp_all add: step)
  then show "control (snd (demandedCAClusters E key s)) = control s" "records (oStore (snd (demandedCAClusters E key s))) = records (oStore s)"
    by (simp_all add: demandedCAClusters_def)
  then show "oCAs (snd (demandedCAClusters E key s)) = oCAs s" by (simp add: control_def)
qed

text \<open>The sweep drops a CA exactly when no demanded Cluster uses it, and touches no route.\<close>

lemma prune_ca_drops:
  "oCAs (prune_ca E key s) = (if fst (demandedCAClusters E key s) = [] then (oCAs s)(key := None) else oCAs s)"
  "records (oStore (prune_ca E key s)) = records (oStore s)"
  using demanded_frame [of E key s] by (simp_all add: prune_ca_def case_prod_beta)

lemma prune_cas_frame:
  "records (oStore (prune_cas E keys s)) = records (oStore s) \<and> (\<forall>k ca. oCAs (prune_cas E keys s) k = Some ca \<longrightarrow> oCAs s k = Some ca)"
proof (induction keys arbitrary: s)
  case (Cons key keys)
  have "oCAs s k = Some ca" if "oCAs (prune_ca E key s) k = Some ca" for k ca
    using that unfolding prune_ca_drops by (auto split: if_splits)
  then show ?case using Cons.IH [of "prune_ca E key s"] by (simp add: prune_cas_def prune_ca_drops(2))
qed (simp add: prune_cas_def)

end
