(* ===== verification/Store_Props.thy ===== *)
theory Store_Props
  imports Store_Concurrency
begin

text \<open>
  What the store promises its clients, over every reachable state of the concurrent system: reads
  fail closed on stale routing, revisions identify routing, expiry and deletion withdraw routes
  without losing watchers, demand is created only for known clusters.
\<close>

section \<open>A concrete run\<close>

text \<open>
  The steps as functions of the system, and a small run over them (one cluster published, one
  gRPC watcher registered, a refresh, a second publication) in which the theorems are applied.
\<close>

definition do_put :: "(v1_Snapshot \<Rightarrow> 'd) \<Rightarrow> time \<Rightarrow> v1_Snapshot \<Rightarrow> 'd sys \<Rightarrow> 'd sys" where
  "do_put H now snap \<sigma> = (case PutDeferred H now now snap (sysStore \<sigma>) of (_, n, st) \<Rightarrow> commit [n] st \<sigma>)"

definition do_watch :: "(v1_Snapshot \<Rightarrow> 'd) \<Rightarrow> time \<Rightarrow> clusterKey \<Rightarrow> 'd sys \<Rightarrow> 'd sys" where
  "do_watch H now key \<sigma> =
     (case register_commit H now now key True (Publications make_chan) (sysStore \<sigma>) of
        None \<Rightarrow> \<sigma>
      | Some (w, n, initial, _, st) \<Rightarrow>
          (commit [n, \<lparr>nPublication = initial, nWatchers = [w]\<rparr>] st \<sigma>)\<lparr>owner := (owner \<sigma>)(w \<mapsto> key)\<rparr>)"

definition do_deliver :: "'d sys \<Rightarrow> 'd sys" where
  "do_deliver \<sigma> =
     (case inflight \<sigma> of
        [] \<Rightarrow> \<sigma>
      | (p, w) # rest \<Rightarrow> \<sigma>\<lparr>sysStore := deliver_one p w (sysStore \<sigma>), inflight := rest\<rparr>)"

definition do_receive :: "nat \<Rightarrow> 'd sys \<Rightarrow> 'd sys" where
  "do_receive w \<sigma> =
     (case heap (sysStore \<sigma>) w of
        None \<Rightarrow> \<sigma>
      | Some sub \<Rightarrow>
          (case sub_take sub of
             (None, _) \<Rightarrow> \<sigma>
           | (Some p, sub') \<Rightarrow>
               \<sigma>\<lparr>sysStore := (sysStore \<sigma>)\<lparr>heap := (heap (sysStore \<sigma>))(w \<mapsto> sub')\<rparr>,
                 received := (received \<sigma>)(w := p # received \<sigma> w)\<rparr>))"

lemma do_put_reach: "sys_reach H \<sigma> \<Longrightarrow> sys_reach H (do_put H now snap \<sigma>)"
  by (auto simp: do_put_def split: prod.splits intro: sys_reach.step sys_step.put)

lemma do_watch_reach: "sys_reach H \<sigma> \<Longrightarrow> sys_reach H (do_watch H now key \<sigma>)"
  by (auto simp: do_watch_def split: prod.splits option.splits intro: sys_reach.step sys_step.register)

lemma do_deliver_reach: "sys_reach H \<sigma> \<Longrightarrow> sys_reach H (do_deliver \<sigma>)"
  using sys_step.deliver [of \<sigma> "[]" _ _ _ H]
  by (auto simp: do_deliver_def split: list.splits prod.splits intro: sys_reach.step)

lemma do_receive_reach: "sys_reach H \<sigma> \<Longrightarrow> sys_reach H (do_receive w \<sigma>)"
  by (auto simp: do_receive_def split: list.splits prod.splits option.splits
           intro: sys_reach.step sys_step.receive)

lemmas do_reach = do_put_reach do_watch_reach do_deliver_reach do_receive_reach

lemma readPublication_dom: "dom (records (snd (snd (readPublication H now key s)))) = dom (records s)"
  by (metis prod.collapse readPublication_frame(10))

lemma do_dom:
  "dom (records (sysStore (do_put H now snap \<sigma>))) = insert (snapshot_key snap) (dom (records (sysStore \<sigma>)))"
  "dom (records (sysStore (do_deliver \<sigma>))) = dom (records (sysStore \<sigma>))"
  "dom (records (sysStore (do_receive w \<sigma>))) = dom (records (sysStore \<sigma>))"
  "dom (records (sysStore (do_watch H now key \<sigma>))) = dom (records (sysStore \<sigma>))"
proof -
  show "dom (records (sysStore (do_put H now snap \<sigma>))) = insert (snapshot_key snap) (dom (records (sysStore \<sigma>)))"
    by (simp add: do_put_def PutDeferred_eq)
  show "dom (records (sysStore (do_deliver \<sigma>))) = dom (records (sysStore \<sigma>))"
    by (simp add: do_deliver_def frame_simps split: list.splits prod.splits)
  show "dom (records (sysStore (do_receive w \<sigma>))) = dom (records (sysStore \<sigma>))"
    by (simp add: do_receive_def split: option.splits prod.splits)
  show "dom (records (sysStore (do_watch H now key \<sigma>))) = dom (records (sysStore \<sigma>))"
    by (simp add: do_watch_def register_commit_def Let_def case_prod_beta frame_simps readPublication_dom)
qed

definition sample_H :: "v1_Snapshot \<Rightarrow> bool \<times> string \<times> (string \<times> bool) list" where
  "sample_H s = (sAvailable s, sReason s, map (\<lambda>m. (mID m, mReady m)) (sMembers s))"

definition sample_ref :: v1_ClusterRef where
  "sample_ref = \<lparr>rNamespace = ''db'', rName = ''app'', rUID = ''u1''\<rparr>"

definition sample_key :: clusterKey where
  "sample_key = ClusterKey ''db'' ''app''"

definition sample_member :: "string \<Rightarrow> v1_Member" where
  "sample_member i = zero_Member\<lparr>mID := i, mName := i, mRole := ''primary'', mSyncState := ''unknown'', mReady := True\<rparr>"

definition sample_snapshot :: "time \<Rightarrow> string \<Rightarrow> v1_Snapshot" where
  "sample_snapshot t i = zero_Snapshot\<lparr>sCluster := sample_ref, sObservedAt := t, sValidUntil := t + 15,
     sAvailable := True, sPrimaryID := i, sMembers := [sample_member i]\<rparr>"

definition sample_start :: "(bool \<times> string \<times> (string \<times> bool) list) sys" where
  "sample_start = init_sys (the (NewStore (Some [171])))"

definition sample_watch :: "(bool \<times> string \<times> (string \<times> bool) list) sys" where
  "sample_watch = do_deliver (do_watch sample_H 101 sample_key (do_put sample_H 100 (sample_snapshot 100 ''p1'') sample_start))"

definition sample_run :: "(bool \<times> string \<times> (string \<times> bool) list) sys" where
  "sample_run = do_receive 0 (do_deliver (do_put sample_H 106 (sample_snapshot 106 ''p2'') (do_receive 0 sample_watch)))"

lemma sample_start_reach: "sys_reach sample_H sample_start"
  unfolding sample_start_def by (rule sys_reach.start [of "Some [171]"]) (simp add: NewStore_def)

lemma sample_watch_reach: "sys_reach sample_H sample_watch"
  unfolding sample_watch_def by (intro do_reach sample_start_reach)

lemma sample_run_reach: "sys_reach sample_H sample_run"
  unfolding sample_run_def by (intro do_reach sample_watch_reach)

lemma sample_received: "map pOrder (received sample_run 0) = [2, 1]"
  by code_simp

lemma sample_flight: "inflight sample_run = []"
  by code_simp

theorem watcher_never_rewinds_witness:
  "map pOrder (rev (received sample_run 0)) = [1, 2] \<and> sorted_wrt (<) (map pOrder (rev (received sample_run 0)))"
  using watcher_never_rewinds [OF sample_run_reach, of 0] sample_received by (simp add: rev_map [symmetric])

theorem channels_never_panic_witness: "sys_reach sample_H sample_run \<and> \<not> panicked (sysStore sample_run)"
  using channels_never_panic [OF sample_run_reach] sample_run_reach by simp

definition sample_sub :: subscription where
  "sample_sub = the (heap (sysStore sample_run) 0)"

definition sample_record :: "(bool \<times> string \<times> (string \<times> bool) list) store_record" where
  "sample_record = the (records (sysStore sample_run) sample_key)"

lemma sample_facts:
  "records (sysStore sample_run) sample_key \<noteq> None" "heap (sysStore sample_run) 0 \<noteq> None"
  "watchers_of sample_key (sysStore sample_run) = [0]" "is_shared sample_sub"
  by code_simp+

lemma sample_record_Some: "records (sysStore sample_run) sample_key = Some sample_record"
  using sample_facts(1) by (auto simp: sample_record_def)

lemma sample_sub_Some: "heap (sysStore sample_run) 0 = Some sample_sub"
  using sample_facts(2) by (auto simp: sample_sub_def)

theorem watcher_catches_up_witness:
  "\<exists>p. (sub_pending sample_sub = Some p \<or> received sample_run 0 \<noteq> [] \<and> hd (received sample_run 0) = p) \<and>
       pOrder (rPublication sample_record) \<le> pOrder p"
  by (rule watcher_catches_up [OF sample_run_reach sample_record_Some _ _ sample_sub_Some])
    (simp_all add: sample_facts sample_flight)

section \<open>Reads fail closed\<close>

lemma readPublication_fresh:
  assumes inv: "store_inv H s" and rd: "readPublication H now key s = (Some p, n, s')"
    and route: "\<not> withdrawn (pSnapshot p)"
  shows "now < sValidUntil (pSnapshot p)" "records s' key = records s key" "s' = s"
proof -
  from rd obtain r where r: "records s key = Some r" by (auto simp: readPublication_def split: option.splits)
  have nd: "\<not> is_due now r"
  proof
    assume "is_due now r"
    with rd r have "p = rPublication (expired_record H r s)" by (simp add: readPublication_def expireRecord_eq)
    with route show False by (simp add: expired_record_def)
  qed
  with rd r have p: "p = rPublication r" and s': "s' = s" by (simp_all add: readPublication_def expireRecord_eq)
  from inv r have "record_ok H s key r" by (simp add: store_inv_def records_inv_def)
  with route p have "\<not> rExpired r" by (auto simp: record_ok_def Let_def)
  with nd p show "now < sValidUntil (pSnapshot p)" by (simp add: is_due_def)
  show "records s' key = records s key" "s' = s" using s' by simp_all
qed

text \<open>
  C1: a read never hands out a stale route. Whatever the periodic expiry task has or has not done,
  a snapshot returned by \<open>Get\<close> that offers any route (it is available, names a primary or marks a
  member ready) is within its validity at the time of the read, and belongs to the cluster asked for.
\<close>

theorem Get_fails_closed:
  assumes "sys_reach H \<sigma>" and "Get H now key (sysStore \<sigma>) = (Some snap, s')" and "\<not> withdrawn snap"
  shows "now < sValidUntil snap \<and> snapshot_key snap = key"
proof (intro conjI)
  have inv: "store_inv H (sysStore \<sigma>)" using sys_reach_inv [OF assms(1)] by (simp add: sys_inv_def)
  from assms(2) obtain p n t where rd: "readPublication H now key (sysStore \<sigma>) = (Some p, n, t)"
    and p: "snap = pSnapshot p" by (auto simp: Get_def GetDeferred_def split: prod.splits)
  with readPublication_fresh(1) [OF inv rd] assms(3) show "now < sValidUntil snap" by simp
  from readPublication_publication(2) [OF inv rd] readPublication_inv(1) [OF inv rd] p
  show "snapshot_key snap = key" by (auto simp: store_inv_def records_inv_def record_ok_def Let_def)
qed

lemma sample_get: "sAvailable (the (fst (Get sample_H 107 sample_key (sysStore sample_run))))"
    "fst (Get sample_H 107 sample_key (sysStore sample_run)) \<noteq> None"
  by code_simp+

theorem Get_fails_closed_witness:
  "\<exists>snap s'. Get sample_H 107 sample_key (sysStore sample_run) = (Some snap, s') \<and> \<not> withdrawn snap \<and>
     107 < sValidUntil snap \<and> snapshot_key snap = sample_key"
proof -
  obtain snap s' where g: "Get sample_H 107 sample_key (sysStore sample_run) = (Some snap, s')"
    using sample_get(2) by (metis not_None_eq prod.collapse)
  with sample_get(1) have "\<not> withdrawn snap" by (simp add: withdrawn_def)
  with g Get_fails_closed [OF sample_run_reach g] show ?thesis by blast
qed

section \<open>Revisions\<close>

lemma revision_unique:
  "records_inv H s \<Longrightarrow> records s k1 = Some r1 \<Longrightarrow> records s k2 = Some r2 \<Longrightarrow>
   record_revision r2 = record_revision r1 \<Longrightarrow> k2 = k1"
  unfolding records_inv_def by blast

text \<open>
  C32: revisions identify routing. A put keeps the revision exactly when the digest of the routing
  view is the stored one; otherwise the new revision has never been issued by this process, and no
  other stored cluster carries it.
\<close>

theorem put_revision:
  assumes "sys_reach H \<sigma>" and "PutDeferred H now1 now2 snap (sysStore \<sigma>) = (changed, n, s')"
  shows "\<exists>r. records s' (snapshot_key snap) = Some r \<and>
     (\<not> changed \<longleftrightarrow> (\<exists>q. records (sysStore \<sigma>) (snapshot_key snap) = Some q \<and>
        routingDigest H (pSnapshot (rPublication q)) = routingDigest H (pSnapshot (rPublication r)))) \<and>
     (\<not> changed \<longrightarrow> map_option record_revision (records (sysStore \<sigma>) (snapshot_key snap)) = Some (record_revision r)) \<and>
     (changed \<longrightarrow> (\<forall>k \<le> sequence (sysStore \<sigma>). record_revision r \<noteq> revision_of (processID (sysStore \<sigma>)) k)) \<and>
     (\<forall>key q. key \<noteq> snapshot_key snap \<and> records s' key = Some q \<longrightarrow> record_revision q \<noteq> record_revision r)"
proof -
  let ?s = "sysStore \<sigma>" and ?r = "put_record H now1 now2 snap (sysStore \<sigma>)"
  have inv: "store_inv H ?s" using sys_reach_inv [OF assms(1)] by (simp add: sys_inv_def)
  from assms(2) have ch: "changed = put_changed H now1 now2 snap ?s"
    and s': "records s' = (records ?s)(snapshot_key snap \<mapsto> ?r)" by (auto simp: PutDeferred_eq)
  have ok: "rRouting q = routingDigest H (pSnapshot (rPublication q))" if "records ?s key = Some q" for key q
    using inv that by (auto simp: store_inv_def records_inv_def record_ok_def Let_def)
  have dig: "routingDigest H (pSnapshot (rPublication ?r)) = routingDigest H (put_snapshot now1 now2 snap)"
    by (simp add: put_record_def)
  have "\<not> changed \<longleftrightarrow> (\<exists>q. records ?s (snapshot_key snap) = Some q \<and>
      routingDigest H (pSnapshot (rPublication q)) = routingDigest H (pSnapshot (rPublication ?r)))"
  proof (cases "records ?s (snapshot_key snap)")
    case None
    then show ?thesis by (simp add: ch put_changed_def)
  next
    case (Some q)
    with ok [OF Some] dig show ?thesis by (simp add: ch put_changed_def)
  qed
  moreover have "\<not> changed \<longrightarrow> map_option record_revision (records ?s (snapshot_key snap)) = Some (record_revision ?r)"
    by (auto simp: ch put_record_def record_revision_def put_changed_def split: option.splits)
  moreover have "changed \<longrightarrow> (\<forall>k \<le> sequence ?s. record_revision ?r \<noteq> revision_of (processID ?s) k)"
    by (auto simp: ch put_record_def record_revision_def)
  moreover have "records_inv H s'" using PutDeferred_inv(1) [OF inv assms(2)] by (simp add: store_inv_def)
  then have "\<forall>key q. key \<noteq> snapshot_key snap \<and> records s' key = Some q \<longrightarrow> record_revision q \<noteq> record_revision ?r"
    using revision_unique [of H s' "snapshot_key snap" ?r] s' by (metis fun_upd_same)
  moreover have "records s' (snapshot_key snap) = Some ?r" using s' by simp
  ultimately show ?thesis by blast
qed

lemma sample_put_again:
  "PutDeferred sample_H 107 107 (sample_snapshot 107 ''p2'') (sysStore sample_run) =
     (False, snd (PutDeferred sample_H 107 107 (sample_snapshot 107 ''p2'') (sysStore sample_run)))"
  "records (sysStore sample_run) (snapshot_key (sample_snapshot 107 ''p2'')) \<noteq> None"
proof -
  have "\<not> fst (PutDeferred sample_H 107 107 (sample_snapshot 107 ''p2'') (sysStore sample_run))" by code_simp
  then show "PutDeferred sample_H 107 107 (sample_snapshot 107 ''p2'') (sysStore sample_run) =
     (False, snd (PutDeferred sample_H 107 107 (sample_snapshot 107 ''p2'') (sysStore sample_run)))"
    by (simp add: prod_eq_iff)
  show "records (sysStore sample_run) (snapshot_key (sample_snapshot 107 ''p2'')) \<noteq> None" by code_simp
qed

theorem put_revision_witness:
  "\<exists>s' n r. PutDeferred sample_H 107 107 (sample_snapshot 107 ''p2'') (sysStore sample_run) = (False, n, s') \<and>
     records s' sample_key = Some r \<and>
     map_option record_revision (records (sysStore sample_run) sample_key) = Some (record_revision r)"
proof -
  obtain n s' where p: "PutDeferred sample_H 107 107 (sample_snapshot 107 ''p2'') (sysStore sample_run) = (False, n, s')"
    using sample_put_again(1) by (metis prod.collapse)
  have k: "snapshot_key (sample_snapshot 107 ''p2'') = sample_key" by code_simp
  from put_revision [OF sample_run_reach p] p show ?thesis unfolding k by blast
qed

text \<open>
  Refreshing an observation does not change the revision. Observation and expiry times, replay
  positions and the order in which members are listed are not routing: a put that differs from the
  stored snapshot only in them reports no change and keeps the revision. (Members are told apart by
  their ID and name.)
\<close>

theorem refresh_keeps_revision:
  assumes "sys_reach H \<sigma>" and "records (sysStore \<sigma>) key = Some r"
    and "pSnapshot (rPublication r) = old" and "\<not> rExpired r"
    and "mset (map (\<lambda>m. m\<lparr>mReplayLSN := []\<rparr>) ms) = mset (map (\<lambda>m. m\<lparr>mReplayLSN := []\<rparr>) (sMembers old))"
    and "inj_on (\<lambda>m. (mID m, mName m)) (set (map (\<lambda>m. m\<lparr>mReplayLSN := []\<rparr>) (sMembers old)))"
    and "now1 < valid" and "now2 < valid"
    and "PutDeferred H now1 now2 (old\<lparr>sMembers := ms, sObservedAt := observed, sValidUntil := valid\<rparr>) (sysStore \<sigma>)
           = (changed, n, s')"
  shows "\<not> changed \<and> map_option (\<lambda>r. sRevision (pSnapshot (rPublication r))) (records s' key) = Some (sRevision old)"
proof (intro conjI)
  let ?snap = "old\<lparr>sMembers := ms, sObservedAt := observed, sValidUntil := valid\<rparr>"
  have inv: "store_inv H (sysStore \<sigma>)" using sys_reach_inv [OF assms(1)] by (simp add: sys_inv_def)
  then have ok: "record_ok H (sysStore \<sigma>) key r" using assms(2) by (simp add: store_inv_def records_inv_def)
  then have key: "snapshot_key ?snap = key" and api: "sAPIVersion old = APIVersion"
    using assms(3) by (auto simp: record_ok_def Let_def snapshot_key_def)
  have eff: "put_snapshot now1 now2 ?snap = ?snap"
    using assms(7,8) api by (simp add: put_snapshot_def put_expired_def Let_def)
  have "sort_key (\<lambda>m. (mID m, mName m)) (map (\<lambda>m. m\<lparr>mReplayLSN := []\<rparr>) ms) =
        sort_key (\<lambda>m. (mID m, mName m)) (map (\<lambda>m. m\<lparr>mReplayLSN := []\<rparr>) (sMembers old))"
    by (rule sort_key_eq_sort_key [OF assms(5)]) (use assms(5,6) mset_eq_setD in fastforce)
  then have "routing_view ?snap = routing_view old" by (simp add: routing_view_def)
  then have same: "\<not> put_changed H now1 now2 ?snap (sysStore \<sigma>)"
    using ok assms(2,3) key eff by (simp add: put_changed_def routingDigest_def record_ok_def Let_def)
  with assms(9) show "\<not> changed" by (simp add: PutDeferred_eq)
  from same assms(9) key assms(2,3)
  show "map_option (\<lambda>r. sRevision (pSnapshot (rPublication r))) (records s' key) = Some (sRevision old)"
    by (auto simp: PutDeferred_eq put_record_def record_revision_def)
qed

lemma sample_record_facts:
  "\<not> rExpired sample_record" "length (sMembers (pSnapshot (rPublication sample_record))) = 1"
  by code_simp+

theorem refresh_keeps_revision_witness:
  "\<exists>changed n s'. PutDeferred sample_H 110 110 ((pSnapshot (rPublication sample_record))\<lparr>sMembers :=
       map (\<lambda>m. m\<lparr>mReplayLSN := ''0/16''\<rparr>) (sMembers (pSnapshot (rPublication sample_record))),
       sObservedAt := 110, sValidUntil := 125\<rparr>) (sysStore sample_run) = (changed, n, s') \<and> \<not> changed \<and>
     map_option (\<lambda>r. sRevision (pSnapshot (rPublication r))) (records s' sample_key) =
       Some (sRevision (pSnapshot (rPublication sample_record)))"
proof -
  let ?old = "pSnapshot (rPublication sample_record)"
  obtain m where m: "sMembers ?old = [m]" using sample_record_facts(2) by (metis length_Suc_conv length_0_conv One_nat_def)
  obtain changed n s' where p: "PutDeferred sample_H 110 110 (?old\<lparr>sMembers :=
       map (\<lambda>m. m\<lparr>mReplayLSN := ''0/16''\<rparr>) (sMembers ?old), sObservedAt := 110, sValidUntil := 125\<rparr>)
       (sysStore sample_run) = (changed, n, s')" by (metis prod_cases3)
  from refresh_keeps_revision [OF sample_run_reach sample_record_Some refl sample_record_facts(1) _ _ _ _ p] p
  show ?thesis unfolding m by auto
qed

section \<open>Expiry\<close>

lemma expire_key_records:
  "records (snd (expire_key H now key (ns, s))) k =
     (if k = key then map_option (\<lambda>r. if is_due now r then expired_record H r s else r) (records s key)
      else records s k)"
  by (auto simp: expire_key_def expireRecord_eq split: option.splits)

text \<open>How a record looks after an expiry pass: untouched, or its withdrawn successor.\<close>

definition expiry_of :: "time \<Rightarrow> 'd store_record \<Rightarrow> 'd store_record \<Rightarrow> bool" where
  "expiry_of now r r' \<longleftrightarrow>
     (if is_due now r
      then rExpired r' \<and> (\<exists>rev. pSnapshot (rPublication r') = (invalidate (pSnapshot (rPublication r)))\<lparr>sRevision := rev\<rparr>)
      else r' = r)"

lemma fold_expire_records:
  "distinct order \<Longrightarrow> fold (expire_key H now) order (ns, s) = (ns', s') \<Longrightarrow>
   (k \<notin> set order \<longrightarrow> records s' k = records s k) \<and>
   (k \<in> set order \<longrightarrow> (case records s k of None \<Rightarrow> records s' k = None
       | Some r \<Rightarrow> \<exists>r'. records s' k = Some r' \<and> expiry_of now r r'))"
proof (induction order arbitrary: ns s)
  case (Cons key order)
  obtain ns1 s1 where e: "expire_key H now key (ns, s) = (ns1, s1)" by fastforce
  from Cons.prems(2) e have f: "fold (expire_key H now) order (ns1, s1) = (ns', s')" by simp
  note IH = Cons.IH [OF _ f]
  have r1: "records s1 k = (if k = key then map_option (\<lambda>r. if is_due now r then expired_record H r s else r)
      (records s key) else records s k)" for k
    using expire_key_records [of H now key ns s k] e by simp
  show ?case
  proof (cases "k = key")
    case True
    with Cons.prems(1) IH r1 [of k] have "records s' k = map_option (\<lambda>r. if is_due now r then expired_record H r s else r) (records s k)"
      by simp
    with True show ?thesis by (auto simp: expiry_of_def expired_record_def split: option.splits)
  next
    case False
    with Cons.prems(1) IH r1 [of k] show ?thesis by simp
  qed
qed simp

text \<open>
  One expiry pass withdraws exactly the routes that are due. In whatever order Go ranges over
  the records, each one past its validity becomes the withdrawn form of the same observation (its
  timestamps, cluster and connection defaults unchanged) and every other record stays as it was.
\<close>

theorem Expire_withdraws:
  assumes "distinct order" and "set order = dom (records s)" and "records s key = Some r"
  shows "\<exists>r'. records (Expire H now order s) key = Some r' \<and>
     (if rExpired r \<or> now < sValidUntil (pSnapshot (rPublication r)) then r' = r
      else withdrawn (pSnapshot (rPublication r')) \<and>
           sObservedAt (pSnapshot (rPublication r')) = sObservedAt (pSnapshot (rPublication r)) \<and>
           sValidUntil (pSnapshot (rPublication r')) = sValidUntil (pSnapshot (rPublication r)) \<and>
           sCluster (pSnapshot (rPublication r')) = sCluster (pSnapshot (rPublication r)) \<and>
           sConnection (pSnapshot (rPublication r')) = sConnection (pSnapshot (rPublication r)))"
proof -
  obtain ns t where f: "fold (expire_key H now) order ([], s) = (ns, t)" by fastforce
  have deliver: "records (fold notification_deliver ns u) = records u" for u :: "'a store" and ns
    by (induction ns arbitrary: u) (simp_all add: frame_simps)
  have "records (Expire H now order s) = records t"
    using f by (simp add: Expire_def ExpireDeferred_def deliver prune_unary_def)
  moreover have "\<exists>r'. records t key = Some r' \<and> expiry_of now r r'"
    using fold_expire_records [OF assms(1) f, of key] assms(2,3) by auto
  ultimately obtain r' where r': "records (Expire H now order s) key = Some r'" "expiry_of now r r'" by auto
  show ?thesis
    by (rule exI [of _ r']) (use r' in \<open>auto simp: expiry_of_def is_due_def\<close>)
qed

theorem Expire_withdraws_witness:
  "\<exists>r'. records (Expire sample_H 200 [sample_key] (sysStore sample_run)) sample_key = Some r' \<and>
     withdrawn (pSnapshot (rPublication r'))"
proof -
  have d: "dom (records (sysStore sample_run)) = set [sample_key]"
    by (simp add: sample_run_def sample_watch_def sample_start_def do_dom init_sys_def NewStore_def
          sample_snapshot_def snapshot_key_def sample_ref_def sample_key_def)
  have "\<not> rExpired sample_record" "\<not> 200 < sValidUntil (pSnapshot (rPublication sample_record))" by code_simp+
  with Expire_withdraws [of "[sample_key]", OF _ d [symmetric] sample_record_Some, of sample_H 200]
  show ?thesis by auto
qed

section \<open>Deletion\<close>

lemma deliver_one_heap:
  assumes "subs_inv s"
  shows "heap (deliver_one p w s) v = (if v = w then map_option (sub_deliver p) (heap s w) else heap s v)"
proof (cases "heap s w")
  case None
  then show ?thesis by (simp add: deliver_one_def)
next
  case (Some sub)
  from deliver_no_panic [OF subs_invD(2) [OF assms Some], of p] obtain sub' c
    where "subscription_deliver p sub = Some (sub', c)" by blast
  with Some show ?thesis by (simp add: deliver_one_def sub_deliver_def)
qed

lemma fold_deliver_heap:
  "subs_inv s \<Longrightarrow> pOrder p \<le> publicationOrder s \<Longrightarrow> distinct ws \<Longrightarrow>
   heap (fold (deliver_one p) ws s) v = (if v \<in> set ws then map_option (sub_deliver p) (heap s v) else heap s v)"
proof (induction ws arbitrary: s)
  case (Cons w ws)
  have "subs_inv (deliver_one p w s)" "pOrder p \<le> publicationOrder (deliver_one p w s)"
    using deliver_one_subs_inv [OF Cons.prems(1,2)] Cons.prems(2) by (simp_all add: frame_simps)
  from Cons.IH [OF this] Cons.prems(3)
  have "heap (fold (deliver_one p) (w # ws) s) v =
        (if v \<in> set ws then map_option (sub_deliver p) (heap (deliver_one p w s) v) else heap (deliver_one p w s) v)"
    by simp
  with deliver_one_heap [OF Cons.prems(1), of p w] Cons.prems(3) show ?case by simp
qed simp

lemma sub_deliver_newer:
  assumes "sub_wf sub" and "\<not> subClosed sub" and "is_shared sub" and "subOrder sub < pOrder p"
  shows "sub_pending (sub_deliver p sub) = Some p"
  using assms
  by (auto simp: sub_deliver_def sub_pending_def deliver_defs is_shared_def sub_wf_def mailbox_closed_def
           split: mailbox.splits)

text \<open>
  Deleting a cluster removes its record and its unary demand, keeps its watchers subscribed so
  that a recreation is observable, and leaves in every gRPC watcher's mailbox a tombstone of the
  same cluster identity: unavailable, without primary or members, reason \<open>deleted\<close>.
\<close>

theorem Delete_leaves_tombstone:
  assumes "sys_reach H \<sigma>" and "records (sysStore \<sigma>) key = Some r"
    and "w \<in> set (watchers_of key (sysStore \<sigma>))" and "heap (sysStore \<sigma>) w = Some sub" and "is_shared sub"
  shows "records (Delete key (sysStore \<sigma>)) key = None \<and> unaryDemand (Delete key (sysStore \<sigma>)) key = None \<and>
    watchers_of key (Delete key (sysStore \<sigma>)) = watchers_of key (sysStore \<sigma>) \<and>
    (\<exists>sub' p. heap (Delete key (sysStore \<sigma>)) w = Some sub' \<and> sub_pending sub' = Some p \<and>
           withdrawn (pSnapshot p) \<and> sReason (pSnapshot p) = ''deleted'' \<and> sMembers (pSnapshot p) = [] \<and>
           sCluster (pSnapshot p) = sCluster (pSnapshot (rPublication r)))"
proof (intro conjI)
  let ?s = "sysStore \<sigma>"
  let ?p = "\<lparr>pSnapshot = tombstone (revision_of (processID ?s) (Suc (sequence ?s))) (pSnapshot (rPublication r)),
             pOrder = Suc (publicationOrder ?s)\<rparr>"
  obtain n t where d: "DeleteDeferred key ?s = (n, t)" by fastforce
  have inv: "store_inv H ?s" using sys_reach_inv [OF assms(1)] by (simp add: sys_inv_def)
  then have ss: "subs_inv ?s" by (auto elim: store_invE)
  from DeleteDeferred_inv(1) [OF inv d] have st: "subs_inv t" by (auto elim: store_invE)
  from d assms(2) have n: "nPublication n = Some ?p" "nWatchers n = watchers_of key ?s"
    and t: "heap t = heap ?s" "subscribers t = subscribers ?s" "publicationOrder t = Suc (publicationOrder ?s)"
      "records t key = None" "unaryDemand t key = None"
    by (auto simp: DeleteDeferred_eq)
  have del: "Delete key ?s = fold (deliver_one ?p) (watchers_of key ?s) t"
    using d n by (simp add: Delete_def notification_deliver_def)
  show "records (Delete key ?s) key = None" "unaryDemand (Delete key ?s) key = None"
    "watchers_of key (Delete key ?s) = watchers_of key ?s"
    using t by (simp_all add: del frame_simps watchers_of_def)
  note sub = subs_invD [OF ss assms(4)]
  have live: "\<not> subClosed sub" using subs_inv_watcher(1) [OF ss assms(3)] assms(4) sub(4) by auto
  have "heap (Delete key ?s) w = Some (sub_deliver ?p sub)"
    unfolding del using fold_deliver_heap [OF st, of ?p "watchers_of key ?s" w] t watchers_distinct [OF ss] assms(3,4)
    by simp
  moreover have "sub_pending (sub_deliver ?p sub) = Some ?p"
    by (rule sub_deliver_newer [OF sub(2) live assms(5)]) (use sub(3) in simp)
  ultimately show "\<exists>sub' p. heap (Delete key ?s) w = Some sub' \<and> sub_pending sub' = Some p \<and>
           withdrawn (pSnapshot p) \<and> sReason (pSnapshot p) = ''deleted'' \<and> sMembers (pSnapshot p) = [] \<and>
           sCluster (pSnapshot p) = sCluster (pSnapshot (rPublication r))"
    by (auto simp: tombstone_withdrawn) (simp_all add: tombstone_def)
qed

theorem Delete_leaves_tombstone_witness:
  "records (Delete sample_key (sysStore sample_run)) sample_key = None \<and>
   (\<exists>sub' p. heap (Delete sample_key (sysStore sample_run)) 0 = Some sub' \<and> sub_pending sub' = Some p \<and>
      sReason (pSnapshot p) = ''deleted'')"
  using Delete_leaves_tombstone [OF sample_run_reach sample_record_Some _ sample_sub_Some sample_facts(4)]
    sample_facts(3) by auto

section \<open>Demand\<close>

text \<open>
  Unary demand. A refresh request for an unknown cluster changes nothing and calls nobody.
  For a known one it succeeds, calls the demand handler exactly when one is installed and the
  cluster was idle, and, with a positive lease, keeps the cluster in demand until the lease ends
  and, without watchers, no longer.
\<close>

theorem RequestRefresh_lease:
  assumes "RequestRefresh now key s = (ok, call, s')"
  shows "(records s key = None \<longrightarrow> \<not> ok \<and> \<not> call \<and> s' = s) \<and>
    (records s key \<noteq> None \<longrightarrow> ok \<and> (call \<longleftrightarrow> onDemand s \<and> \<not> fst (HasDemand now key s)) \<and>
      (0 < unaryLease s \<longrightarrow> (\<forall>t. fst (HasDemand t key s') \<longleftrightarrow> watchers_of key s \<noteq> [] \<or> t < now + unaryLease s)))"
  using assms
  by (auto simp: RequestRefresh_def HasDemand_def hasDemand_def Let_def watchers_of_def split: if_splits)

theorem RequestRefresh_lease_witness:
  "\<exists>call s'. RequestRefresh 107 sample_key (SetDemandHandler True 15 (sysStore sample_run)) = (True, call, s') \<and>
     (\<forall>t. fst (HasDemand t sample_key s') \<longleftrightarrow>
        watchers_of sample_key (SetDemandHandler True 15 (sysStore sample_run)) \<noteq> [] \<or> t < 107 + 15)"
proof -
  let ?s = "SetDemandHandler True 15 (sysStore sample_run)"
  obtain ok call s' where r: "RequestRefresh 107 sample_key ?s = (ok, call, s')" by (metis prod_cases3)
  have "records ?s sample_key \<noteq> None" "unaryLease ?s = 15"
    using sample_record_Some by (simp_all add: SetDemandHandler_def)
  with RequestRefresh_lease [OF r] r show ?thesis by auto
qed

text \<open>
  The active clusters are listed exactly and deterministically: the identities of the known
  clusters with a watcher or an unexpired lease, strictly ordered by namespace and name, whatever
  order Go ranges over its maps in.
\<close>

theorem ActiveClusters_exact:
  assumes "sys_reach H \<sigma>" and "distinct order" and "set order = {key. is_active now (sysStore \<sigma>) key}"
    and "ActiveClusters now order (sysStore \<sigma>) = (refs, s')"
  shows "set refs = {ref. \<exists>key. is_active now (sysStore \<sigma>) key \<and> ClusterIdentity key (sysStore \<sigma>) = Some ref} \<and>
    sorted_wrt (<) (map (\<lambda>r. (rNamespace r, rName r)) refs)"
proof (intro conjI)
  let ?s = "sysStore \<sigma>" and ?f = "\<lambda>r. (rNamespace r, rName r)"
  have inv: "store_inv H ?s" using sys_reach_inv [OF assms(1)] by (simp add: sys_inv_def)
  have key: "key = ClusterKey (rNamespace ref) (rName ref)" if "ClusterIdentity key ?s = Some ref" for key ref
    using that inv by (auto simp: ClusterIdentity_def store_inv_def records_inv_def record_ok_def Let_def snapshot_key_def)
  have flt: "filter (is_active now ?s) order = order" using assms(3) by (simp add: filter_id_conv)
  let ?l = "List.map_filter (\<lambda>key. ClusterIdentity key ?s) order"
  have refs: "refs = sort_key ?f ?l"
    using assms(4) by (simp add: ActiveClusters_def Let_def flt ClusterIdentity_def prune_unary_def)
  then show "set refs = {ref. \<exists>key. is_active now ?s key \<and> ClusterIdentity key ?s = Some ref}"
    using assms(3) by (auto simp: set_map_filter image_iff)
  have "distinct (map ?f ?l)"
    using assms(2)
  proof (induction order)
    case (Cons k ks)
    then show ?case
      using key by (auto simp: map_filter_simps set_map_filter split: option.splits) (metis key)
  qed (simp add: map_filter_simps)
  moreover have "mset (map ?f refs) = mset (map ?f ?l)" by (simp add: refs)
  ultimately have "distinct (map ?f refs)" using mset_eq_imp_distinct_iff by blast
  moreover have "sorted (map ?f refs)" unfolding refs by simp
  ultimately show "sorted_wrt (<) (map ?f refs)" by (simp add: strict_sorted_iff)
qed

definition do_refresh :: "time \<Rightarrow> clusterKey \<Rightarrow> 'd sys \<Rightarrow> 'd sys" where
  "do_refresh now key \<sigma> = (case RequestRefresh now key (sysStore \<sigma>) of (_, _, st) \<Rightarrow> commit [] st \<sigma>)"

definition do_handler :: "duration \<Rightarrow> 'd sys \<Rightarrow> 'd sys" where
  "do_handler lease \<sigma> = commit [] (SetDemandHandler True lease (sysStore \<sigma>)) \<sigma>"

lemma do_refresh_reach: "sys_reach H \<sigma> \<Longrightarrow> sys_reach H (do_refresh now key \<sigma>)"
  by (auto simp: do_refresh_def split: prod.splits intro: sys_reach.step sys_step.refresh)

lemma do_handler_reach: "sys_reach H \<sigma> \<Longrightarrow> sys_reach H (do_handler lease \<sigma>)"
  by (auto simp: do_handler_def intro: sys_reach.step sys_step.handler)

definition sample_demand :: "(bool \<times> string \<times> (string \<times> bool) list) sys" where
  "sample_demand = do_refresh 101 sample_key (do_handler 15 (do_put sample_H 100 (sample_snapshot 100 ''p1'') sample_start))"

lemma sample_demand_reach: "sys_reach sample_H sample_demand"
  unfolding sample_demand_def by (intro do_refresh_reach do_handler_reach do_reach sample_start_reach)

lemma sample_demand_state:
  "subscribers (sysStore sample_demand) = Map.empty"
  "unaryDemand (sysStore sample_demand) = [sample_key \<mapsto> 116]"
  by (simp_all add: sample_demand_def do_refresh_def do_handler_def Let_def sample_start_def init_sys_def NewStore_def do_put_def PutDeferred_eq
        RequestRefresh_def hasDemand_def SetDemandHandler_def sample_snapshot_def snapshot_key_def sample_ref_def
        sample_key_def)

theorem ActiveClusters_exact_witness:
  "\<exists>refs s'. ActiveClusters 107 [sample_key] (sysStore sample_demand) = (refs, s') \<and> refs = [sample_ref] \<and>
     set refs = {ref. \<exists>key. is_active 107 (sysStore sample_demand) key \<and> ClusterIdentity key (sysStore sample_demand) = Some ref}"
proof -
  obtain refs s' where a: "ActiveClusters 107 [sample_key] (sysStore sample_demand) = (refs, s')" by fastforce
  have "set [sample_key] = {key. is_active 107 (sysStore sample_demand) key}"
    by (auto simp: is_active_def sample_demand_state)
  from ActiveClusters_exact [OF sample_demand_reach _ this a]
  have "set refs = {ref. \<exists>key. is_active 107 (sysStore sample_demand) key \<and> ClusterIdentity key (sysStore sample_demand) = Some ref}"
    by simp
  moreover have "fst (ActiveClusters 107 [sample_key] (sysStore sample_demand)) = [sample_ref]" by code_simp
  ultimately show ?thesis using a by auto
qed

end
