(* ===== verification/Grpc.thy ===== *)
theory Grpc
  imports Prelude
begin

text \<open>
  The vocabulary of \<open>google.golang.org/grpc\<close> status values the program uses: the codes it returns, a
  status error as code and message, and the status of a context error.
\<close>

datatype grpcCode = Canceled | DeadlineExceeded | InvalidArgument | NotFound | ResourceExhausted | Unauthenticated

type_synonym grpcError = "grpcCode \<times> string"

datatype ctxErr = CtxCanceled | CtxDeadline

text \<open>\<open>status.FromContextError\<close> on the two errors a context can have.\<close>

fun FromContextError :: "ctxErr \<Rightarrow> grpcError" where
  "FromContextError CtxCanceled = (Canceled, ''context canceled'')"
| "FromContextError CtxDeadline = (DeadlineExceeded, ''context deadline exceeded'')"

end
