(* ===== verification/Discovery_Server.thy ===== *)
theory Discovery_Server
  imports Store_Props Grpc
begin

text \<open>
  The discovery service, \<open>internal/discovery/grpc.go\<close>: authorization by bearer token, validation of the
  cluster reference, \<open>GetTopology\<close>, and one iteration of the loop of \<open>WatchTopology\<close>. The hash function,
  the label check of \<open>k8s.io/apimachinery\<close> and the protobuf timestamps are parameters. What the wire
  form preserves is stated by a decoder that a client could run.
\<close>

section \<open>Strings\<close>

text \<open>\<open>strings.Cut\<close> at a one-byte separator, \<open>strings.Split\<close> at one, and ASCII case folding.\<close>

fun strings_Cut :: "string \<Rightarrow> char \<Rightarrow> string \<times> string \<times> bool" where
  "strings_Cut [] sep = ([], [], False)"
| "strings_Cut (c # s) sep =
     (if c = sep then ([], s, True) else case strings_Cut s sep of (before, after, found) \<Rightarrow> (c # before, after, found))"

fun strings_Split :: "string \<Rightarrow> char \<Rightarrow> string list" where
  "strings_Split [] sep = [[]]"
| "strings_Split (c # s) sep =
     (if c = sep then [] # strings_Split s sep
      else case strings_Split s sep of [] \<Rightarrow> [[c]] | w # ws \<Rightarrow> (c # w) # ws)"

definition ascii_lower :: "char \<Rightarrow> char" where
  "ascii_lower c = (if 65 \<le> (of_char c :: nat) \<and> (of_char c :: nat) \<le> 90 then char_of ((of_char c :: nat) + 32) else c)"

text \<open>
  \<open>strings.EqualFold\<close> against a constant of ASCII letters; no letter of \<open>Bearer\<close> has a case variant
  outside ASCII.
\<close>

definition EqualFold :: "string \<Rightarrow> string \<Rightarrow> bool" where
  "EqualFold s t \<longleftrightarrow> map ascii_lower s = map ascii_lower t"

section \<open>The server\<close>

record 'h Server =
  authenticated :: bool
  tokenDigest :: 'h

definition NewServer :: "(string \<Rightarrow> 'h) \<Rightarrow> string \<Rightarrow> 'h Server" where
  "NewServer sha token = \<lparr>authenticated = (token \<noteq> []), tokenDigest = sha token\<rparr>"

text \<open>\<open>values\<close> are the vals of the \<open>authorization\<close> metadata of the request.\<close>

definition authorize :: "(string \<Rightarrow> 'h) \<Rightarrow> 'h Server \<Rightarrow> string list \<Rightarrow> grpcError option" where
  "authorize sha srv vals =
     (if \<not> authenticated srv then None
      else if length vals \<noteq> 1 then Some (Unauthenticated, ''valid bearer token required'')
      else case strings_Cut (vals ! 0) CHR '' '' of
        (scheme, token, ok) \<Rightarrow>
          (if \<not> ok \<or> \<not> EqualFold scheme ''Bearer'' \<or> tokenDigest srv \<noteq> sha token
           then Some (Unauthenticated, ''valid bearer token required'') else None))"

definition DNS1123SubdomainMaxLength :: nat where
  "DNS1123SubdomainMaxLength = 253"

text \<open>\<open>label\<close>: \<open>validation.IsDNS1123Label\<close> reports no problem.\<close>

definition validDNSName :: "(string \<Rightarrow> bool) \<Rightarrow> string \<Rightarrow> bool \<Rightarrow> bool" where
  "validDNSName label value dots =
     (if \<not> dots then label value
      else if length value > DNS1123SubdomainMaxLength then False
      else list_all label (strings_Split value CHR ''.''))"

definition validateReference :: "(string \<Rightarrow> bool) \<Rightarrow> string \<Rightarrow> string \<Rightarrow> grpcError option" where
  "validateReference label namespace name =
     (if \<not> validDNSName label namespace False \<or> \<not> validDNSName label name True
      then Some (InvalidArgument, ''namespace and name must be valid Kubernetes resource names'') else None)"

text \<open>
  What the handlers use of other code: the hash and label functions, the digest of the store, and the
  protobuf library's timestamp. The flag of the result says that the demand handler is called.
\<close>

record ('h, 'd, 'ts) denv =
  sha256 :: "string \<Rightarrow> 'h"
  isLabel :: "string \<Rightarrow> bool"
  routing :: "v1_Snapshot \<Rightarrow> 'd"
  timestamp :: "time \<Rightarrow> 'ts"

text \<open>
  \<open>GetTopology\<close> takes the lock of the store twice. \<open>st\<close> is the store \<open>RequestRefresh\<close> finds, \<open>later\<close> the one
  \<open>getPublication\<close> finds, when the demand handler has run and other goroutines may have changed anything (deleted
  the record, say); the result has the store each of the two sections leaves.
\<close>

definition GetTopology :: "('h, 'd, 'ts) denv \<Rightarrow> 'h Server \<Rightarrow> string list \<Rightarrow> string \<Rightarrow> string \<Rightarrow> time \<Rightarrow> time \<Rightarrow> 'd store \<Rightarrow> 'd store
    \<Rightarrow> (grpcError + 'ts pb_Snapshot) \<times> bool \<times> 'd store \<times> 'd store" where
  "GetTopology D srv vals namespace name now1 now2 st later =
     (case authorize (sha256 D) srv vals of
        Some e \<Rightarrow> (Inl e, False, st, later)
      | None \<Rightarrow>
     (case validateReference (isLabel D) namespace name of
        Some e \<Rightarrow> (Inl e, False, st, later)
      | None \<Rightarrow>
          let key = ClusterKey namespace name; (_, demand, st) = RequestRefresh now1 key st in
            case getPublication (routing D) now2 key later of
              (None, later) \<Rightarrow> (Inl (NotFound, ''cluster is not observed''), demand, st, later)
            | (Some published, later) \<Rightarrow> (Inr (protobuf (timestamp D) published), demand, st, later)))"

text \<open>
  The start of \<open>WatchTopology\<close>: an error, or the watcher it has registered.
\<close>

definition WatchTopology_begin :: "('h, 'd, 'ts) denv \<Rightarrow> 'h Server \<Rightarrow> string list \<Rightarrow> string \<Rightarrow> string \<Rightarrow> time \<Rightarrow> time \<Rightarrow> 'd store
    \<Rightarrow> (grpcError + nat) \<times> bool \<times> 'd store" where
  "WatchTopology_begin D srv vals namespace name now1 now2 st =
     (case authorize (sha256 D) srv vals of
        Some e \<Rightarrow> (Inl e, False, st)
      | None \<Rightarrow>
     (case validateReference (isLabel D) namespace name of
        Some e \<Rightarrow> (Inl e, False, st)
      | None \<Rightarrow>
     (case subscribeShared (routing D) now1 now2 (ClusterKey namespace name) st of
        None \<Rightarrow> (Inl (NotFound, ''cluster is not observed''), False, st)
      | Some (w, demand, st) \<Rightarrow> (Inr w, demand, st))))"

text \<open>
  One iteration on a received publication: what is sent (\<open>None\<close>: the iteration continues without a
  send). \<open>now1\<close> is the clock of the freshness check, \<open>now2\<close> that of the store's read; the notification the read
  leaves is delivered before the send.
\<close>

definition watch_iteration :: "(v1_Snapshot \<Rightarrow> 'd) \<Rightarrow> time \<Rightarrow> time \<Rightarrow> publication \<Rightarrow> nat \<Rightarrow> 'd store
    \<Rightarrow> publication option \<times> notification \<times> 'd store" where
  "watch_iteration H now1 now2 published lastSent st =
     (let snapshot = pSnapshot published;
          (candidate, n, st) =
            (if sReason snapshot \<noteq> ''deleted'' \<and> \<not> now1 < sValidUntil snapshot
             then readPublication H now2 (snapshot_key snapshot) st
             else (Some published, no_notification, st))
      in case candidate of
           None \<Rightarrow> (None, n, st)
         | Some published \<Rightarrow> (if pOrder published \<le> lastSent then None else Some published, n, st))"

section \<open>Authorization\<close>

lemma strings_Cut_found: "strings_Cut s sep = (before, after, True) \<Longrightarrow> s = before @ sep # after \<and> sep \<notin> set before"
  by (induction s arbitrary: before) (auto split: if_splits prod.splits)

lemma strings_Cut_first: "sep \<notin> set before \<Longrightarrow> strings_Cut (before @ sep # after) sep = (before, after, True)"
  by (induction before) auto

lemma Bearer_no_space: "EqualFold scheme ''Bearer'' \<Longrightarrow> CHR '' '' \<notin> set scheme"
proof
  assume e: "EqualFold scheme ''Bearer''" and "CHR '' '' \<in> set scheme"
  then have "ascii_lower CHR '' '' \<in> set (map ascii_lower ''Bearer'')" unfolding EqualFold_def by (metis image_eqI list.set_map)
  moreover have "ascii_lower CHR '' '' \<notin> set (map ascii_lower ''Bearer'')" by code_simp
  ultimately show False by blast
qed

text \<open>
  The bearer check is exact. With no token configured every request passes; with one configured a
  request passes exactly when it carries one authorization value, which is the scheme \<open>Bearer\<close> in any
  letter case, one space, and a string with the digest of the configured token (the token itself
  unless the hash has a collision).
\<close>

theorem authorize_exact:
  "authorize sha (NewServer sha token) vals = None \<longleftrightarrow>
    token = [] \<or> (\<exists>scheme t. vals = [scheme @ CHR '' '' # t] \<and> EqualFold scheme ''Bearer'' \<and> sha t = sha token)"
proof (cases "token = []")
  case False
  show ?thesis
  proof
    assume "authorize sha (NewServer sha token) vals = None"
    then obtain v scheme t where v: "vals = [v]" "strings_Cut v CHR '' '' = (scheme, t, True)" "EqualFold scheme ''Bearer''" "sha t = sha token"
      using False by (cases vals) (auto simp: authorize_def NewServer_def split: if_splits prod.splits)
    then show "token = [] \<or> (\<exists>scheme t. vals = [scheme @ CHR '' '' # t] \<and> EqualFold scheme ''Bearer'' \<and> sha t = sha token)"
      using strings_Cut_found [OF v(2)] by auto
  next
    assume "token = [] \<or> (\<exists>scheme t. vals = [scheme @ CHR '' '' # t] \<and> EqualFold scheme ''Bearer'' \<and> sha t = sha token)"
    then show "authorize sha (NewServer sha token) vals = None"
      using False strings_Cut_first [OF Bearer_no_space] by (auto simp: authorize_def NewServer_def)
  qed
qed (simp add: authorize_def NewServer_def)

section \<open>The wire form\<close>

text \<open>The decoder: what a client recovers from the message, given the inverse of the timestamps.\<close>

fun roleFromProto :: "pb_Role \<Rightarrow> string" where
  "roleFromProto ROLE_PRIMARY = ''primary''"
| "roleFromProto ROLE_STANDBY = ''standby''"
| "roleFromProto ROLE_UNKNOWN = ''unknown''"

fun syncFromProto :: "pb_SyncState \<Rightarrow> string" where
  "syncFromProto SYNC_STATE_SYNC = ''sync''"
| "syncFromProto SYNC_STATE_QUORUM = ''quorum''"
| "syncFromProto SYNC_STATE_POTENTIAL = ''potential''"
| "syncFromProto SYNC_STATE_ASYNC = ''async''"
| "syncFromProto SYNC_STATE_UNKNOWN = ''unknown''"

definition endpointFromProto :: "pb_Endpoint \<Rightarrow> v1_Endpoint" where
  "endpointFromProto e = \<lparr>eHost = pbHost e, ePort = ucast (pbPort e), eServerName = pbServerName e\<rparr>"

definition memberFromProto :: "pb_Member \<Rightarrow> v1_Member" where
  "memberFromProto m =
     \<lparr>mID = pbMemberId m, mName = pbMemberName m, mRole = roleFromProto (pbRole m), mSyncState = syncFromProto (pbSyncState m),
      mReady = pbReady m, mReason = pbMemberReason m, mEndpoints = (\<lambda>network. map_option endpointFromProto (pbEndpoints m network)),
      mNode = pbNode m, mZone = pbZone m, mRegion = pbRegion m, mTimeline = pbTimeline m, mReplayLSN = pbReplayLsn m\<rparr>"

definition fromProto :: "('ts \<Rightarrow> time) \<Rightarrow> 'ts pb_Snapshot \<Rightarrow> v1_Snapshot" where
  "fromProto asTime s =
     \<lparr>sAPIVersion = pbApiVersion s,
      sCluster = \<lparr>rNamespace = pbNamespace (pbCluster s), rName = pbName (pbCluster s), rUID = pbUid (pbCluster s)\<rparr>,
      sRevision = pbRevision s, sObservedAt = asTime (pbObservedAt s), sValidUntil = asTime (pbValidUntil s),
      sAvailable = pbAvailable s, sReason = pbReason s, sPrimaryID = pbPrimaryId s, sTransitioning = pbTransitioning s,
      sMembers = map memberFromProto (pbMembers s),
      sConnection = \<lparr>cDatabase = pbDatabase (pbConnection s), cServerCAPEM = pbServerCaPem (pbConnection s)\<rparr>\<rparr>"

lemma endpoint_roundtrip: "endpointFromProto (endpointToProto e) = e"
proof -
  have "(ucast (ucast x :: 32 word) :: 16 word) = x" for x :: "16 word"
    by (rule ucast_up_ucast_id) (simp add: is_up)
  then show ?thesis by (simp add: endpointFromProto_def endpointToProto_def)
qed

lemma member_roundtrip:
  assumes "legal_member m"
  shows "memberFromProto (memberToProto m) = m"
proof -
  have "roleFromProto (roleToProto (mRole m)) = mRole m" "syncFromProto (syncToProto (mSyncState m)) = mSyncState m"
    using assms by (auto simp: legal_member_def legal_roles_def legal_sync_states_def roleToProto_def syncToProto_def)
  moreover have "(\<lambda>n. map_option endpointFromProto (map_option endpointToProto (mEndpoints m n))) = mEndpoints m"
    by (simp add: option.map_comp comp_def endpoint_roundtrip option.map_ident)
  ultimately show ?thesis by (simp add: memberFromProto_def memberToProto_def)
qed

text \<open>
  C38: the wire form loses nothing. Decoding the protobuf message of a snapshot whose members have the
  roles and sync states of the API gives the snapshot back, endpoints with their ports and the
  certificate authority included.
\<close>

theorem toProto_roundtrip:
  assumes "\<forall>t. asTime (tsNew t) = t" and "\<forall>m\<in>set (sMembers snap). legal_member m"
  shows "fromProto asTime (toProto tsNew snap) = snap"
proof -
  have "map memberFromProto (map memberToProto (sMembers snap)) = sMembers snap"
    using assms(2) by (simp add: map_idI member_roundtrip)
  then show ?thesis using assms(1) by (simp add: fromProto_def toProto_def)
qed

theorem toProto_roundtrip_witness:
  "fromProto id (toProto id (sample_snapshot 100 ''p1'')) = sample_snapshot 100 ''p1''"
proof (rule toProto_roundtrip)
  show "\<forall>m\<in>set (sMembers (sample_snapshot 100 ''p1'')). legal_member m"
    by (simp add: sample_snapshot_def sample_member_def legal_member_def legal_roles_def legal_sync_states_def)
qed simp

section \<open>Unary reads\<close>

text \<open>What \<open>RequestRefresh\<close> does for a cluster: it renews the demand, and asks for the handler if there was none.\<close>

definition demand_renewed :: "time \<Rightarrow> clusterKey \<Rightarrow> 'd store \<Rightarrow> bool \<Rightarrow> 'd store \<Rightarrow> bool" where
  "demand_renewed now key st demand st' \<longleftrightarrow> records st' = records st \<and>
     (if records st key = None then st' = st \<and> \<not> demand
      else (demand \<longleftrightarrow> onDemand st \<and> \<not> fst (HasDemand now key st)) \<and>
        (0 < unaryLease st \<longrightarrow> (\<forall>t. fst (HasDemand t key st') \<longleftrightarrow> watchers_of key st \<noteq> [] \<or> t < now + unaryLease st)))"

lemma RequestRefresh_renews: "RequestRefresh now key st = (ok, demand, st') \<Longrightarrow> demand_renewed now key st demand st'"
  by (auto simp: demand_renewed_def RequestRefresh_def HasDemand_def hasDemand_def Let_def watchers_of_def split: if_splits)

text \<open>What \<open>getPublication\<close> finds: the publication stored, which it expires first when that is due.\<close>

lemma getPublication_found:
  assumes "store_inv H st" and "getPublication H now key st = (Some p, st')"
  shows "\<exists>r. records st' key = Some r \<and> rPublication r = p" "snapshot_key (pSnapshot p) = key"
    "withdrawn (pSnapshot p) \<or> now < sValidUntil (pSnapshot p) \<and> records st' = records st"
proof -
  obtain n s2 where rd: "readPublication H now key st = (Some p, n, s2)" and st': "st' = notification_deliver n s2"
    using assms(2) by (auto simp: getPublication_def split: prod.splits)
  have rec: "records st' = records s2" by (simp add: st' frame_simps)
  show "\<exists>r. records st' key = Some r \<and> rPublication r = p" using readPublication_publication(2) [OF assms(1) rd] by (simp add: rec)
  then show "snapshot_key (pSnapshot p) = key"
    using readPublication_inv(1) [OF assms(1) rd] by (auto simp: rec store_inv_def records_inv_def record_ok_def Let_def)
  show "withdrawn (pSnapshot p) \<or> now < sValidUntil (pSnapshot p) \<and> records st' = records st"
    using readPublication_fresh [OF assms(1) rd] rec by auto
qed

lemma getPublication_absent:
  assumes "getPublication H now key st = (None, st')"
  shows "records st key = None" "st' = st"
  using assms by (auto simp: getPublication_def readPublication_def notification_deliver_def no_notification_def split: option.splits prod.splits)

text \<open>
  C37: what \<open>GetTopology\<close> answers and does, on every branch and in all reachable states of the store, which may change
  between its two critical sections. A request that is not authorized or does not name a valid reference gets that
  error and leaves the store, the demand included, as it was. Otherwise the first section renews the demand: for a known
  cluster it is in demand until the lease from now has run out, or as long as it is watched, and the demand handler is
  called exactly if there is one and the cluster was not in demand; an unknown cluster changes nothing. The second
  section answers \<open>NotFound\<close> exactly if there is no record by then, and otherwise with the wire form of the publication that is stored
  when it returns; it is of the cluster asked for, and if it offers any route, it is within its validity and it is the
  one the store held.
\<close>

theorem GetTopology_contract:
  assumes "sys_reach (routing D) \<tau>" and "later = sysStore \<tau>" and "key = ClusterKey ns name"
    and "GetTopology D srv vals ns name now1 now2 st later = (answer, demand, st', later')"
  shows "case (authorize (sha256 D) srv vals, validateReference (isLabel D) ns name) of
      (Some e, _) \<Rightarrow> answer = Inl e \<and> \<not> demand \<and> st' = st \<and> later' = later
    | (None, Some e) \<Rightarrow> answer = Inl e \<and> \<not> demand \<and> st' = st \<and> later' = later
    | (None, None) \<Rightarrow> demand_renewed now1 key st demand st' \<and>
        (case records later key of
           None \<Rightarrow> answer = Inl (NotFound, ''cluster is not observed'') \<and> later' = later
         | Some _ \<Rightarrow> \<exists>p r. answer = Inr (protobuf (timestamp D) p) \<and> records later' key = Some r \<and> rPublication r = p \<and>
             snapshot_key (pSnapshot p) = key \<and>
             (withdrawn (pSnapshot p) \<or> now2 < sValidUntil (pSnapshot p) \<and> records later' = records later))"
proof (cases "authorize (sha256 D) srv vals = None \<and> validateReference (isLabel D) ns name = None")
  case True
  obtain ok d s1 where rr: "RequestRefresh now1 key st = (ok, d, s1)" by (metis prod_cases3)
  obtain found s2 where g: "getPublication (routing D) now2 key later = (found, s2)" by fastforce
  have eq: "answer = (case found of None \<Rightarrow> Inl (NotFound, ''cluster is not observed'') | Some p \<Rightarrow> Inr (protobuf (timestamp D) p))"
      "demand = d" "st' = s1" "later' = s2"
    using assms(4) True by (auto simp: GetTopology_def Let_def rr [unfolded assms(3)] g [unfolded assms(3)] split: option.splits)
  have inv: "store_inv (routing D) later" using sys_reach_inv [OF assms(1)] by (simp add: sys_inv_def assms(2))
  show ?thesis
  proof (cases found)
    case None
    then show ?thesis using True RequestRefresh_renews [OF rr] getPublication_absent [of "routing D" now2 key later s2] g by (simp add: eq)
  next
    case (Some p)
    have "records later key \<noteq> None" using g Some by (auto simp: getPublication_def readPublication_def split: option.splits)
    then show ?thesis using True RequestRefresh_renews [OF rr] getPublication_found [OF inv g [unfolded Some]] by (auto simp: eq Some)
  qed
next
  case False
  then show ?thesis using assms(4) by (auto simp: GetTopology_def split: option.splits)
qed

definition sample_denv :: "(string, bool \<times> string \<times> (string \<times> bool) list, time) denv" where
  "sample_denv = \<lparr>sha256 = id, isLabel = (\<lambda>s. s \<noteq> []), routing = sample_H, timestamp = id\<rparr>"

definition sample_unary :: "string \<Rightarrow> (grpcError + time pb_Snapshot) \<times> bool \<times> (bool \<times> string \<times> (string \<times> bool) list) store \<times> (bool \<times> string \<times> (string \<times> bool) list) store" where
  "sample_unary name = GetTopology sample_denv (NewServer id []) [] ''db'' name 107 107
     (SetDemandHandler True 15 (sysStore sample_run)) (sysStore sample_run)"

theorem GetTopology_contract_witness:
  "fst (sample_unary ''other'') = Inl (NotFound, ''cluster is not observed'') \<and> pbAvailable (projr (fst (sample_unary ''app''))) \<and>
   fst (HasDemand 121 sample_key (fst (snd (snd (sample_unary ''app''))))) \<and>
   (\<exists>p r. fst (sample_unary ''app'') = Inr (protobuf id p) \<and> records (snd (snd (snd (sample_unary ''app'')))) sample_key = Some r \<and>
      rPublication r = p \<and> 107 < sValidUntil (pSnapshot p))"
proof -
  have reach: "sys_reach (routing sample_denv) sample_run" using sample_run_reach by (simp add: sample_denv_def)
  have ok: "authorize (sha256 sample_denv) (NewServer id []) [] = None"
    "validateReference (isLabel sample_denv) ''db'' ''other'' = None" "validateReference (isLabel sample_denv) ''db'' ''app'' = None"
    by code_simp+
  have av: "pbAvailable (projr (fst (sample_unary ''app'')))" by code_simp
  have rec: "records (sysStore sample_run) (ClusterKey ''db'' ''other'') = None" "records (sysStore sample_run) sample_key \<noteq> None"
    "records (SetDemandHandler True 15 (sysStore sample_run)) sample_key \<noteq> None" "unaryLease (SetDemandHandler True 15 (sysStore sample_run)) = 15"
    by code_simp+
  have key: "sample_key = ClusterKey ''db'' ''app''" by (simp add: sample_key_def)
  obtain a d s l where u: "sample_unary ''app'' = (a, d, s, l)" by (metis prod.collapse)
  obtain a' d' s' l' where u': "sample_unary ''other'' = (a', d', s', l')" by (metis prod.collapse)
  have "a' = Inl (NotFound, ''cluster is not observed'')"
    using GetTopology_contract [OF reach refl refl u' [unfolded sample_unary_def]] ok rec(1) by simp
  moreover have "demand_renewed 107 sample_key (SetDemandHandler True 15 (sysStore sample_run)) d s"
    and "\<exists>p r. a = Inr (protobuf id p) \<and> records l sample_key = Some r \<and> rPublication r = p \<and>
        (withdrawn (pSnapshot p) \<or> 107 < sValidUntil (pSnapshot p))"
    using GetTopology_contract [OF reach refl key u [unfolded sample_unary_def]] ok rec(2) by (auto simp: sample_denv_def)
  then obtain p r where "fst (HasDemand 121 sample_key s)" "a = Inr (protobuf id p)" "records l sample_key = Some r" "rPublication r = p"
      "withdrawn (pSnapshot p) \<or> 107 < sValidUntil (pSnapshot p)"
    using rec(3,4) by (auto simp: demand_renewed_def)
  moreover from this have "\<not> withdrawn (pSnapshot p)" using av by (simp add: u protobuf_def toProto_def withdrawn_def)
  ultimately show ?thesis using av by (simp add: u u')
qed

end
