(* ===== verification/Watch_Stream.thy ===== *)
theory Watch_Stream
  imports Discovery_Server
begin

text \<open>
  A \<open>WatchTopology\<close> stream on top of the concurrent store: the loop takes a publication from its
  mailbox, checks it, reads the store again when it is stale, and sends it, while every other commit,
  delivery, receive and cancellation of the store may happen in between.
\<close>

section \<open>Publications reach only watchers of their cluster\<close>

definition addressed :: "'d store \<Rightarrow> notification \<Rightarrow> bool" where
  "addressed st n \<longleftrightarrow> (\<forall>p. nPublication n = Some p \<longrightarrow> set (nWatchers n) \<subseteq> set (watchers_of (snapshot_key (pSnapshot p)) st))"

definition identity_inv :: "'d sys \<Rightarrow> bool" where
  "identity_inv \<sigma> \<longleftrightarrow>
     (\<forall>w key. owner \<sigma> w = Some key \<longrightarrow> w < nextSub (sysStore \<sigma>)) \<and>
     (\<forall>(p, w)\<in>set (inflight \<sigma>). owner \<sigma> w = Some (snapshot_key (pSnapshot p))) \<and>
     (\<forall>w sub p. heap (sysStore \<sigma>) w = Some sub \<and> sub_pending sub = Some p \<longrightarrow> owner \<sigma> w = Some (snapshot_key (pSnapshot p))) \<and>
     (\<forall>w. \<forall>p\<in>set (received \<sigma> w). owner \<sigma> w = Some (snapshot_key (pSnapshot p)))"

text \<open>Records are stored under the key of their snapshot.\<close>

definition keyed :: "'d store \<Rightarrow> bool" where
  "keyed s \<longleftrightarrow> (\<forall>key r. records s key = Some r \<longrightarrow> snapshot_key (pSnapshot (rPublication r)) = key)"

lemma snapshot_key_frame [simp]:
  "snapshot_key (invalidate s) = snapshot_key s" "snapshot_key (s\<lparr>sRevision := r\<rparr>) = snapshot_key s"
  "snapshot_key (tombstone r s) = snapshot_key s" "snapshot_key (put_snapshot now1 now2 s) = snapshot_key s"
  by (simp_all add: snapshot_key_def invalidate_def tombstone_def put_snapshot_def Let_def)

lemma store_inv_keyed: "store_inv H s \<Longrightarrow> keyed s"
  by (auto simp: keyed_def store_inv_def records_inv_def record_ok_def Let_def)

lemma put_addressed: "PutDeferred H now1 now2 snap s = (changed, n, t) \<Longrightarrow> addressed s n"
  by (auto simp: PutDeferred_eq addressed_def put_record_def)

lemma delete_addressed: "keyed s \<Longrightarrow> DeleteDeferred key s = (n, t) \<Longrightarrow> addressed s n"
  by (auto simp: keyed_def DeleteDeferred_eq addressed_def no_notification_def split: option.splits)

lemma expireRecord_addressed:
  assumes "keyed s" and "records s key = Some r" and "expireRecord H key r now s = (r', n, t)"
  shows "addressed s n" "keyed t" "same_subs s t" "snapshot_key (pSnapshot (rPublication r')) = key"
  using assms by (auto simp: keyed_def expireRecord_eq addressed_def expired_record_def no_notification_def same_subs_def split: if_splits)

lemma read_addressed:
  assumes "keyed s" and "readPublication H now key s = (p, n, t)"
  shows "addressed s n" "\<And>q. p = Some q \<Longrightarrow> snapshot_key (pSnapshot q) = key"
  using assms expireRecord_addressed [OF assms(1), of key _ H now]
  by (auto simp: readPublication_def addressed_def no_notification_def split: option.splits prod.splits)

lemma fold_expire_addressed:
  assumes "keyed s" and "fold (expire_key H now) order (ns, s) = (ns', t)" and "\<forall>n\<in>set ns. addressed s n"
  shows "(\<forall>n\<in>set ns'. addressed s n) \<and> same_subs s t"
  using assms
proof (induction order arbitrary: ns s)
  case (Cons key order)
  obtain ns1 s1 where e: "expire_key H now key (ns, s) = (ns1, s1)" by fastforce
  have 1: "(\<forall>n\<in>set ns1. addressed s n) \<and> same_subs s s1 \<and> keyed s1"
  proof (cases "records s key")
    case None
    then show ?thesis using e Cons.prems by (simp add: expire_key_def same_subs_def)
  next
    case (Some r)
    obtain r' n u where x: "expireRecord H key r now s = (r', n, u)" by (metis prod_cases3)
    show ?thesis using e Cons.prems(3) expireRecord_addressed [OF Cons.prems(1) Some x]
      by (auto simp: expire_key_def Some x split: if_splits)
  qed
  then have w: "addressed s1 = addressed s" by (simp add: addressed_def fun_eq_iff same_subs_def watchers_of_def)
  have "fold (expire_key H now) order (ns1, s1) = (ns', t)" using Cons.prems(2) e by simp
  with Cons.IH [of s1 ns1] 1 w show ?case by (auto simp: same_subs_def)
qed (simp add: same_subs_def)

lemma identity_commit:
  assumes "identity_inv \<sigma>" and "flight_inv \<sigma>" and "heap st = heap (sysStore \<sigma>)" and "nextSub st = nextSub (sysStore \<sigma>)"
    and "\<forall>n\<in>set ns. addressed (sysStore \<sigma>) n"
  shows "identity_inv (commit ns st \<sigma>)"
  using assms by (fastforce simp: identity_inv_def flight_inv_def addressed_def in_deliveries)

lemma deliver_pending:
  "subscription_deliver p sub = Some (sub', c) \<Longrightarrow> sub_pending sub' = sub_pending sub \<or> sub_pending sub' = Some p \<or> sub_pending sub' = None"
  by (auto simp: deliver_defs sub_pending_def split: mailbox.splits if_splits option.splits)

lemma close_pending: "subscription_close sub = Some sub' \<Longrightarrow> sub_pending sub' = sub_pending sub"
  by (auto simp: subscription_close_def mailbox_close_def sub_pending_def split: mailbox.splits if_splits)

lemma take_pending: "sub_take sub = (Some p, sub') \<Longrightarrow> sub_pending sub = Some p \<and> sub_pending sub' = None"
  by (auto simp: sub_take_def chan_receive_def sub_pending_def split: mailbox.splits option.splits if_splits)

lemma identity_heap:
  assumes "identity_inv \<sigma>" and "heap (sysStore \<sigma>) w = Some sub"
    and "sub_pending sub' = sub_pending sub \<or> sub_pending sub' = None \<or>
      (\<exists>p. sub_pending sub' = Some p \<and> owner \<sigma> w = Some (snapshot_key (pSnapshot p)))"
    and "heap st = (heap (sysStore \<sigma>))(w \<mapsto> sub')" and "nextSub st = nextSub (sysStore \<sigma>)" and "set fl \<subseteq> set (inflight \<sigma>)"
  shows "identity_inv (\<sigma>\<lparr>sysStore := st, inflight := fl, closing := cl\<rparr>)"
  using assms by (auto simp: identity_inv_def)

text \<open>What a registration commits: a new mailbox, and deliveries of the Cluster's own publication.\<close>

lemma register_addressed:
  assumes "keyed s" and r: "register_commit H now1 now2 key req mb s = Some (w, n, initial, demand, st)"
  shows "w = nextSub s" "addressed s n" "\<And>p. initial = Some p \<Longrightarrow> snapshot_key (pSnapshot p) = key"
    "heap st = (heap s)(w \<mapsto> new_subscription mb)" "nextSub st = Suc w"
proof -
  from r obtain s1 where rd: "readPublication H now1 key (s\<lparr>heap := (heap s)(nextSub s \<mapsto> new_subscription mb), nextSub := nextSub s + 1\<rparr>) = (initial, n, s1)"
    and st: "heap st = (heap s)(w \<mapsto> new_subscription mb)" "w = nextSub s" "nextSub st = Suc (nextSub s)"
    by (elim register_commitE) metis
  have ad: "addressed (s\<lparr>heap := h, nextSub := m\<rparr>) n \<longleftrightarrow> addressed s n" for h m by (simp add: addressed_def watchers_of_def)
  have "keyed (s\<lparr>heap := h, nextSub := m\<rparr>)" for h m using assms(1) by (simp add: keyed_def)
  note read = read_addressed [OF this rd]
  show "addressed s n" using read(1) ad by simp
  show "snapshot_key (pSnapshot p) = key" if "initial = Some p" for p by (rule read(2) [OF that])
qed (use r in \<open>(elim register_commitE; simp)+\<close>)

text \<open>A new owner: what it is sent and what the others have is addressed as before.\<close>

lemma identity_owner:
  assumes id: "identity_inv \<sigma>" and w: "w = nextSub (sysStore \<sigma>)" and st: "nextSub st = Suc w" "heap st = (heap (sysStore \<sigma>))(w \<mapsto> sub)"
    and sub: "sub_pending sub = None" and fl: "\<forall>(p, v) \<in> set new. v = w \<and> snapshot_key (pSnapshot p) = key \<or> owner \<sigma> v = Some (snapshot_key (pSnapshot p))"
  shows "identity_inv (\<sigma>\<lparr>sysStore := st, inflight := inflight \<sigma> @ new, owner := (owner \<sigma>)(w \<mapsto> key)\<rparr>)"
proof -
  have old: "v < w" if "owner \<sigma> v = Some k" for v k using id that by (simp add: identity_inv_def w)
  then have upd: "((owner \<sigma>)(w \<mapsto> key)) v = Some k" if "owner \<sigma> v = Some k" for v k using that by force
  have "((owner \<sigma>)(w \<mapsto> key)) v = Some (snapshot_key (pSnapshot p))" if "(p, v) \<in> set (inflight \<sigma> @ new)" for p v
  proof -
    have "v = w \<and> snapshot_key (pSnapshot p) = key \<or> owner \<sigma> v = Some (snapshot_key (pSnapshot p))"
      using that id fl by (auto simp: identity_inv_def)
    then show ?thesis using upd [of v] by (metis fun_upd_same)
  qed
  moreover have "((owner \<sigma>)(w \<mapsto> key)) v = Some (snapshot_key (pSnapshot p))" if "p \<in> set (received \<sigma> v)" for p v
    using that id upd by (simp add: identity_inv_def)
  moreover have "((owner \<sigma>)(w \<mapsto> key)) v = Some (snapshot_key (pSnapshot p))" if "heap st v = Some sub'" "sub_pending sub' = Some p" for p v sub'
  proof -
    have "v \<noteq> w" "heap (sysStore \<sigma>) v = Some sub'" using that st(2) sub by (auto split: if_splits)
    then show ?thesis using that(2) id upd unfolding identity_inv_def by blast
  qed
  moreover have "v < nextSub st" if "((owner \<sigma>)(w \<mapsto> key)) v = Some k" for v k
    using that old [of v k] st(1) by (auto simp: less_SucI split: if_splits)
  ultimately show ?thesis unfolding identity_inv_def by (intro conjI allI ballI impI) (auto simp del: fun_upd_apply)
qed

lemma identity_register:
  assumes inv: "sys_inv H \<sigma>" and id: "identity_inv \<sigma>" and mb: "mb = Publications make_chan \<or> mb = Snapshots make_chan"
    and r: "register_commit H now1 now2 key req mb (sysStore \<sigma>) = Some (w, n, initial, demand, st)"
  shows "identity_inv ((commit [n, \<lparr>nPublication = initial, nWatchers = [w]\<rparr>] st \<sigma>)\<lparr>owner := (owner \<sigma>)(w \<mapsto> key)\<rparr>)"
proof -
  have si: "store_inv H (sysStore \<sigma>)" and fl: "flight_inv \<sigma>" using inv by (simp_all add: sys_inv_def)
  note reg = register_addressed [OF store_inv_keyed [OF si] r]
  have "sub_pending (new_subscription mb) = None" using mb by (auto simp: new_subscription_def sub_pending_def make_chan_def)
  moreover have "\<forall>(p, v) \<in> set (deliveries n @ deliveries \<lparr>nPublication = initial, nWatchers = [w]\<rparr>).
      v = w \<and> snapshot_key (pSnapshot p) = key \<or> owner \<sigma> v = Some (snapshot_key (pSnapshot p))"
    using reg(2,3) fl by (fastforce simp: addressed_def in_deliveries flight_inv_def)
  ultimately show ?thesis using identity_owner [OF id reg(1,5,4)] by (simp add: commit_def)
qed

lemma identity_deliver:
  assumes id: "identity_inv \<sigma>" and fl: "inflight \<sigma> = xs @ (p, w) # ys"
  shows "identity_inv (\<sigma>\<lparr>sysStore := deliver_one p w (sysStore \<sigma>), inflight := xs @ ys\<rparr>)"
proof (cases "heap (sysStore \<sigma>) w")
  case None
  then show ?thesis using assms by (auto simp: identity_inv_def deliver_one_def)
next
  case (Some sub)
  have own: "owner \<sigma> w = Some (snapshot_key (pSnapshot p))" using assms by (auto simp: identity_inv_def)
  show ?thesis
  proof (cases "subscription_deliver p sub")
    case None
    then show ?thesis using assms Some by (auto simp: identity_inv_def deliver_one_def)
  next
    case d: (Some res)
    obtain sub' c where res: "res = (sub', c)" by fastforce
    have "sub_pending sub' = sub_pending sub \<or> sub_pending sub' = None \<or>
        (\<exists>p. sub_pending sub' = Some p \<and> owner \<sigma> w = Some (snapshot_key (pSnapshot p)))"
      using deliver_pending [of p sub sub' c] d res own by auto
    from identity_heap [OF id Some this, of "deliver_one p w (sysStore \<sigma>)" "xs @ ys" "closing \<sigma>"] show ?thesis
      using fl Some d res by (simp add: deliver_one_def subset_iff)
  qed
qed

lemma identity_cancel:
  assumes "identity_inv \<sigma>" and "cancel_begin key w (sysStore \<sigma>) = (b, st)"
  shows "identity_inv (\<sigma>\<lparr>sysStore := st, closing := cl\<rparr>)"
proof (cases b)
  case True
  then obtain sub where sub: "heap (sysStore \<sigma>) w = Some sub"
    and st: "st = unregister key w ((sysStore \<sigma>)\<lparr>heap := (heap (sysStore \<sigma>))(w \<mapsto> sub\<lparr>subOnce := True\<rparr>)\<rparr>)"
    using assms(2) by (auto simp: cancel_begin_def split: option.splits if_splits)
  show ?thesis using identity_heap [OF assms(1) sub, of "sub\<lparr>subOnce := True\<rparr>" st "inflight \<sigma>" cl]
    by (simp add: st frame_simps unregister_def Let_def sub_pending_def)
next
  case False
  then have "st = sysStore \<sigma>" using assms(2) by (auto simp: cancel_begin_def split: option.splits if_splits)
  then show ?thesis using assms(1) unfolding identity_inv_def by auto
qed

lemma identity_close:
  assumes "identity_inv \<sigma>"
  shows "identity_inv (\<sigma>\<lparr>sysStore := close_watcher w (sysStore \<sigma>), closing := cl\<rparr>)"
proof (cases "heap (sysStore \<sigma>) w")
  case None
  then show ?thesis using assms by (auto simp: identity_inv_def close_watcher_def)
next
  case (Some sub)
  then show ?thesis using assms close_pending [of sub] by (auto simp: identity_inv_def close_watcher_def split: option.splits)
qed

lemma identity_step:
  assumes step: "sys_step H \<sigma> \<sigma>'" and inv: "sys_inv H \<sigma>" and id: "identity_inv \<sigma>"
  shows "identity_inv \<sigma>'"
proof -
  have si: "store_inv H (sysStore \<sigma>)" and fl: "flight_inv \<sigma>" using inv by (simp_all add: sys_inv_def)
  have k: "keyed (sysStore \<sigma>)" by (rule store_inv_keyed [OF si])
  note commit = identity_commit [OF id fl]
  from step show ?thesis
  proof cases
    case (put now1 now2 snap changed n st)
    then show ?thesis using put_announced [OF put(2)] put_addressed by (auto intro!: commit simp: same_subs_def)
  next
    case (delete key n st)
    then show ?thesis using delete_announced [OF delete(2)] delete_addressed [OF k] by (auto intro!: commit simp: same_subs_def)
  next
    case (read now key p n st)
    then show ?thesis using read_announced [OF read(2)] read_addressed(1) [OF k] by (auto intro!: commit simp: same_subs_def)
  next
    case (expire now order ns st)
    obtain u where f: "fold (expire_key H now) order ([], sysStore \<sigma>) = (ns, u)"
      using expire(2) by (auto simp: ExpireDeferred_def split: prod.splits)
    show ?thesis using expire fold_expire_addressed [OF k f] expire_announced [OF expire(2)]
      by (auto intro!: commit simp: same_subs_def)
  next
    case (register now1 now2 key req mb w n initial demand st)
    then show ?thesis using identity_register [OF inv id register(3,2)] by simp
  next
    case (cancel_again w key st)
    then show ?thesis using identity_cancel [OF id cancel_again(3), of "closing \<sigma>"] by simp
  next
    case (receive w sub p sub')
    then show ?thesis using id take_pending [OF receive(3)] by (auto simp: identity_inv_def)
  qed (auto intro!: commit identity_deliver [OF id] identity_cancel [OF id] identity_close [OF id]
      simp: RequestRefresh_def hasDemand_def ActiveClusters_def prune_unary_def SetDemandHandler_def Let_def split: if_splits)
qed

lemma identity_reach: "sys_reach H \<sigma> \<Longrightarrow> identity_inv \<sigma>"
proof (induction rule: sys_reach.induct)
  case (start rand st)
  then show ?case by (auto simp: identity_inv_def init_sys_def NewStore_def split: option.splits)
qed (use identity_step sys_reach_inv in blast)

section \<open>A stream\<close>

text \<open>
  The local state of the handler: the publication it has received and not yet decided about, \<open>lastSent\<close>,
  and what it has sent, newest first, each with the time of its last freshness check.
\<close>

record stream =
  stGot :: "publication option"
  stLast :: nat
  stSent :: "(time \<times> publication) list"

definition new_stream :: stream where
  "new_stream = \<lparr>stGot = None, stLast = 0, stSent = []\<rparr>"

text \<open>
  The time that vouches for a publication that is sent: the clock of the store's read when it was read
  again, that of the loop's own check otherwise.
\<close>

definition checked_at :: "time \<Rightarrow> time \<Rightarrow> publication \<Rightarrow> time" where
  "checked_at now1 now2 p = (if sReason (pSnapshot p) \<noteq> ''deleted'' \<and> \<not> now1 < sValidUntil (pSnapshot p) then now2 else now1)"

inductive stream_reach :: "(v1_Snapshot \<Rightarrow> 'd) \<Rightarrow> clusterKey \<Rightarrow> nat \<Rightarrow> 'd sys \<times> stream \<Rightarrow> bool" for H key w where
  subscribe: "sys_reach H \<sigma> \<Longrightarrow> register_commit H now1 now2 key True (Publications make_chan) (sysStore \<sigma>) = Some (w, n, initial, demand, st) \<Longrightarrow>
    stream_reach H key w ((commit [n, \<lparr>nPublication = initial, nWatchers = [w]\<rparr>] st \<sigma>)\<lparr>owner := (owner \<sigma>)(w \<mapsto> key)\<rparr>, new_stream)"
| other: "stream_reach H key w (\<sigma>, s) \<Longrightarrow> sys_step H \<sigma> \<sigma>' \<Longrightarrow> stream_reach H key w (\<sigma>', s)"
| take: "stream_reach H key w (\<sigma>, s) \<Longrightarrow> stGot s = None \<Longrightarrow> heap (sysStore \<sigma>) w = Some sub \<Longrightarrow> sub_take sub = (Some p, sub') \<Longrightarrow>
    stream_reach H key w (\<sigma>\<lparr>sysStore := (sysStore \<sigma>)\<lparr>heap := (heap (sysStore \<sigma>))(w \<mapsto> sub')\<rparr>,
      received := (received \<sigma>)(w := p # received \<sigma> w)\<rparr>, s\<lparr>stGot := Some p\<rparr>)"
| skip: "stream_reach H key w (\<sigma>, s) \<Longrightarrow> stGot s = Some p \<Longrightarrow>
    watch_iteration H now1 now2 p (stLast s) (sysStore \<sigma>) = (None, n, st) \<Longrightarrow>
    stream_reach H key w (commit [n] st \<sigma>, s\<lparr>stGot := None\<rparr>)"
| send: "stream_reach H key w (\<sigma>, s) \<Longrightarrow> stGot s = Some p \<Longrightarrow>
    watch_iteration H now1 now2 p (stLast s) (sysStore \<sigma>) = (Some q, n, st) \<Longrightarrow>
    stream_reach H key w (commit [n] st \<sigma>, \<lparr>stGot = None, stLast = pOrder q, stSent = (checked_at now1 now2 p, q) # stSent s\<rparr>)"

lemma watch_iteration_commit:
  assumes "watch_iteration H now1 now2 p l (sysStore \<sigma>) = (out, n, st)"
  shows "commit [n] st \<sigma> = \<sigma> \<or> (\<exists>r. readPublication H now2 (snapshot_key (pSnapshot p)) (sysStore \<sigma>) = (r, n, st))"
proof (cases "sReason (pSnapshot p) \<noteq> ''deleted'' \<and> \<not> now1 < sValidUntil (pSnapshot p)")
  case True
  then show ?thesis using assms by (auto simp: watch_iteration_def Let_def split: prod.splits option.splits if_splits)
next
  case False
  then have "n = no_notification" "st = sysStore \<sigma>" using assms by (auto simp: watch_iteration_def Let_def split: if_splits)
  then show ?thesis by (simp add: commit_def deliveries_def no_notification_def)
qed

lemma watch_iteration_sent:
  assumes "watch_iteration H now1 now2 p l s = (Some q, n, st)" and "store_inv H s"
  shows "l < pOrder q" "snapshot_key (pSnapshot q) = snapshot_key (pSnapshot p)"
    "withdrawn (pSnapshot q) \<or> sReason (pSnapshot q) = ''deleted'' \<or> checked_at now1 now2 p < sValidUntil (pSnapshot q)"
proof -
  show "l < pOrder q" using assms(1) by (auto simp: watch_iteration_def Let_def split: if_splits option.splits prod.splits)
  have "snapshot_key (pSnapshot q) = snapshot_key (pSnapshot p) \<and>
    (withdrawn (pSnapshot q) \<or> sReason (pSnapshot q) = ''deleted'' \<or> checked_at now1 now2 p < sValidUntil (pSnapshot q))"
  proof (cases "sReason (pSnapshot p) \<noteq> ''deleted'' \<and> \<not> now1 < sValidUntil (pSnapshot p)")
    case True
    then have rd: "readPublication H now2 (snapshot_key (pSnapshot p)) s = (Some q, n, st)"
      using assms(1) by (auto simp: watch_iteration_def Let_def split: if_splits option.splits prod.splits)
    show ?thesis
      using read_addressed(2) [OF store_inv_keyed [OF assms(2)] rd] readPublication_fresh(1) [OF assms(2) rd] True
      by (auto simp: checked_at_def)
  next
    case False
    then have "q = p" using assms(1) by (auto simp: watch_iteration_def Let_def split: if_splits)
    then show ?thesis using False by (auto simp: checked_at_def)
  qed
  then show "snapshot_key (pSnapshot q) = snapshot_key (pSnapshot p)"
    "withdrawn (pSnapshot q) \<or> sReason (pSnapshot q) = ''deleted'' \<or> checked_at now1 now2 p < sValidUntil (pSnapshot q)"
    by simp_all
qed

definition stream_ok :: "clusterKey \<Rightarrow> stream \<Rightarrow> bool" where
  "stream_ok key s \<longleftrightarrow> (\<forall>p. stGot s = Some p \<longrightarrow> snapshot_key (pSnapshot p) = key) \<and>
     sorted_wrt (>) (map (pOrder \<circ> snd) (stSent s)) \<and> (\<forall>(t, p)\<in>set (stSent s). pOrder p \<le> stLast s) \<and>
     (\<forall>(t, p)\<in>set (stSent s). snapshot_key (pSnapshot p) = key \<and>
        (withdrawn (pSnapshot p) \<or> sReason (pSnapshot p) = ''deleted'' \<or> t < sValidUntil (pSnapshot p)))"

lemma sys_step_owner:
  assumes "sys_step H \<sigma> \<sigma>'" and "sys_inv H \<sigma>" and "identity_inv \<sigma>" and "owner \<sigma> w = Some key"
  shows "owner \<sigma>' w = Some key"
  using assms(1)
proof cases
  case (register now1 now2 k req mb v n initial demand st)
  have "store_inv H (sysStore \<sigma>)" using assms(2) by (simp add: sys_inv_def)
  from register_commit_inv(4) [OF this register(3,2)] have "v = nextSub (sysStore \<sigma>)" .
  moreover have "w < nextSub (sysStore \<sigma>)" using assms(3,4) by (simp add: identity_inv_def)
  ultimately show ?thesis using register(1) assms(4) by simp
qed (use assms(4) in simp_all)

lemma iteration_reach:
  assumes "sys_reach H \<sigma>" and "watch_iteration H now1 now2 p l (sysStore \<sigma>) = (out, n, st)"
  shows "sys_reach H (commit [n] st \<sigma>)"
  using watch_iteration_commit [OF assms(2)] assms(1) by (auto intro: sys_reach.step sys_step.read)

lemma stream_reach_inv:
  "stream_reach H key w \<sigma>s \<Longrightarrow> sys_reach H (fst \<sigma>s) \<and> owner (fst \<sigma>s) w = Some key \<and> stream_ok key (snd \<sigma>s)"
proof (induction rule: stream_reach.induct)
  case (subscribe \<sigma> now1 now2 n initial demand st)
  from sys_reach.step [OF subscribe(1) sys_step.register [OF subscribe(2)]] show ?case
    by (simp add: stream_ok_def new_stream_def)
next
  case (other \<sigma> s \<sigma>')
  then show ?case using sys_step_owner [OF other(2) sys_reach_inv identity_reach] by (auto intro: sys_reach.step)
next
  case (take \<sigma> s sub p sub')
  have "snapshot_key (pSnapshot p) = key"
    using take identity_reach [of H \<sigma>] take_pending [OF take(4)] by (auto simp: identity_inv_def)
  moreover have "sys_reach H (\<sigma>\<lparr>sysStore := (sysStore \<sigma>)\<lparr>heap := (heap (sysStore \<sigma>))(w \<mapsto> sub')\<rparr>, received := (received \<sigma>)(w := p # received \<sigma> w)\<rparr>)"
    using take(5) sys_reach.step [OF _ sys_step.receive [OF take(3,4)]] by simp
  ultimately show ?case using take(5) by (simp add: stream_ok_def)
next
  case (skip \<sigma> s p now1 now2 n st)
  then show ?case using iteration_reach [OF _ skip(3)] by (simp add: stream_ok_def)
next
  case (send \<sigma> s p now1 now2 q n st)
  have inv: "store_inv H (sysStore \<sigma>)" using sys_reach_inv send(4) by (auto simp: sys_inv_def)
  note sent = watch_iteration_sent [OF send(3) inv]
  have "snapshot_key (pSnapshot p) = key" using send(2,4) by (simp add: stream_ok_def)
  then show ?case using send(4) iteration_reach [OF _ send(3)] sent by (force simp: stream_ok_def)
qed

text \<open>
  C10: what a watch stream sends. In every execution, whatever the schedule of the store's commits and
  deliveries and however slow the client is, the publications a stream sends have strictly increasing
  order, each is a snapshot of the cluster that was asked for, and each that offers a route was
  checked to be within its validity just before it was sent, unless it is the notice of a deletion.
\<close>

theorem watch_stream_safe:
  assumes "stream_reach H key w (\<sigma>, s)"
  shows "sorted_wrt (<) (map (pOrder \<circ> snd) (rev (stSent s))) \<and>
    (\<forall>(t, p)\<in>set (stSent s). snapshot_key (pSnapshot p) = key \<and>
       (withdrawn (pSnapshot p) \<or> sReason (pSnapshot p) = ''deleted'' \<or> t < sValidUntil (pSnapshot p)))"
proof -
  have ok: "stream_ok key s" using stream_reach_inv [OF assms] by simp
  then have "sorted_wrt (>) (map (pOrder \<circ> snd) (stSent s))" by (simp add: stream_ok_def)
  then have "sorted_wrt (<) (rev (map (pOrder \<circ> snd) (stSent s)))" by (simp add: sorted_wrt_rev)
  with ok show ?thesis by (simp add: stream_ok_def rev_map)
qed

section \<open>A concrete stream\<close>

text \<open>
  The sample store with one published snapshot; the stream subscribes, its mailbox is filled, the
  snapshot expires before the stream looks at it, and what the stream sends is withdrawn.
\<close>

definition published_sys :: "(bool \<times> string \<times> (string \<times> bool) list) sys" where
  "published_sys = do_put sample_H 100 (sample_snapshot 100 ''p1'') sample_start"

definition watched_sys :: "(bool \<times> string \<times> (string \<times> bool) list) sys" where
  "watched_sys = do_deliver (do_watch sample_H 101 sample_key published_sys)"

definition taken_sys :: "(bool \<times> string \<times> (string \<times> bool) list) sys" where
  "taken_sys = do_receive 0 watched_sys"

definition got :: publication where
  "got = the (sub_pending (the (heap (sysStore watched_sys) 0)))"

definition late_iteration :: "publication option \<times> notification \<times> (bool \<times> string \<times> (string \<times> bool) list) store" where
  "late_iteration = watch_iteration sample_H 120 121 got 0 (sysStore taken_sys)"

lemma watched_reach: "stream_reach sample_H sample_key 0 (watched_sys, new_stream)"
proof -
  have p: "sys_reach sample_H published_sys" unfolding published_sys_def by (intro do_reach sample_start_reach)
  let ?reg = "register_commit sample_H 101 101 sample_key True (Publications make_chan) (sysStore published_sys)"
  have "?reg \<noteq> None" "fst (the ?reg) = 0" by code_simp+
  then obtain n initial demand st where reg: "?reg = Some (0, n, initial, demand, st)" by (cases "the ?reg") auto
  let ?\<sigma> = "do_watch sample_H 101 sample_key published_sys"
  have w: "stream_reach sample_H sample_key 0 (?\<sigma>, new_stream)"
    using stream_reach.subscribe [OF p reg] by (simp add: do_watch_def reg)
  have "inflight ?\<sigma> \<noteq> []" by code_simp
  then obtain q v rest where fl: "inflight ?\<sigma> = [] @ (q, v) # rest" by (metis append_Nil neq_Nil_conv surj_pair)
  from stream_reach.other [OF w sys_step.deliver [OF fl]] show ?thesis
    by (simp add: watched_sys_def do_deliver_def fl [simplified])
qed

lemma taken_reach: "stream_reach sample_H sample_key 0 (taken_sys, new_stream\<lparr>stGot := Some got\<rparr>)"
proof -
  have "heap (sysStore watched_sys) 0 \<noteq> None" by code_simp
  then obtain sub where sub: "heap (sysStore watched_sys) 0 = Some sub" by blast
  have "fst (sub_take (the (heap (sysStore watched_sys) 0))) \<noteq> None" by code_simp
  then obtain p sub' where t: "sub_take sub = (Some p, sub')" by (cases "sub_take sub") (auto simp: sub)
  have "got = p" using take_pending [OF t] by (simp add: got_def sub)
  with stream_reach.take [OF watched_reach _ sub t] show ?thesis
    by (simp add: new_stream_def taken_sys_def do_receive_def sub t)
qed

theorem watch_stream_safe_witness:
  "\<exists>q n st. late_iteration = (Some q, n, st) \<and> sAvailable (pSnapshot got) \<and> withdrawn (pSnapshot q) \<and> snapshot_key (pSnapshot q) = sample_key"
proof -
  have "fst late_iteration \<noteq> None" by code_simp
  then obtain q n st where it: "late_iteration = (Some q, n, st)" by (metis not_None_eq prod.collapse)
  have "\<not> sAvailable (pSnapshot (the (fst late_iteration)))" "sAvailable (pSnapshot got)" "sPrimaryID (pSnapshot (the (fst late_iteration))) = []"
    "map mReady (sMembers (pSnapshot (the (fst late_iteration)))) = [False]" by code_simp+
  then have "withdrawn (pSnapshot q)" "sAvailable (pSnapshot got)" by (auto simp: it withdrawn_def)
  moreover have "snapshot_key (pSnapshot q) = sample_key"
    using watch_stream_safe [OF stream_reach.send [OF taken_reach, of got 120 121 q n st]] it
    by (simp add: new_stream_def late_iteration_def)
  ultimately show ?thesis using it by blast
qed

end
