(* ===== verification/Client_View.thy ===== *)
theory Client_View
  imports Observer_System Watch_Stream
begin

text \<open>
  What clients see of the observer: the publications on their way from a commit through a mailbox to a stream. In
  the composed system of observer and store each of them is withdrawn or carries a route that was verified, also those that
  the store has replaced since.
\<close>

section \<open>Publications in transit\<close>

definition in_transit :: "'d sys \<Rightarrow> publication set" where
  "in_transit y = fst ` set (inflight y) \<union> {p. \<exists>w sub. heap (sysStore y) w = Some sub \<and> sub_pending sub = Some p} \<union> (\<Union>w. set (received y w))"

definition published_by :: "notification list \<Rightarrow> publication set" where
  "published_by ns = {p. \<exists>n \<in> set ns. nPublication n = Some p}"

text \<open>What a store holds: the publications of its records.\<close>

definition held :: "'d store \<Rightarrow> publication set" where
  "held st = {rPublication r | key r. records st key = Some r}"

lemma heldI: "records st key = Some r \<Longrightarrow> p = rPublication r \<Longrightarrow> p \<in> held st"
  by (auto simp: held_def)

lemma transitI:
  "(p, w) \<in> set (inflight y) \<Longrightarrow> p \<in> in_transit y"
  "heap (sysStore y) w = Some sub \<Longrightarrow> sub_pending sub = Some p \<Longrightarrow> p \<in> in_transit y"
  "p \<in> set (received y w) \<Longrightarrow> p \<in> in_transit y"
  by (force simp: in_transit_def)+

lemma transitE:
  assumes "p \<in> in_transit y"
  obtains (flying) w where "(p, w) \<in> set (inflight y)"
    | (pending) w sub where "heap (sysStore y) w = Some sub" "sub_pending sub = Some p"
    | (got) w where "p \<in> set (received y w)"
  using assms by (force simp: in_transit_def)

lemma transit_commit:
  assumes "heap st = heap (sysStore y)"
  shows "in_transit (commit ns st y) \<subseteq> in_transit y \<union> published_by ns"
  using assms by (fastforce simp: in_transit_def published_by_def commit_def in_deliveries)

lemma transit_heap:
  assumes "heap (sysStore y) w = Some sub" and "sub_pending sub' \<in> {sub_pending sub, None} \<union> Some ` in_transit y"
    and "heap st = (heap (sysStore y))(w \<mapsto> sub')" and "set fl \<subseteq> set (inflight y)"
  shows "in_transit (y\<lparr>sysStore := st, inflight := fl, closing := cl\<rparr>) \<subseteq> in_transit y"
proof
  fix p
  assume "p \<in> in_transit (y\<lparr>sysStore := st, inflight := fl, closing := cl\<rparr>)"
  then show "p \<in> in_transit y"
  proof (cases rule: transitE)
    case (flying v)
    then show ?thesis using assms(4) transitI(1) [of p v y] by auto
  next
    case (pending v s)
    then show ?thesis using assms(1-3) transitI(2) by (cases "v = w") auto
  next
    case (got v)
    then show ?thesis using transitI(3) by simp
  qed
qed

text \<open>A publication that enters is withdrawn or held by the store.\<close>

definition fresh_ok :: "notification list \<Rightarrow> 'd store \<Rightarrow> bool" where
  "fresh_ok ns st \<longleftrightarrow> (\<forall>p \<in> published_by ns. withdrawn (pSnapshot p) \<or> p \<in> held st)"

lemma fresh_ok_empty [simp]: "fresh_ok [] st"
  by (simp add: fresh_ok_def published_by_def)

lemma fresh_ok_put: "PutDeferred H now1 now2 snap s = (changed, n, t) \<Longrightarrow> fresh_ok [n] t"
  by (auto simp: PutDeferred_eq fresh_ok_def published_by_def intro!: disjI2 heldI [of _ "snapshot_key snap"])

lemma fresh_ok_delete: "DeleteDeferred key s = (n, t) \<Longrightarrow> fresh_ok [n] t"
  by (auto simp: DeleteDeferred_eq fresh_ok_def published_by_def no_notification_def tombstone_def withdrawn_def split: option.splits)

lemma expireRecord_withdrawn:
  "expireRecord H key r now s = (r', n, t) \<Longrightarrow> nPublication n = Some p \<Longrightarrow> withdrawn (pSnapshot p)"
  by (auto simp: expireRecord_eq expired_record_def no_notification_def withdrawn_def invalidate_def split: if_splits)

lemma read_withdrawn:
  "readPublication H now key s = (r, n, t) \<Longrightarrow> nPublication n = Some p \<Longrightarrow> withdrawn (pSnapshot p)"
  using expireRecord_withdrawn by (auto simp: readPublication_def no_notification_def split: option.splits prod.splits)

lemma fresh_ok_read: "readPublication H now key s = (r, n, t) \<Longrightarrow> fresh_ok [n] t'"
  using read_withdrawn by (auto simp: fresh_ok_def published_by_def)

lemma fresh_ok_expire:
  assumes "ExpireDeferred H now order s = (ns, t)"
  shows "fresh_ok ns t'"
proof -
  have "\<forall>p \<in> published_by ms'. withdrawn (pSnapshot p)"
    if "fold (expire_key H now) order (ms, u) = (ms', v)" and "\<forall>p \<in> published_by ms. withdrawn (pSnapshot p)" for ms u ms' v
    using that
  proof (induction order arbitrary: ms u)
    case (Cons key order)
    obtain ms1 u1 where e: "expire_key H now key (ms, u) = (ms1, u1)" by fastforce
    have "\<forall>p \<in> published_by ms1. withdrawn (pSnapshot p)"
      using e Cons.prems(2) expireRecord_withdrawn
      by (fastforce simp: expire_key_def published_by_def split: option.splits prod.splits if_splits)
    then show ?case using Cons.IH [of ms1 u1] Cons.prems(1) e by simp
  qed simp
  then show ?thesis using assms by (auto simp: ExpireDeferred_def fresh_ok_def published_by_def split: prod.splits)
qed

lemma read_held: "readPublication H now key s = (Some p, n, t) \<Longrightarrow> p \<in> held t"
  by (auto simp: readPublication_def expireRecord_eq intro!: heldI [of _ key] split: option.splits if_splits prod.splits)

lemma register_fresh:
  assumes "register_commit H now1 now2 key req mb s = Some (w, n, initial, demand, st)"
  shows "fresh_ok [n, \<lparr>nPublication = initial, nWatchers = [w]\<rparr>] st" "no_new_route s st"
proof -
  from assms obtain s1 where rd: "readPublication H now1 key (s\<lparr>heap := (heap s)(nextSub s \<mapsto> new_subscription mb), nextSub := nextSub s + 1\<rparr>) = (initial, n, s1)"
    and st: "records st = records s1" by (elim register_commitE) metis
  have "p \<in> held st" if "initial = Some p" for p using read_held rd that st by (fastforce simp: held_def)
  then show "fresh_ok [n, \<lparr>nPublication = initial, nWatchers = [w]\<rparr>] st" using read_withdrawn [OF rd] by (auto simp: fresh_ok_def published_by_def)
  show "no_new_route s st" using read_no_new_route [OF rd] st by (simp add: no_new_route_def)
qed

lemma transit_enters:
  assumes "heap st = heap (sysStore y)" and "fresh_ok ns st" and "p \<in> in_transit (commit ns st y)"
  shows "p \<in> in_transit y \<or> withdrawn (pSnapshot p) \<or> p \<in> held st"
  using transit_commit [OF assms(1), of ns] assms(2,3) unfolding fresh_ok_def by blast

lemma transit_register:
  assumes "keyed (sysStore y)" and "mb = Publications make_chan \<or> mb = Snapshots make_chan"
    and r: "register_commit H now1 now2 key req mb (sysStore y) = Some (w, n, initial, demand, st)"
    and "p \<in> in_transit ((commit [n, \<lparr>nPublication = initial, nWatchers = [w]\<rparr>] st y)\<lparr>owner := f\<rparr>)"
  shows "p \<in> in_transit y \<or> withdrawn (pSnapshot p) \<or> p \<in> held st"
proof -
  have "sub_pending (new_subscription mb) = None" using assms(2) by (auto simp: new_subscription_def sub_pending_def make_chan_def)
  then have "p \<in> in_transit y \<or> p \<in> published_by [n, \<lparr>nPublication = initial, nWatchers = [w]\<rparr>]"
    using assms(4) register_addressed(4) [OF assms(1) r]
    by (auto simp: in_transit_def published_by_def commit_def in_deliveries split: if_splits)
  then show ?thesis using register_fresh(1) [OF r] unfolding fresh_ok_def by blast
qed

lemma transit_deliver:
  assumes "inflight y = xs @ (p, w) # ys"
  shows "in_transit (y\<lparr>sysStore := deliver_one p w (sysStore y), inflight := xs @ ys\<rparr>) \<subseteq> in_transit y"
proof (cases "heap (sysStore y) w")
  case None
  then show ?thesis using assms by (auto simp: in_transit_def deliver_one_def)
next
  case (Some sub)
  show ?thesis
  proof (cases "subscription_deliver p sub")
    case None
    then show ?thesis using assms Some by (auto simp: in_transit_def deliver_one_def)
  next
    case d: (Some res)
    obtain sub' c where res: "res = (sub', c)" by fastforce
    have "p \<in> in_transit y" using assms by (force simp: in_transit_def)
    then have "sub_pending sub' \<in> {sub_pending sub, None} \<union> Some ` in_transit y" using deliver_pending [of p sub sub' c] d res by auto
    from transit_heap [OF Some this, of "deliver_one p w (sysStore y)" "xs @ ys" "closing y"] show ?thesis
      using assms Some d res by (simp add: deliver_one_def subset_iff)
  qed
qed

lemma transit_cancel:
  assumes "cancel_begin key w (sysStore y) = (b, st)"
  shows "in_transit (y\<lparr>sysStore := st, closing := cl\<rparr>) \<subseteq> in_transit y"
proof (cases b)
  case True
  then obtain sub where sub: "heap (sysStore y) w = Some sub"
    and st: "st = unregister key w ((sysStore y)\<lparr>heap := (heap (sysStore y))(w \<mapsto> sub\<lparr>subOnce := True\<rparr>)\<rparr>)"
    using assms by (auto simp: cancel_begin_def split: option.splits if_splits)
  show ?thesis using transit_heap [OF sub, of "sub\<lparr>subOnce := True\<rparr>" st "inflight y" cl]
    by (simp add: st frame_simps unregister_def Let_def sub_pending_def)
next
  case False
  then have "st = sysStore y" using assms by (auto simp: cancel_begin_def split: option.splits if_splits)
  then show ?thesis by (auto simp: in_transit_def)
qed

lemma transit_close: "in_transit (y\<lparr>sysStore := close_watcher w (sysStore y), closing := cl\<rparr>) \<subseteq> in_transit y"
  using close_pending by (fastforce simp: in_transit_def close_watcher_def split: option.splits if_splits)

lemma transit_quiet:
  "announced (sysStore y) [] st \<and> same_subs (sysStore y) st \<Longrightarrow> p \<in> in_transit (commit [] st y) \<Longrightarrow> p \<in> in_transit y"
  using transit_commit [of st y "[]"] by (auto simp: same_subs_def published_by_def)

lemma transit_step:
  assumes step: "sys_step H y y'" and "keyed (sysStore y)" and p: "p \<in> in_transit y'"
  shows "p \<in> in_transit y \<or> withdrawn (pSnapshot p) \<or> p \<in> held (sysStore y')"
  using step
proof cases
  case (put now1 now2 snap changed n st)
  then show ?thesis using transit_enters [OF _ fresh_ok_put [OF put(2)]] put_announced [OF put(2)] p by (simp add: same_subs_def)
next
  case (delete key n st)
  then show ?thesis using transit_enters [OF _ fresh_ok_delete [OF delete(2)]] delete_announced [OF delete(2)] p by (simp add: same_subs_def)
next
  case (read now key q n st)
  then show ?thesis using transit_enters [OF _ fresh_ok_read [OF read(2), of st]] read_announced [OF read(2)] p by (simp add: same_subs_def)
next
  case (expire now order ns st)
  then show ?thesis using transit_enters [OF _ fresh_ok_expire [OF expire(2), of st]] expire_announced [OF expire(2)] p by (simp add: same_subs_def)
next
  case (register now1 now2 key req mb w n initial demand st)
  then show ?thesis using transit_register [OF assms(2) register(3,2)] p by simp
next
  case (deliver xs q w ys)
  then show ?thesis using transit_deliver [OF deliver(2)] p by blast
next
  case (cancel_first w key st)
  then show ?thesis using transit_cancel [OF cancel_first(3)] p by blast
next
  case (cancel_again w key st)
  then show ?thesis using transit_cancel [OF cancel_again(3), of "closing y"] p by auto
next
  case (close xs w ys)
  then show ?thesis using transit_close p by blast
next
  case (receive w sub q sub')
  then show ?thesis using take_pending [OF receive(3)] p by (auto simp: in_transit_def split: if_splits)
next
  case (refresh now key ok demand st)
  then show ?thesis using transit_quiet [of y st p] demand_ops_quiet(1) [OF refresh(2)] p by simp
next
  case (demand key now active st)
  then show ?thesis using transit_quiet [of y st p] demand_ops_quiet(2) [OF demand(2)] p by simp
next
  case (active now order refs st)
  then show ?thesis using transit_quiet [of y st p] demand_ops_quiet(3) [OF active(2)] p by simp
next
  case (handler h lease)
  then show ?thesis using transit_quiet [of y "SetDemandHandler h lease (sysStore y)" p] demand_ops_quiet(4) [where s = "sysStore y"] p by simp
qed

section \<open>Under the observer\<close>

definition transit_justified :: "'d oenv \<Rightarrow> 'd sys \<Rightarrow> bool" where
  "transit_justified E y \<longleftrightarrow> (\<forall>p \<in> in_transit y. justified E (pSnapshot p))"

lemma held_justified: "store_justified E st \<Longrightarrow> p \<in> held st \<Longrightarrow> justified E (pSnapshot p)"
  by (auto simp: store_justified_def held_def)

lemma withdrawn_justified: "withdrawn s \<Longrightarrow> justified E s"
  by (simp add: justified_def)

lemma commits_published:
  "commits (digest E) (publish_ok E) st ns st' \<Longrightarrow> store_justified E st \<Longrightarrow>
     (\<forall>p \<in> published_by ns. justified E (pSnapshot p)) \<and> heap st' = heap st"
proof (induction rule: commits.induct)
  case (nothing st)
  then show ?case by (simp add: published_by_def)
next
  case (put st ns st1 snap now1 now2 changed n st2)
  have "store_justified E st2" using commits_justified [OF commits.put [OF put.hyps]] put.prems by blast
  then show ?case using put fresh_ok_put [OF put.hyps(3)] put_announced [OF put.hyps(3)] held_justified withdrawn_justified
    by (fastforce simp: published_by_def fresh_ok_def same_subs_def)
next
  case (delete st ns st1 key n st2)
  have "store_justified E st2" using commits_justified [OF commits.delete [OF delete.hyps]] delete.prems by blast
  then show ?case using delete fresh_ok_delete [OF delete.hyps(2)] delete_announced [OF delete.hyps(2)] held_justified withdrawn_justified
    by (fastforce simp: published_by_def fresh_ok_def same_subs_def)
next
  case (read st ns st1 now key p n st2)
  then show ?case using read_withdrawn [OF read.hyps(2)] read_announced [OF read.hyps(2)] withdrawn_justified
    by (fastforce simp: published_by_def same_subs_def)
next
  case (demand st ns st1 key now b st2)
  then show ?case by (auto simp: hasDemand_def Let_def split: if_splits)
qed

lemma obs_step_transit:
  assumes "obs_step E (s, y) (s', y')" and "obs_reach E (s, y)" and "transit_justified E y"
  shows "transit_justified E y'"
  using assms(1)
proof cases
  case (handler x)
  have just: "store_justified E (sysStore y)" using obs_reach_justified [OF assms(2)] by simp
  have "commits (digest E) (publish_ok E) (sysStore y) (oOut s') (oStore s')"
    using obs_run_effect [OF handler(2)] by (simp add: effect_def attach_def)
  from commits_published [OF this just] transit_commit [of "oStore s'" y "oOut s'"] handler(1) assms(3) show ?thesis
    by (auto simp: transit_justified_def)
next
  case client
  have "keyed (sysStore y)" using sys_reach_inv [OF obs_reach_sys [OF assms(2)]] by (auto simp: sys_inv_def intro: store_inv_keyed)
  moreover have "store_justified E (sysStore y')" using obs_reach_justified [OF obs_reach.step [OF assms(2,1)]] by simp
  ultimately show ?thesis using transit_step [OF client(2)] assms(3) held_justified withdrawn_justified
    unfolding transit_justified_def by blast
next
  case environment
  then show ?thesis using assms(3) by simp
qed

lemma obs_reach_transit: "obs_reach E \<sigma> \<Longrightarrow> transit_justified E (snd \<sigma>)"
proof (induction rule: obs_reach.induct)
  case (start rand st s)
  then show ?case by (auto simp: transit_justified_def in_transit_def init_sys_def NewStore_def)
next
  case (step \<sigma> \<sigma>')
  then show ?case using obs_step_transit by (metis prod.collapse)
qed

text \<open>What a stream sends is what it received or what the store holds.\<close>

lemma iteration_justified:
  assumes "obs_reach E (s, y)" and "p \<in> set (received y w)" and "watch_iteration (digest E) now1 now2 p l (sysStore y) = (Some q, n, st)"
  shows "justified E (pSnapshot q)"
proof (cases "sReason (pSnapshot p) \<noteq> ''deleted'' \<and> \<not> now1 < sValidUntil (pSnapshot p)")
  case True
  then have rd: "readPublication (digest E) now2 (snapshot_key (pSnapshot p)) (sysStore y) = (Some q, n, st)"
    using assms(3) by (auto simp: watch_iteration_def Let_def split: if_splits option.splits prod.splits)
  have "store_justified E st" using no_new_route_justified [OF _ read_no_new_route [OF rd]] obs_reach_justified [OF assms(1)] by simp
  then show ?thesis using held_justified read_held [OF rd] by blast
next
  case False
  then have "q = p" using assms(3) by (auto simp: watch_iteration_def Let_def split: if_splits)
  then show ?thesis using obs_reach_transit [OF assms(1)] assms(2) by (auto simp: transit_justified_def in_transit_def)
qed

lemma unary_justified:
  assumes "obs_reach E (s, y)" and "routing D = digest E"
    and "GetTopology D srv vals ns name now1 now2 st0 (sysStore y) = (Inr pb, demand, st1, st)"
  shows "\<exists>p. pb = protobuf (timestamp D) p \<and> justified E (pSnapshot p) \<and> snapshot_key (pSnapshot p) = ClusterKey ns name \<and>
    (withdrawn (pSnapshot p) \<or> now2 < sValidUntil (pSnapshot p))"
proof -
  let ?key = "ClusterKey ns name"
  have inv: "store_inv (digest E) (sysStore y)" using sys_reach_inv [OF obs_reach_sys [OF assms(1)]] by (simp add: sys_inv_def)
  obtain found n s2 where rd: "readPublication (digest E) now2 ?key (sysStore y) = (found, n, s2)" by (metis prod_cases3)
  from assms(3) obtain p where p: "found = Some p" "pb = protobuf (timestamp D) p"
    by (auto simp: GetTopology_def Let_def getPublication_def assms(2) rd split: option.splits if_splits prod.splits)
  have "store_justified E s2" using no_new_route_justified [OF _ read_no_new_route [OF rd]] obs_reach_justified [OF assms(1)] by simp
  then have "justified E (pSnapshot p)" using held_justified read_held rd p(1) by blast
  moreover have "snapshot_key (pSnapshot p) = ?key" using read_addressed(2) [OF store_inv_keyed [OF inv] rd] p(1) by simp
  moreover have "withdrawn (pSnapshot p) \<or> now2 < sValidUntil (pSnapshot p)"
    using readPublication_fresh(1) [OF inv] rd p(1) by blast
  ultimately show ?thesis using p(2) by blast
qed

section \<open>A concrete client\<close>

text \<open>The sample observation is published; a client subscribes and receives the snapshot.\<close>

definition client_system :: "(bool \<times> string \<times> (string \<times> bool) list) sys" where
  "client_system = do_receive 0 (do_deliver (do_watch sample_digest 101 app_key sample_system))"

definition client_got :: publication where
  "client_got = hd (received client_system 0)"

lemma client_steps:
  assumes "obs_reach E (s, y)"
  shows "obs_reach E (s, do_deliver y)" "obs_reach E (s, do_receive w y)" "obs_reach E (s, do_watch (digest E) now key y)"
proof -
  have by_step: "obs_reach E (s, y')" if "sys_step (digest E) y y' \<or> y' = y" and "no_new_route (sysStore y) (sysStore y')" for y'
    using that assms obs_reach.step [OF assms obs_step.client] by blast
  have "sys_step (digest E) y (do_deliver y) \<or> do_deliver y = y"
    using sys_step.deliver [of y "[]" _ _ _ "digest E"] by (auto simp: do_deliver_def split: list.splits prod.splits)
  moreover have "records (sysStore (do_deliver y)) = records (sysStore y)"
    by (auto simp: do_deliver_def deliver_one_def split: list.splits prod.splits option.splits)
  ultimately show "obs_reach E (s, do_deliver y)" using by_step client_no_new_route(2) by blast
  have "sys_step (digest E) y (do_receive w y) \<or> do_receive w y = y" "records (sysStore (do_receive w y)) = records (sysStore y)"
    by (auto simp: do_receive_def split: prod.splits option.splits intro: sys_step.receive)
  then show "obs_reach E (s, do_receive w y)" using by_step client_no_new_route(2) by blast
  show "obs_reach E (s, do_watch (digest E) now key y)"
  proof (cases "register_commit (digest E) now now key True (Publications make_chan) (sysStore y)")
    case (Some res)
    obtain v n initial demand st where res: "res = (v, n, initial, demand, st)" by (metis prod_cases5)
    have reg: "register_commit (digest E) now now key True (Publications make_chan) (sysStore y) = Some (v, n, initial, demand, st)"
      using Some res by simp
    have "sys_step (digest E) y (do_watch (digest E) now key y)" using sys_step.register [OF reg] by (simp add: do_watch_def reg)
    moreover have "no_new_route (sysStore y) st" using register_fresh(2) [OF reg] .
    ultimately show ?thesis using by_step by (simp add: do_watch_def reg)
  qed (use assms in \<open>simp add: do_watch_def\<close>)
qed

lemma client_system_reach: "obs_reach sample_env (sample_published, client_system)"
proof -
  have "digest sample_env = sample_digest" by (simp add: sample_env_def)
  then show ?thesis unfolding client_system_def
    using client_steps(2) [OF client_steps(1) [OF client_steps(3) [OF sample_system_reach]]] by simp
qed

end
