(* ===== verification/Commit_Log.thy ===== *)
theory Commit_Log
  imports Observer_Props
begin

text \<open>
  What happens after a critical section of the observer, \<open>internal/observer/publication.go\<close>: the deferred
  deliveries run first and the log lines after all of them, outside the lock. \<open>started\<close> is the zero
  time (\<open>None\<close>) for metadata events.
\<close>

record topology_changed =
  logNamespace :: string
  logCluster :: string
  logPrimary :: string
  logAvailable :: bool
  logReason :: string
  logMembers :: "string list"
  logDuration :: duration

definition log_member :: "v1_Member \<Rightarrow> string" where
  "log_member m = mName m @ '':'' @ mRole m @ '':'' @ mSyncState m @ '':'' @ (if mReady m then ''true'' else ''false'')"

definition log_primary :: "v1_Snapshot \<Rightarrow> string" where
  "log_primary snapshot = fold (\<lambda>m primary. if mID m = sPrimaryID snapshot then mName m else primary) (sMembers snapshot) []"

definition commit_log :: "bool \<Rightarrow> v1_Snapshot \<Rightarrow> time option \<Rightarrow> time \<Rightarrow> topology_changed option" where
  "commit_log changed snapshot started now =
     (if \<not> changed \<or> sReason snapshot = ''awaiting_observation'' then None
      else Some \<lparr>logNamespace = rNamespace (sCluster snapshot), logCluster = rName (sCluster snapshot), logPrimary = log_primary snapshot,
             logAvailable = sAvailable snapshot, logReason = sReason snapshot, logMembers = map log_member (sMembers snapshot),
             logDuration = (case started of None \<Rightarrow> 0 | Some t \<Rightarrow> now - t)\<rparr>)"

text \<open>\<open>pendingDeliveries\<close>; an effect is a delivery or a line of the log.\<close>

record pendingDeliveries =
  pdNotifications :: "notification list"
  pdLogs :: "topology_changed list"

datatype post_effect = Delivers notification | Logs topology_changed

definition no_pending :: pendingDeliveries where
  "no_pending = \<lparr>pdNotifications = [], pdLogs = []\<rparr>"

definition pending_add :: "notification \<times> topology_changed option \<Rightarrow> pendingDeliveries \<Rightarrow> pendingDeliveries" where
  "pending_add p pending = (case p of (deliver, log) \<Rightarrow>
     pending\<lparr>pdNotifications := pdNotifications pending @ [deliver],
             pdLogs := (case log of None \<Rightarrow> pdLogs pending | Some l \<Rightarrow> pdLogs pending @ [l])\<rparr>)"

definition pending_deliver :: "pendingDeliveries \<Rightarrow> post_effect list" where
  "pending_deliver pending = map Delivers (pdNotifications pending) @ map Logs (pdLogs pending)"

text \<open>
  Every notification of a batch is delivered, in the order of the commits, before anything is logged, so
  that a blocked log holds back no cluster.
\<close>

lemma deliveries_first:
  "pending_deliver (fold pending_add ps no_pending) = map (Delivers \<circ> fst) ps @ map Logs (List.map_filter snd ps)"
proof -
  have "pdNotifications (fold pending_add ps p) = pdNotifications p @ map fst ps \<and> pdLogs (fold pending_add ps p) = pdLogs p @ List.map_filter snd ps" for p
    by (induction ps arbitrary: p) (auto simp: pending_add_def map_filter_simps split: option.split)
  from this [of no_pending] show ?thesis by (simp add: pending_deliver_def no_pending_def)
qed

text \<open>The line names the primary of an available snapshot, and nothing when there is none.\<close>

lemma log_fold_other: "i \<notin> mID ` set ms \<Longrightarrow> fold (\<lambda>m primary. if mID m = i then mName m else primary) ms p = p"
  by (induction ms) auto

lemma log_primary_exact:
  assumes "distinct (map mID (sMembers snapshot))" and "m \<in> set (sMembers snapshot)" and "mID m = sPrimaryID snapshot"
  shows "log_primary snapshot = mName m"
proof -
  obtain xs ys where ms: "sMembers snapshot = xs @ m # ys" using assms(2) by (meson split_list)
  then have "sPrimaryID snapshot \<notin> mID ` set ys" using assms(1,3) by simp
  then show ?thesis using assms(3) by (simp add: log_primary_def ms log_fold_other)
qed

lemma log_primary_none: "sPrimaryID snapshot \<notin> mID ` set (sMembers snapshot) \<Longrightarrow> log_primary snapshot = []"
  by (simp add: log_primary_def log_fold_other)

end
