(* ===== verification/Plugin_Hooks.thy ===== *)
theory Plugin_Hooks
  imports Observer_Props
begin

text \<open>
  The CNPG-I service of \<open>internal/plugin/plugin.go\<close>: its identity and capabilities, and the reconciliation
  hooks, which only schedule an observation of the Cluster named in the payload. The DNS checks of
  \<open>k8s.io/apimachinery\<close> are parameters.
\<close>

section \<open>The service\<close>

text \<open>
  \<open>Notifier\<close> and \<open>Service\<close>: a notifier acts on a state of its own, and may be missing. Registration with the gRPC
  server is the library's.
\<close>

record 's Service =
  svVersion :: string
  svNotifier :: "(string \<Rightarrow> string \<Rightarrow> 's \<Rightarrow> 's) option"

definition Register :: "string \<Rightarrow> (string \<Rightarrow> string \<Rightarrow> 's \<Rightarrow> 's) option \<Rightarrow> 's Service" where
  "Register version notifier = \<lparr>svVersion = version, svNotifier = notifier\<rparr>"

section \<open>Identity\<close>

record plugin_metadata =
  pmName :: string
  pmVersion :: string
  pmDisplayName :: string
  pmDescription :: string
  pmProjectUrl :: string
  pmRepositoryUrl :: string
  pmLicense :: string
  pmLicenseUrl :: string
  pmMaturity :: string

definition GetPluginMetadata :: "'s Service \<Rightarrow> plugin_metadata" where
  "GetPluginMetadata svc = \<lparr>pmName = PluginName, pmVersion = svVersion svc, pmDisplayName = ''CNPG Connect'',
     pmDescription = ''PostgreSQL role and topology discovery for CloudNativePG'',
     pmProjectUrl = ''https://github.com/nakiner/cnpg-connect-plugin'', pmRepositoryUrl = ''https://github.com/nakiner/cnpg-connect-plugin'',
     pmLicense = ''UNLICENSED'', pmLicenseUrl = ''https://github.com/nakiner/cnpg-connect-plugin#license'', pmMaturity = ''alpha''\<rparr>"

datatype capability = TYPE_RECONCILER_HOOKS | KIND_CLUSTER

definition GetPluginCapabilities :: "capability list" where
  "GetPluginCapabilities = [TYPE_RECONCILER_HOOKS]"

definition GetCapabilities :: "capability list" where
  "GetCapabilities = [KIND_CLUSTER]"

definition Probe_ready :: bool where
  "Probe_ready = True"

section \<open>Hooks\<close>

text \<open>The two nested structs of the payload: the namespace and the name, decoded by \<open>json.Unmarshal\<close>.\<close>

record hook_cluster =
  hcNamespace :: string
  hcName :: string

definition set_metadata_field :: "string \<Rightarrow> json \<Rightarrow> hook_cluster \<Rightarrow> hook_cluster option" where
  "set_metadata_field f v c =
     (if f = ''namespace'' then map_option (\<lambda>x. c\<lparr>hcNamespace := x\<rparr>) (decode_string v (hcNamespace c))
      else map_option (\<lambda>x. c\<lparr>hcName := x\<rparr>) (decode_string v (hcName c)))"

definition set_cluster_field :: "string \<Rightarrow> json \<Rightarrow> hook_cluster \<Rightarrow> hook_cluster option" where
  "set_cluster_field f v c = decode_struct set_metadata_field [''namespace'', ''name''] c v"

definition decode_hook :: "golib \<Rightarrow> string \<Rightarrow> hook_cluster option" where
  "decode_hook L payload =
     (case json_document (scan L) payload of
        None \<Rightarrow> None
      | Some v \<Rightarrow> decode_struct set_cluster_field [''metadata''] \<lparr>hcNamespace = [], hcName = []\<rparr> v)"

text \<open>What a hook can ask of the operator.\<close>

datatype hook_behavior = BEHAVIOR_CONTINUE | BEHAVIOR_REQUEUE | BEHAVIOR_TERMINATE

text \<open>\<open>isLabel\<close> and \<open>isSubdomain\<close>: the DNS checks report no problem. \<open>Pre\<close> and \<open>Post\<close> both call \<open>notify\<close>.\<close>

definition plugin_notify :: "golib \<Rightarrow> (string \<Rightarrow> bool) \<Rightarrow> (string \<Rightarrow> bool) \<Rightarrow> 's Service \<Rightarrow> string \<Rightarrow> 's \<Rightarrow> hook_behavior \<times> 's" where
  "plugin_notify L isLabel isSubdomain svc payload s =
     (BEHAVIOR_CONTINUE,
      case svNotifier svc of
        None \<Rightarrow> s
      | Some notify \<Rightarrow>
          (case decode_hook L payload of
             None \<Rightarrow> s
           | Some c \<Rightarrow> if isLabel (hcNamespace c) \<and> isSubdomain (hcName c) then notify (hcNamespace c) (hcName c) s else s))"

definition Pre :: "golib \<Rightarrow> (string \<Rightarrow> bool) \<Rightarrow> (string \<Rightarrow> bool) \<Rightarrow> 's Service \<Rightarrow> string \<Rightarrow> 's \<Rightarrow> hook_behavior \<times> 's" where
  "Pre = plugin_notify"

definition Post :: "golib \<Rightarrow> (string \<Rightarrow> bool) \<Rightarrow> (string \<Rightarrow> bool) \<Rightarrow> 's Service \<Rightarrow> string \<Rightarrow> 's \<Rightarrow> hook_behavior \<times> 's" where
  "Post = plugin_notify"

text \<open>A sequence of hooks, and the keys that their payloads name.\<close>

definition hooks :: "golib \<Rightarrow> (string \<Rightarrow> bool) \<Rightarrow> (string \<Rightarrow> bool) \<Rightarrow> 's Service \<Rightarrow> (bool \<times> string) list \<Rightarrow> 's \<Rightarrow> 's" where
  "hooks L isLabel isSubdomain svc calls =
     fold (\<lambda>(pre, payload) s. snd ((if pre then Pre else Post) L isLabel isSubdomain svc payload s)) calls"

definition hook_keys :: "golib \<Rightarrow> (string \<Rightarrow> bool) \<Rightarrow> (string \<Rightarrow> bool) \<Rightarrow> string \<Rightarrow> clusterKey set" where
  "hook_keys L isLabel isSubdomain payload =
     {ClusterKey (hcNamespace c) (hcName c) | c. decode_hook L payload = Some c \<and> isLabel (hcNamespace c) \<and> isSubdomain (hcName c)}"

section \<open>What a notifier promises\<close>

text \<open>
  The contract of \<open>Notifier\<close>: a notification schedules at most the Cluster it names, and that only if it is eligible
  (the process has a reason to observe it); it makes no Cluster eligible, and leaves what the process has published and is
  doing (\<open>kept\<close>) as it is.
\<close>

locale notifier =
  fixes notify :: "string \<Rightarrow> string \<Rightarrow> 's \<Rightarrow> 's"
    and kept :: "'s \<Rightarrow> 'k"
    and queued :: "'s \<Rightarrow> clusterKey set"
    and eligible :: "'s \<Rightarrow> clusterKey set"
  assumes notify_kept: "kept (notify ns name s) = kept s"
    and notify_eligible: "eligible (notify ns name s) \<subseteq> eligible s"
    and notify_queued: "queued s \<subseteq> queued (notify ns name s)"
      "queued (notify ns name s) \<subseteq> queued s \<union> ({ClusterKey ns name} \<inter> eligible s)"
begin

lemma hook_kept: "kept (snd (plugin_notify L isLabel isSubdomain (Register v (Some notify)) payload s)) = kept s"
  by (simp add: plugin_notify_def Register_def notify_kept split: option.split)

lemma hook_eligible: "eligible (snd (plugin_notify L isLabel isSubdomain (Register v (Some notify)) payload s)) \<subseteq> eligible s"
  using notify_eligible by (simp add: plugin_notify_def Register_def split: option.split)

lemma hook_queued:
  "queued s \<subseteq> queued (snd (plugin_notify L isLabel isSubdomain (Register v (Some notify)) payload s))"
  "queued (snd (plugin_notify L isLabel isSubdomain (Register v (Some notify)) payload s)) \<subseteq>
     queued s \<union> (hook_keys L isLabel isSubdomain payload \<inter> eligible s)"
  by (auto simp: plugin_notify_def Register_def hook_keys_def split: option.splits if_splits
      intro: notify_queued(1) [THEN subsetD] dest: notify_queued(2) [THEN subsetD])

lemma hooks_kept: "kept (hooks L isLabel isSubdomain (Register v (Some notify)) calls s) = kept s"
  by (induction calls arbitrary: s) (simp_all add: hooks_def Pre_def Post_def case_prod_beta hook_kept)

lemma hooks_queued:
  "queued s \<subseteq> queued (hooks L isLabel isSubdomain (Register v (Some notify)) calls s) \<and>
   queued (hooks L isLabel isSubdomain (Register v (Some notify)) calls s) \<subseteq>
     queued s \<union> ((\<Union>(pre, payload) \<in> set calls. hook_keys L isLabel isSubdomain payload) \<inter> eligible s)"
proof (induction calls arbitrary: s)
  case (Cons call calls)
  let ?t = "snd (plugin_notify L isLabel isSubdomain (Register v (Some notify)) (snd call) s)"
  have "hooks L isLabel isSubdomain (Register v (Some notify)) (call # calls) s = hooks L isLabel isSubdomain (Register v (Some notify)) calls ?t"
    by (simp add: hooks_def Pre_def Post_def case_prod_beta)
  moreover have "queued s \<subseteq> queued ?t" "queued ?t \<subseteq> queued s \<union> (hook_keys L isLabel isSubdomain (snd call) \<inter> eligible s)" "eligible ?t \<subseteq> eligible s"
    by (rule hook_queued hook_eligible)+
  moreover have "(\<Union>(pre, payload) \<in> set (call # calls). hook_keys L isLabel isSubdomain payload) =
      hook_keys L isLabel isSubdomain (snd call) \<union> (\<Union>(pre, payload) \<in> set calls. hook_keys L isLabel isSubdomain payload)"
    by (simp add: case_prod_beta)
  ultimately show ?case using Cons [of ?t] by (simp only:) blast
qed (simp add: hooks_def)

end

section \<open>The observer as notifier\<close>

text \<open>The work that is scheduled: the keys marked dirty in the queue.\<close>

definition scheduled :: "'d observer \<Rightarrow> clusterKey set" where
  "scheduled s = dom (dirty (oQueue s))"

lemma Notify_queue:
  "oQueue (Notify E ns name s) = oQueue s \<or>
   fst (store_HasDemand E (ClusterKey ns name) s) \<and> cluster (ClusterKey ns name) s \<noteq> None \<and>
   oQueue (Notify E ns name s) = Add (ClusterKey ns name) (promote (ClusterKey ns name) (oQueue s))"
proof -
  have h: "oQueue (snd (store_HasDemand E key s)) = oQueue s" "oClusters (snd (store_HasDemand E key s)) = oClusters s" for key
    by (simp_all add: store_HasDemand_def Now_def case_prod_beta Let_def)
  show ?thesis by (simp add: Notify_def enqueue_def Let_def case_prod_beta h queue_Add_def cluster_def clusterKey_String_def)
qed

lemma Notify_out: "oOut (Notify E ns name s) = oOut s"
proof -
  have "oOut (snd (store_HasDemand E key s)) = oOut s" for key by (simp add: store_HasDemand_def Now_def case_prod_beta Let_def)
  then show ?thesis by (simp add: Notify_def enqueue_def Let_def case_prod_beta queue_Add_def split: option.splits)
qed

lemma dirty_promote: "dom (dirty (promote key q)) = dom (dirty q)"
  by (simp add: promote_def Broadcast_def Let_def split: option.split)

lemma dirty_Add: "dom (dirty q) \<subseteq> dom (dirty (Add key q))" "dom (dirty (Add key q)) \<subseteq> insert key (dom (dirty q))"
  by (auto simp: Add_def push_def Broadcast_def Let_def split: option.splits if_splits)

text \<open>
  The Clusters the observer may be asked to observe: the cache knows them, and somebody watches them or the lease of a
  unary request has not run out at a reading of the clock still to come. (A missing lease counts as Go's zero time, 0.)
\<close>

definition lease_of :: "clusterKey \<Rightarrow> 'd store \<Rightarrow> time" where
  "lease_of key st = (case unaryDemand st key of None \<Rightarrow> 0 | Some d \<Rightarrow> max 0 d)"

definition observable :: "'d oenv \<Rightarrow> 'd observer \<Rightarrow> clusterKey set" where
  "observable E s = {key. cluster key s \<noteq> None \<and> (watchers_of key (oStore s) \<noteq> [] \<or> (\<exists>n\<ge>oReads s. clock E n < lease_of key (oStore s)))}"

lemma HasDemand_iff:
  "fst (HasDemand now key st) \<longleftrightarrow> watchers_of key st \<noteq> [] \<or> now < (case unaryDemand st key of None \<Rightarrow> 0 | Some d \<Rightarrow> d)"
  by (simp add: HasDemand_def hasDemand_def Let_def watchers_of_def)

lemma demand_observable:
  assumes "fst (store_HasDemand E key s)" and "cluster key s \<noteq> None"
  shows "key \<in> observable E s"
proof -
  have "watchers_of key (oStore s) \<noteq> [] \<or> clock E (oReads s) < lease_of key (oStore s)"
    using assms(1) HasDemand_iff [of "clock E (oReads s)" key "oStore s"]
    by (auto simp: store_HasDemand_def Now_def case_prod_beta Let_def lease_of_def split: option.splits)
  then show ?thesis using assms(2) unfolding observable_def by blast
qed

lemma observable_demand:
  assumes "key \<in> observable E s" and "\<forall>n. 0 \<le> clock E n"
  shows "cluster key s \<noteq> None \<and> (\<exists>n\<ge>oReads s. fst (HasDemand (clock E n) key (oStore s)))"
proof (cases "watchers_of key (oStore s) = []")
  case True
  then obtain n where n: "oReads s \<le> n" "clock E n < lease_of key (oStore s)" using assms(1) by (auto simp: observable_def)
  then have "fst (HasDemand (clock E n) key (oStore s))"
    using assms(2) [rule_format, of n] by (auto simp: HasDemand_iff lease_of_def split: option.splits)
  then show ?thesis using n(1) assms(1) by (auto simp: observable_def)
next
  case False
  then show ?thesis using assms(1) by (auto simp: observable_def HasDemand_iff)
qed

lemma Notify_observable: "observable E (Notify E ns name s) \<subseteq> observable E s"
proof -
  have l: "lease_of key (oStore (snd (store_HasDemand E k s))) \<le> lease_of key (oStore s)" for key k
    by (auto simp: lease_of_def store_HasDemand_def HasDemand_def hasDemand_def Now_def Let_def split: option.split)
  have "lease_of key (oStore (Notify E ns name s)) \<le> lease_of key (oStore s)"
    "watchers_of key (oStore (Notify E ns name s)) = watchers_of key (oStore s)"
    "cluster key (Notify E ns name s) = cluster key s" "oReads s \<le> oReads (Notify E ns name s)" for key
    using l by (simp_all add: Notify_def enqueue_def Let_def case_prod_beta queue_Add_def cluster_def HasDemand_keeps)
  then show ?thesis unfolding observable_def by (auto intro: order.trans less_le_trans)
qed

interpretation observer_hooks: notifier "Notify E" "\<lambda>s. (records (oStore s), control s, oOut s)" scheduled "observable E" for E :: "'d oenv"
proof
  fix ns name and s :: "'d observer"
  let ?key = "ClusterKey ns name"
  show "(records (oStore (Notify E ns name s)), control (Notify E ns name s), oOut (Notify E ns name s)) = (records (oStore s), control s, oOut s)"
    by (simp add: Notify_out) (simp add: Notify_def frame_simps control_frame)
  show "observable E (Notify E ns name s) \<subseteq> observable E s" by (rule Notify_observable)
  note q = Notify_queue [of E ns name s] dirty_Add [where q = "promote ?key (oQueue s)" and key = ?key]
  show "scheduled s \<subseteq> scheduled (Notify E ns name s)" using q unfolding scheduled_def dirty_promote by (metis subset_refl)
  show "scheduled (Notify E ns name s) \<subseteq> scheduled s \<union> ({?key} \<inter> observable E s)"
    using q demand_observable [of E ?key s] unfolding scheduled_def dirty_promote by fastforce
qed

lemma hook_queue:
  assumes "svc = Register version (Some (Notify E))" and "u = snd (plugin_notify L isLabel isSubdomain svc payload s)"
  shows "oQueue u = oQueue s \<or> (\<exists>key \<in> hook_keys L isLabel isSubdomain payload. fst (store_HasDemand E key s) \<and>
    cluster key s \<noteq> None \<and> oQueue u = Add key (promote key (oQueue s)))"
  using Notify_queue [of E] by (auto simp: plugin_notify_def assms Register_def hook_keys_def split: option.split)

text \<open>
  C35: hooks never publish and never hold up the operator. Whatever the payload, the answer of a hook is to
  continue, never to requeue or to terminate. After any sequence of hooks no stored record, cached CA, running observation or
  pending delivery has changed, no scheduled work is lost, and all work added is for Clusters that a payload names under
  a well-formed name, that the cache knows and that are in demand at some reading of the clock (which is never before
  Go's zero time). A single hook, \<open>Pre\<close> or \<open>Post\<close>, changes the queue only for a Cluster that the cache knows and that is
  in demand at that moment, and then as an urgent one.
\<close>

theorem hooks_only_schedule:
  assumes "svc = Register version (Some (Notify E))" and "t = hooks L isLabel isSubdomain svc calls s" and "\<forall>n. 0 \<le> clock E n"
  shows "records (oStore t) = records (oStore s) \<and> control t = control s \<and> oOut t = oOut s \<and> scheduled s \<subseteq> scheduled t \<and>
    scheduled t \<subseteq> scheduled s \<union> {key. (\<exists>(pre, payload) \<in> set calls. key \<in> hook_keys L isLabel isSubdomain payload) \<and>
      cluster key s \<noteq> None \<and> (\<exists>n\<ge>oReads s. fst (HasDemand (clock E n) key (oStore s)))} \<and>
    (\<forall>hook payload u b. hook \<in> {Pre, Post} \<and> hook L isLabel isSubdomain svc payload s = (b, u) \<longrightarrow>
       b = BEHAVIOR_CONTINUE \<and>
       (oQueue u = oQueue s \<or> (\<exists>key \<in> hook_keys L isLabel isSubdomain payload. fst (store_HasDemand E key s) \<and>
          cluster key s \<noteq> None \<and> oQueue u = Add key (promote key (oQueue s)))))"
proof -
  have "scheduled t \<subseteq> scheduled s \<union> {key. (\<exists>(pre, payload) \<in> set calls. key \<in> hook_keys L isLabel isSubdomain payload) \<and>
      cluster key s \<noteq> None \<and> (\<exists>n\<ge>oReads s. fst (HasDemand (clock E n) key (oStore s)))}"
    using observer_hooks.hooks_queued [of s L isLabel isSubdomain version E calls] observable_demand [OF _ assms(3)]
    unfolding assms(1,2) by (fastforce simp: case_prod_beta)
  moreover have "scheduled s \<subseteq> scheduled t"
    using observer_hooks.hooks_queued [of s L isLabel isSubdomain version E calls] unfolding assms(1,2) by blast
  moreover have "b = BEHAVIOR_CONTINUE \<and> (oQueue u = oQueue s \<or> (\<exists>key \<in> hook_keys L isLabel isSubdomain payload.
      fst (store_HasDemand E key s) \<and> cluster key s \<noteq> None \<and> oQueue u = Add key (promote key (oQueue s))))"
    if "hook \<in> {Pre, Post}" "hook L isLabel isSubdomain svc payload s = (b, u)" for hook payload u b
    using that hook_queue [OF assms(1), of u L isLabel isSubdomain payload s] by (auto simp: Pre_def Post_def plugin_notify_def)
  moreover have "records (oStore t) = records (oStore s)" "control t = control s" "oOut t = oOut s"
    using observer_hooks.hooks_kept [of L isLabel isSubdomain version E calls s] by (simp_all add: assms(1,2))
  ultimately show ?thesis by blast
qed

definition hook_golib :: golib where
  "hook_golib = sample_golib\<lparr>scan := (\<lambda>s. if s = ''doc'' then
     Some (JObject [(''metadata'', JObject [(''name'', JString ''app''), (''namespace'', JString ''db'')])], []) else None)\<rparr>"

definition hook_service :: "sample_observer_state Service" where
  "hook_service = Register ''1.0'' (Some (Notify sample_env))"

theorem hooks_only_schedule_witness:
  "records (oStore (hooks hook_golib (\<lambda>_. True) (\<lambda>_. True) hook_service [(True, ''doc''), (False, ''none'')] wanted)) = records (oStore wanted) \<and>
   oQueue (snd (Pre hook_golib (\<lambda>_. True) (\<lambda>_. True) hook_service ''doc'' wanted)) = Add app_key (promote app_key (oQueue wanted))"
proof -
  have d: "hook_keys hook_golib (\<lambda>_. True) (\<lambda>_. True) ''doc'' = {app_key}"
  proof -
    have "decode_hook hook_golib ''doc'' = Some \<lparr>hcNamespace = ''db'', hcName = ''app''\<rparr>" by code_simp
    then show ?thesis by (auto simp: hook_keys_def app_key_def)
  qed
  have "urgent (oQueue (snd (Pre hook_golib (\<lambda>_. True) (\<lambda>_. True) hook_service ''doc'' wanted))) = [app_key]" "urgent (oQueue wanted) = []"
    by code_simp+
  then have "oQueue (snd (Pre hook_golib (\<lambda>_. True) (\<lambda>_. True) hook_service ''doc'' wanted)) \<noteq> oQueue wanted" by auto
  moreover have c: "\<forall>n. 0 \<le> clock sample_env n" by (simp add: sample_env_def)
  note claim = hooks_only_schedule [OF hook_service_def refl c, of hook_golib "\<lambda>_. True" "\<lambda>_. True" "[(True, ''doc''), (False, ''none'')]" wanted]
  have "\<forall>u b. Pre hook_golib (\<lambda>_. True) (\<lambda>_. True) hook_service ''doc'' wanted = (b, u) \<longrightarrow>
      oQueue u = oQueue wanted \<or> oQueue u = Add app_key (promote app_key (oQueue wanted))"
    using claim [THEN conjunct2, THEN conjunct2, THEN conjunct2, THEN conjunct2, THEN conjunct2, rule_format, of Pre "''doc''"] d by auto
  ultimately have "oQueue (snd (Pre hook_golib (\<lambda>_. True) (\<lambda>_. True) hook_service ''doc'' wanted)) = Add app_key (promote app_key (oQueue wanted))"
    by (metis prod.collapse)
  then show ?thesis using claim [THEN conjunct1] by (rule conjI [rotated])
qed

end
