(* ===== verification/Float32.thy ===== *)
theory Float32
  imports Complex_Main "HOL-Library.Log_Nat"
begin

text \<open>
  The floating point numbers of the request rate in \<open>cmd/cnpg-connect-plugin/main.go\<close>: a value of type float64 with Go's comparisons, and
  its conversion to float32, which rounds to the nearest value with 24 bits of precision, ties to even.
\<close>

text \<open>Not a number, an infinity, or a rational number. Comparisons with NaN are false.\<close>

datatype go_float = NaN | PosInf | NegInf | Fin rat

fun float_positive :: "go_float \<Rightarrow> bool" where
  "float_positive (Fin q) = (q > 0)"
| "float_positive x = (x = PosInf)"

fun float_above :: "go_float \<Rightarrow> rat \<Rightarrow> bool" where
  "float_above (Fin q) b = (q > b)"
| "float_above x b = (x = PosInf)"

definition MaxFloat32 :: rat where
  "MaxFloat32 = (2 ^ 24 - 1) * 2 ^ 104"

section \<open>Conversion\<close>

definition round_even :: "rat \<Rightarrow> int" where
  "round_even x =
     (let n = \<lfloor>x\<rfloor>; r = x - of_int n in
        if r < 1 / 2 then n else if r > 1 / 2 then n + 1 else if even n then n else n + 1)"

text \<open>The exponent of the leading bit of a positive number.\<close>

definition leading_bit :: "rat \<Rightarrow> int" where
  "leading_bit q =
     (let (n, d) = quotient_of q; e = int (floorlog 2 (nat n)) - int (floorlog 2 (nat d)) in
        if 2 powi e \<le> q then e else e - 1)"

text \<open>The weight of the last of 24 bits, at least that of the smallest subnormal number.\<close>

definition last_bit :: "rat \<Rightarrow> int" where
  "last_bit q = max (leading_bit q - 23) (- 149)"

definition float32_positive :: "rat \<Rightarrow> rat" where
  "float32_positive q = of_int (round_even (q * 2 powi (- last_bit q))) * 2 powi last_bit q"

fun float32 :: "go_float \<Rightarrow> go_float" where
  "float32 (Fin q) =
     (if q = 0 then Fin 0
      else let r = float32_positive \<bar>q\<bar> in
        if r > MaxFloat32 then (if q > 0 then PosInf else NegInf) else Fin (if q > 0 then r else - r))"
| "float32 x = x"

section \<open>Bounds\<close>

lemma round_even_le: "x \<le> of_int m \<Longrightarrow> round_even x \<le> m"
proof -
  assume le: "x \<le> of_int m"
  show "round_even x \<le> m"
  proof (cases "x = of_int m")
    case False
    then have "\<lfloor>x\<rfloor> < m" using le by (simp add: floor_less_iff)
    then show ?thesis by (simp add: round_even_def Let_def)
  qed (simp add: round_even_def Let_def)
qed

lemma round_even_zero:
  assumes "0 \<le> x"
  shows "round_even x = 0 \<longleftrightarrow> x \<le> 1 / 2"
proof -
  have "0 \<le> \<lfloor>x\<rfloor>" using assms by simp
  show ?thesis
  proof (cases "\<lfloor>x\<rfloor> = 0")
    case False
    then have "1 \<le> \<lfloor>x\<rfloor>" using \<open>0 \<le> \<lfloor>x\<rfloor>\<close> by linarith
    then have "1 \<le> round_even x" "1 \<le> x" by (simp_all add: round_even_def Let_def)
    then show ?thesis by linarith
  qed (auto simp: round_even_def Let_def)
qed

lemma leading_bit_le:
  assumes "0 < q"
  shows "2 powi leading_bit q \<le> q"
proof -
  obtain n d where nd: "quotient_of q = (n, d)" by fastforce
  then have d: "0 < d" and q: "q = of_int n / of_int d" using quotient_of_denom_pos quotient_of_div by auto
  then have n: "0 < n" using assms by (simp add: zero_less_divide_iff)
  let ?a = "floorlog 2 (nat n)" and ?b = "floorlog 2 (nat d)"
  have "2 ^ (?a - 1) \<le> nat n" "nat d \<le> 2 ^ ?b" "?a \<noteq> 0" using floorlog_bounds [of "nat n" 2] floorlog_bounds [of "nat d" 2] n d
    by (auto simp: floorlog_eq_zero_iff)
  then have "(2 :: int) ^ (?a - 1) \<le> n" "d \<le> 2 ^ ?b" using n d by (simp_all add: le_nat_iff nat_le_iff)
  then have a: "(2 :: rat) ^ (?a - 1) \<le> of_int n" and b: "(of_int d :: rat) \<le> 2 ^ ?b"
    by (metis of_int_le_iff of_int_numeral of_int_power)+
  have "(2 :: rat) powi (int ?a - int ?b - 1) = 2 ^ (?a - 1) / 2 ^ ?b"
    using \<open>?a \<noteq> 0\<close> by (simp add: power_int_diff power_int_of_nat [symmetric] of_nat_diff del: power_int_of_nat)
  also have "\<dots> \<le> of_int n / of_int d" using a b n d by (intro frac_le) simp_all
  finally show ?thesis unfolding leading_bit_def nd q [symmetric] by (simp add: Let_def)
qed

lemma last_bit_bound:
  assumes "0 < q" and "q < 2 powi e" and "- 125 \<le> e"
  shows "last_bit q \<le> e - 24"
proof -
  have "(2 :: rat) powi leading_bit q < 2 powi e" using leading_bit_le assms by (meson le_less_trans)
  then have "leading_bit q < e" by (metis not_less one_le_numeral power_int_increasing)
  then show ?thesis using assms(3) by (simp add: last_bit_def)
qed

text \<open>A positive number becomes zero exactly up to half of the smallest subnormal number.\<close>

lemma float32_positive_zero:
  assumes "0 < q"
  shows "float32_positive q = 0 \<longleftrightarrow> q * 2 ^ 150 \<le> 1"
proof -
  let ?k = "last_bit q"
  have z: "float32_positive q = 0 \<longleftrightarrow> q * 2 powi (- ?k) \<le> 1 / 2" using round_even_zero assms by (simp add: float32_positive_def)
  show ?thesis
  proof (cases "?k = - 149")
    case True
    then show ?thesis by (simp add: z mult.commute [of q])
  next
    case False
    then have k: "?k = leading_bit q - 23" "- 149 \<le> ?k" by (simp_all add: last_bit_def)
    have "(2 :: rat) powi 23 \<le> q * 2 powi (- ?k)"
      using mult_right_mono [OF leading_bit_le [OF assms], of "2 powi (- ?k)"] k by (simp add: power_int_add [symmetric])
    moreover have "q * 2 powi (- ?k) \<le> q * 2 powi 149" using k assms by (intro mult_left_mono power_int_increasing) simp_all
    ultimately show ?thesis by (simp add: z)
  qed
qed

lemma float32_positive_nonneg: "0 < q \<Longrightarrow> 0 \<le> float32_positive q"
  by (simp add: float32_positive_def round_even_def Let_def)

text \<open>A number up to the largest value stays finite.\<close>

lemma float32_positive_bounded:
  assumes "0 < q" and "q \<le> MaxFloat32"
  shows "float32_positive q \<le> MaxFloat32"
proof -
  let ?k = "last_bit q"
  have "q < 2 powi 128" using assms by (simp add: MaxFloat32_def)
  then have k: "?k \<le> 104" using last_bit_bound [of q 128] assms by simp
  let ?m = "(2 ^ 24 - 1) * 2 ^ nat (104 - ?k) :: int"
  have p: "(2 :: rat) ^ 104 = 2 ^ nat (104 - ?k) * 2 powi ?k"
    using k power_int_add [of "2 :: rat" "104 - ?k" ?k] by (simp add: power_int_def)
  have m: "of_int ?m * 2 powi ?k = MaxFloat32" "MaxFloat32 * 2 powi (- ?k) = of_int ?m"
    unfolding MaxFloat32_def p by (simp_all add: power_int_minus)
  have "q * 2 powi (- ?k) \<le> of_int ?m" using assms mult_right_mono [of q MaxFloat32 "2 powi (- ?k)"] by (simp add: m(2))
  then have "(of_int (round_even (q * 2 powi (- ?k))) :: rat) \<le> of_int ?m" using round_even_le of_int_le_iff by blast
  then have "float32_positive q \<le> of_int ?m * 2 powi ?k" unfolding float32_positive_def by (intro mult_right_mono) simp_all
  then show ?thesis by (simp only: m(1))
qed

lemma float32_zero: "float32 x = Fin 0 \<longleftrightarrow> (\<exists>q. x = Fin q \<and> \<bar>q\<bar> * 2 ^ 150 \<le> 1)"
proof (cases x)
  case (Fin q)
  show ?thesis
  proof (cases "q = 0")
    case False
    then show ?thesis using float32_positive_zero [of "\<bar>q\<bar>"] by (auto simp: Fin Let_def MaxFloat32_def)
  qed (simp add: Fin)
qed simp_all

end
