(* ===== verification/Admission.thy ===== *)
theory Admission
  imports Slots Grpc
begin

text \<open>
  \<open>internal/server/admission.go\<close> and the parts of \<open>discovery_http.go\<close> and \<open>metrics_connections.go\<close> that
  keep state: the limits, the admission of an RPC before anything of it is read, the release of its
  reservation, the deadline of the initial request, the write deadline of a cancelled response, and
  the count of open sockets. HTTP, TLS and the transport are not modelled; what they do to this state
  (a request arrives, its body ends, a timer fires, the handler returns) are the steps of \<open>adm_step\<close>.
\<close>

section \<open>Limits\<close>

record Limits =
  MaxConcurrentStreams :: int
  MaxConnections :: int
  MaxRPCs :: int
  MaxWatches :: int
  InitialRequestTimeout :: duration

definition DefaultLimits :: Limits where
  "DefaultLimits = \<lparr>MaxConcurrentStreams = 128, MaxConnections = 1024, MaxRPCs = 4096, MaxWatches = 2048,
     InitialRequestTimeout = 5 * Second\<rparr>"

text \<open>One iteration of the loop: the value with its fallback, or the error that names the field.\<close>

definition normalize_field :: "string \<Rightarrow> int \<Rightarrow> int \<Rightarrow> string + int" where
  "normalize_field name value fallback =
     (let v = (if value = 0 then fallback else value) in
        if v < 1 \<or> v > 1000000 then Inl (name @ '' must be between 1 and 1000000'') else Inr v)"

text \<open>The limits returned beside an error are not read by the callers.\<close>

definition normalized :: "Limits \<Rightarrow> string + Limits" where
  "normalized l =
     (case normalize_field ''max-concurrent-streams'' (MaxConcurrentStreams l) (MaxConcurrentStreams DefaultLimits) of
        Inl e \<Rightarrow> Inl e
      | Inr streams \<Rightarrow>
     (case normalize_field ''max-discovery-connections'' (MaxConnections l) (MaxConnections DefaultLimits) of
        Inl e \<Rightarrow> Inl e
      | Inr connections \<Rightarrow>
     (case normalize_field ''max-discovery-rpcs'' (MaxRPCs l) (MaxRPCs DefaultLimits) of
        Inl e \<Rightarrow> Inl e
      | Inr rpcs \<Rightarrow>
     (case normalize_field ''max-discovery-watches'' (MaxWatches l) (MaxWatches DefaultLimits) of
        Inl e \<Rightarrow> Inl e
      | Inr watches \<Rightarrow>
          let timeout = (if InitialRequestTimeout l = 0 then InitialRequestTimeout DefaultLimits else InitialRequestTimeout l) in
            if timeout < Millisecond \<or> timeout > Minute
            then Inl ''initial-request-timeout must be between 1ms and 1m''
            else Inr \<lparr>MaxConcurrentStreams = streams, MaxConnections = connections, MaxRPCs = rpcs, MaxWatches = watches,
                      InitialRequestTimeout = timeout\<rparr>))))"

definition Limits_Validate :: "Limits \<Rightarrow> string option" where
  "Limits_Validate l = (case normalized l of Inl e \<Rightarrow> Some e | Inr _ \<Rightarrow> None)"

section \<open>State\<close>

text \<open>
  \<open>admission\<close>; \<open>'c\<close> stands for the values an RPC context carries, \<open>aAuthorize\<close> is the function field (nil
  when absent), \<open>aCtxErr\<close> the error of the process context.
\<close>

record 'c admission =
  aConnections :: int
  aCtxErr :: "ctxErr option"
  aLimits :: Limits
  aAuthorize :: "('c \<Rightarrow> grpcError option) option"
  aRpcs :: slots
  aWatches :: slots
  aRejectedAuth :: nat
  aRejectedCapacity :: nat
  aTimedout :: nat

text \<open>\<open>admittedRPC\<close>: whether it reserved a watch, whether its timer runs, whether its context is cancelled.\<close>

record admittedRPC =
  rpcWatch :: bool
  rpcTimer :: bool
  rpcCanceled :: bool

definition newAdmission :: "Limits \<Rightarrow> ('c \<Rightarrow> grpcError option) option \<Rightarrow> string + 'c admission" where
  "newAdmission limits authorize =
     (case normalized limits of
        Inl e \<Rightarrow> Inl e
      | Inr l \<Rightarrow> Inr \<lparr>aConnections = 0, aCtxErr = None, aLimits = l, aAuthorize = authorize, aRpcs = make_slots (MaxRPCs l),
                       aWatches = make_slots (MaxWatches l), aRejectedAuth = 0, aRejectedCapacity = 0, aTimedout = 0\<rparr>)"

section \<open>Admission\<close>

definition WatchTopology_FullMethodName :: string where
  "WatchTopology_FullMethodName = ''/cnpg.connect.v1.TopologyService/WatchTopology''"

text \<open>
  \<open>admit\<close> in two atomic parts, because another RPC may run between its two channel operations: the
  checks with the reservation of an RPC slot, and the reservation of a watch slot, which gives the
  RPC slot back when it fails (\<open>None\<close>: that receive would block).
\<close>

definition admit_rpc :: "ctxErr option \<Rightarrow> 'c \<Rightarrow> 'c admission \<Rightarrow> grpcError option \<times> 'c admission" where
  "admit_rpc parentErr parent a =
     (case aCtxErr a of
        Some e \<Rightarrow> (Some (FromContextError e), a)
      | None \<Rightarrow>
     (case parentErr of
        Some e \<Rightarrow> (Some (FromContextError e), a)
      | None \<Rightarrow>
     (case (case aAuthorize a of None \<Rightarrow> None | Some f \<Rightarrow> f parent) of
        Some e \<Rightarrow> (Some e, a\<lparr>aRejectedAuth := Suc (aRejectedAuth a)\<rparr>)
      | None \<Rightarrow>
     (case trySend (aRpcs a) of
        None \<Rightarrow> (Some (ResourceExhausted, ''discovery RPC capacity exhausted''), a\<lparr>aRejectedCapacity := Suc (aRejectedCapacity a)\<rparr>)
      | Some rpcs \<Rightarrow> (None, a\<lparr>aRpcs := rpcs\<rparr>)))))"

definition admit_watch :: "'c admission \<Rightarrow> (grpcError option \<times> 'c admission) option" where
  "admit_watch a =
     (case trySend (aWatches a) of
        Some watches \<Rightarrow> Some (None, a\<lparr>aWatches := watches\<rparr>)
      | None \<Rightarrow>
          (case receive (aRpcs a) of
             None \<Rightarrow> None
           | Some rpcs \<Rightarrow> Some (Some (ResourceExhausted, ''discovery watch capacity exhausted''),
               a\<lparr>aRpcs := rpcs, aRejectedCapacity := Suc (aRejectedCapacity a)\<rparr>)))"

definition admitted :: "bool \<Rightarrow> admittedRPC" where
  "admitted watch = \<lparr>rpcWatch = watch, rpcTimer = True, rpcCanceled = False\<rparr>"

definition admit :: "ctxErr option \<Rightarrow> 'c \<Rightarrow> string \<Rightarrow> 'c admission \<Rightarrow> ((grpcError + admittedRPC) \<times> 'c admission) option" where
  "admit parentErr parent method a =
     (case admit_rpc parentErr parent a of
        (Some e, a) \<Rightarrow> Some (Inl e, a)
      | (None, a) \<Rightarrow>
          (if method = WatchTopology_FullMethodName then
             (case admit_watch a of
                None \<Rightarrow> None
              | Some (Some e, a) \<Rightarrow> Some (Inl e, a)
              | Some (None, a) \<Rightarrow> Some (Inr (admitted True), a))
           else Some (Inr (admitted False), a)))"

text \<open>\<open>state.finish\<close>; \<open>None\<close> when one of its receives would block.\<close>

definition finish :: "admittedRPC \<Rightarrow> 'c admission \<Rightarrow> 'c admission option" where
  "finish r a =
     (case (if rpcWatch r then receive (aWatches a) else Some (aWatches a)) of
        None \<Rightarrow> None
      | Some watches \<Rightarrow> (case receive (aRpcs a) of None \<Rightarrow> None | Some rpcs \<Rightarrow> Some (a\<lparr>aWatches := watches, aRpcs := rpcs\<rparr>)))"

text \<open>The function of the timer, and the end of the request body, which stops it.\<close>

definition timer_fires :: "admittedRPC \<Rightarrow> 'c admission \<Rightarrow> admittedRPC \<times> 'c admission" where
  "timer_fires r a = (r\<lparr>rpcTimer := False, rpcCanceled := True\<rparr>, a\<lparr>aTimedout := Suc (aTimedout a)\<rparr>)"

definition initialRequestBody_Read :: "bool \<Rightarrow> admittedRPC \<Rightarrow> admittedRPC" where
  "initialRequestBody_Read eof r = (if eof then r\<lparr>rpcTimer := False\<rparr> else r)"

section \<open>The life of the requests\<close>

text \<open>
  One entry per request that has arrived: it holds an RPC slot and still wants a watch slot, it is
  served, or it is over.
\<close>

datatype request = WantsWatch | Serving admittedRPC | Ended

fun holds_rpc :: "request \<Rightarrow> bool" where
  "holds_rpc Ended = False"
| "holds_rpc _ = True"

fun holds_watch :: "request \<Rightarrow> bool" where
  "holds_watch (Serving r) = rpcWatch r"
| "holds_watch _ = False"

fun cancel_request :: "request \<Rightarrow> request" where
  "cancel_request (Serving r) = Serving (r\<lparr>rpcCanceled := True\<rparr>)"
| "cancel_request q = q"

inductive adm_step :: "'c admission \<times> request list \<Rightarrow> 'c admission \<times> request list \<Rightarrow> bool" where
  reject: "admit_rpc parentErr parent a = (Some e, a') \<Longrightarrow> adm_step (a, rs) (a', rs @ [Ended])"
| unary: "admit_rpc parentErr parent a = (None, a') \<Longrightarrow> method \<noteq> WatchTopology_FullMethodName \<Longrightarrow>
    adm_step (a, rs) (a', rs @ [Serving (admitted False)])"
| watch: "admit_rpc parentErr parent a = (None, a') \<Longrightarrow> method = WatchTopology_FullMethodName \<Longrightarrow>
    adm_step (a, rs) (a', rs @ [WantsWatch])"
| watch_admitted: "i < length rs \<Longrightarrow> rs ! i = WantsWatch \<Longrightarrow> admit_watch a = Some (None, a') \<Longrightarrow>
    adm_step (a, rs) (a', rs[i := Serving (admitted True)])"
| watch_rejected: "i < length rs \<Longrightarrow> rs ! i = WantsWatch \<Longrightarrow> admit_watch a = Some (Some e, a') \<Longrightarrow>
    adm_step (a, rs) (a', rs[i := Ended])"
| timer: "i < length rs \<Longrightarrow> rs ! i = Serving r \<Longrightarrow> rpcTimer r \<Longrightarrow> timer_fires r a = (r', a') \<Longrightarrow>
    adm_step (a, rs) (a', rs[i := Serving r'])"
| body: "i < length rs \<Longrightarrow> rs ! i = Serving r \<Longrightarrow> adm_step (a, rs) (a, rs[i := Serving (initialRequestBody_Read eof r)])"
| cancelled: "i < length rs \<Longrightarrow> adm_step (a, rs) (a, rs[i := cancel_request (rs ! i)])"
| shutdown: "adm_step (a, rs) (a\<lparr>aCtxErr := Some CtxCanceled\<rparr>, map cancel_request rs)"
| finished: "i < length rs \<Longrightarrow> rs ! i = Serving r \<Longrightarrow> finish r a = Some a' \<Longrightarrow> adm_step (a, rs) (a', rs[i := Ended])"

inductive adm_reach :: "Limits \<Rightarrow> ('c \<Rightarrow> grpcError option) option \<Rightarrow> 'c admission \<times> request list \<Rightarrow> bool"
  for limits authorize where
  start: "newAdmission limits authorize = Inr a \<Longrightarrow> adm_reach limits authorize (a, [])"
| step: "adm_reach limits authorize \<sigma> \<Longrightarrow> adm_step \<sigma> \<tau> \<Longrightarrow> adm_reach limits authorize \<tau>"

definition adm_inv :: "Limits \<Rightarrow> 'c admission \<times> request list \<Rightarrow> bool" where
  "adm_inv l \<sigma> \<longleftrightarrow> (case \<sigma> of (a, rs) \<Rightarrow>
     chan.accounts (aRpcs a) (holders holds_rpc rs) \<and> chan.accounts (aWatches a) (holders holds_watch rs) \<and>
     slotCap (aRpcs a) = nat (MaxRPCs l) \<and> slotCap (aWatches a) = nat (MaxWatches l))"

section \<open>Proofs about limits\<close>

lemma normalize_field_cases:
  "normalize_field name value fallback = Inr v \<Longrightarrow> 1 \<le> v \<and> v \<le> 1000000 \<and> v = (if value = 0 then fallback else value)"
  by (auto simp: normalize_field_def Let_def split: if_splits)

lemma normalize_field_stable: "normalize_field name value fallback = Inr v \<Longrightarrow> normalize_field name v other = Inr v"
  by (auto simp: normalize_field_def Let_def split: if_splits)

lemma normalized_InrE:
  assumes "normalized l = Inr n"
  obtains "normalize_field ''max-concurrent-streams'' (MaxConcurrentStreams l) (MaxConcurrentStreams DefaultLimits) = Inr (MaxConcurrentStreams n)"
    "normalize_field ''max-discovery-connections'' (MaxConnections l) (MaxConnections DefaultLimits) = Inr (MaxConnections n)"
    "normalize_field ''max-discovery-rpcs'' (MaxRPCs l) (MaxRPCs DefaultLimits) = Inr (MaxRPCs n)"
    "normalize_field ''max-discovery-watches'' (MaxWatches l) (MaxWatches DefaultLimits) = Inr (MaxWatches n)"
    "InitialRequestTimeout n = (if InitialRequestTimeout l = 0 then InitialRequestTimeout DefaultLimits else InitialRequestTimeout l)"
    "Millisecond \<le> InitialRequestTimeout n" "InitialRequestTimeout n \<le> Minute"
  using assms by (auto simp: normalized_def Let_def split: sum.splits if_splits)

text \<open>What accepted limits are.\<close>

definition limits_ok :: "Limits \<Rightarrow> bool" where
  "limits_ok l \<longleftrightarrow> (\<forall>v\<in>{MaxConcurrentStreams l, MaxConnections l, MaxRPCs l, MaxWatches l}. 1 \<le> v \<and> v \<le> 1000000) \<and>
     Millisecond \<le> InitialRequestTimeout l \<and> InitialRequestTimeout l \<le> Minute"

definition with_defaults :: "Limits \<Rightarrow> Limits" where
  "with_defaults l = (let pick = (\<lambda>f. if f l = 0 then f DefaultLimits else f l) in
     \<lparr>MaxConcurrentStreams = pick MaxConcurrentStreams, MaxConnections = pick MaxConnections, MaxRPCs = pick MaxRPCs,
      MaxWatches = pick MaxWatches, InitialRequestTimeout = pick InitialRequestTimeout\<rparr>)"

lemma normalized_eq: "normalized l = Inr n \<longleftrightarrow> n = with_defaults l \<and> limits_ok (with_defaults l)"
  by (auto simp: normalized_def normalize_field_def with_defaults_def limits_ok_def Let_def split: sum.splits if_splits)

section \<open>Proofs about the reservations\<close>

lemma admit_rpc_cases:
  assumes "admit_rpc parentErr parent a = (out, a')"
  shows "aWatches a' = aWatches a \<and> (out \<noteq> None \<and> aRpcs a' = aRpcs a \<or> out = None \<and> trySend (aRpcs a) = Some (aRpcs a'))"
  using assms by (auto simp: admit_rpc_def split: option.splits)

lemma holders_same: "i < length rs \<Longrightarrow> P q = P (rs ! i) \<Longrightarrow> holders P (rs[i := q]) = holders P rs"
  using holders_update [of i rs P q] by auto

lemma holders_gain: "i < length rs \<Longrightarrow> P q \<Longrightarrow> \<not> P (rs ! i) \<Longrightarrow> holders P (rs[i := q]) = Suc (holders P rs)"
  using holders_update [of i rs P q] by auto

lemma holders_loss: "i < length rs \<Longrightarrow> \<not> P q \<Longrightarrow> P (rs ! i) \<Longrightarrow> holders P rs = Suc (holders P (rs[i := q]))"
  using holders_update [of i rs P q] by auto

lemma cancel_request_holds [simp]:
  "holds_rpc (cancel_request q) = holds_rpc q" "holds_watch (cancel_request q) = holds_watch q"
  by (cases q; simp)+

lemma adm_step_inv:
  assumes "adm_step \<sigma> \<tau>" and "adm_inv l \<sigma>"
  shows "adm_inv l \<tau>"
  using assms
proof (induction rule: adm_step.induct)
  case (reject parentErr parent a e a' rs)
  then show ?case using admit_rpc_cases [OF reject.hyps] by (simp add: adm_inv_def)
next
  case (unary parentErr parent a a' path rs)
  then show ?case using admit_rpc_cases [OF unary.hyps(1)] cap_frame chan.accounts_acquire
    by (fastforce simp: adm_inv_def admitted_def)
next
  case (watch parentErr parent a a' path rs)
  then show ?case using admit_rpc_cases [OF watch.hyps(1)] cap_frame chan.accounts_acquire by (fastforce simp: adm_inv_def)
next
  case (watch_admitted i rs a a')
  then have "trySend (aWatches a) = Some (aWatches a')" "aRpcs a' = aRpcs a"
    by (auto simp: admit_watch_def split: option.splits)
  with watch_admitted show ?case using cap_frame(1) chan.accounts_acquire
    by (fastforce simp: adm_inv_def holders_same holders_gain admitted_def)
next
  case (watch_rejected i rs a e a')
  then have "receive (aRpcs a) = Some (aRpcs a')" "aWatches a' = aWatches a"
    by (auto simp: admit_watch_def split: option.splits)
  with watch_rejected show ?case using cap_frame(2) chan.accounts_release holders_loss [of i rs holds_rpc Ended]
    by (fastforce simp: adm_inv_def holders_same)
next
  case (timer i rs r a r' a')
  then show ?case by (auto simp: adm_inv_def timer_fires_def holders_same)
next
  case (body i rs r a eof)
  then show ?case by (simp add: adm_inv_def initialRequestBody_Read_def holders_same)
next
  case (cancelled i rs a)
  then show ?case by (simp add: adm_inv_def holders_same)
next
  case (shutdown a rs)
  then show ?case by (simp add: adm_inv_def holders_map)
next
  case (finished i rs r a a')
  then obtain watches rpcs where f: "(if rpcWatch r then receive (aWatches a) else Some (aWatches a)) = Some watches"
    "receive (aRpcs a) = Some rpcs" "a' = a\<lparr>aWatches := watches, aRpcs := rpcs\<rparr>"
    by (auto simp: finish_def split: option.splits)
  have "chan.accounts rpcs (holders holds_rpc (rs[i := Ended]))"
    using finished f(2) chan.accounts_release holders_loss [of i rs holds_rpc Ended] by (fastforce simp: adm_inv_def)
  moreover have "chan.accounts watches (holders holds_watch (rs[i := Ended]))"
  proof (cases "rpcWatch r")
    case True
    then show ?thesis using finished f(1) chan.accounts_release holders_loss [of i rs holds_watch Ended] by (fastforce simp: adm_inv_def)
  next
    case False
    then show ?thesis using finished f(1) by (simp add: adm_inv_def holders_same)
  qed
  ultimately show ?case using finished.prems f cap_frame(2) by (auto simp: adm_inv_def split: if_splits)
qed

lemma adm_reach_inv: "adm_reach limits authorize \<sigma> \<Longrightarrow> adm_inv (with_defaults limits) \<sigma>"
proof (induction rule: adm_reach.induct)
  case (start a)
  then show ?case
    by (auto simp: newAdmission_def normalized_eq adm_inv_def chan.accounts_def make_slots_def split: sum.splits)
qed (rule adm_step_inv)

text \<open>
  C23: the reservations of the discovery server are exact and bounded in every execution, whatever
  arrives, times out, is cancelled or shut down: the taken RPC slots are the requests that are not
  over, never more than \<open>MaxRPCs\<close>, the taken watch slots are the watches that are served, never more
  than \<open>MaxWatches\<close>, and neither the end of a request nor the rejection of a watch ever blocks on
  giving its slot back.
\<close>

theorem admission_bounded:
  assumes "adm_reach limits authorize (a, rs)"
  shows "slotUsed (aRpcs a) = holders holds_rpc rs \<and> holders holds_rpc rs \<le> nat (MaxRPCs (with_defaults limits)) \<and>
    slotUsed (aWatches a) = holders holds_watch rs \<and> holders holds_watch rs \<le> nat (MaxWatches (with_defaults limits)) \<and>
    (\<forall>i r. i < length rs \<and> rs ! i = Serving r \<longrightarrow> finish r a \<noteq> None) \<and>
    (\<forall>i. i < length rs \<and> rs ! i = WantsWatch \<longrightarrow> admit_watch a \<noteq> None)"
proof -
  have inv: "chan.accounts (aRpcs a) (holders holds_rpc rs)" "chan.accounts (aWatches a) (holders holds_watch rs)"
    "slotCap (aRpcs a) = nat (MaxRPCs (with_defaults limits))" "slotCap (aWatches a) = nat (MaxWatches (with_defaults limits))"
    using adm_reach_inv [OF assms] by (simp_all add: adm_inv_def)
  have "finish r a \<noteq> None" if "i < length rs" "rs ! i = Serving r" for i r
    using chan.release_possible [OF inv(1)] chan.release_possible [OF inv(2)] holders_pos [of i rs holds_rpc]
      holders_pos [of i rs holds_watch] that by (auto simp: finish_def split: option.splits)
  moreover have "admit_watch a \<noteq> None" if "i < length rs" "rs ! i = WantsWatch" for i
    using chan.release_possible [OF inv(1)] holders_pos [of i rs holds_rpc] that by (auto simp: admit_watch_def split: option.splits)
  ultimately show ?thesis using inv by (auto simp: chan.accounts_def)
qed

text \<open>
  What \<open>admit\<close> answers, on every branch. It never blocks. A rejection keeps every slot as it was and
  counts itself once: with the error of the context that is over, with the error of the authorization
  (counted as such), or with \<open>ResourceExhausted\<close> when the RPC slots, or for a watch the watch slots, are
  really all taken. An admission happens only with live contexts and a passed authorization, and
  finishing it restores the state before it.
\<close>

theorem admit_outcomes:
  "case admit parentErr parent method a of
     None \<Rightarrow> False
   | Some (Inl e, a') \<Rightarrow>
       (\<exists>c. (aCtxErr a = Some c \<or> aCtxErr a = None \<and> parentErr = Some c) \<and> e = FromContextError c \<and> a' = a) \<or>
       aCtxErr a = None \<and> parentErr = None \<and>
       ((\<exists>f. aAuthorize a = Some f \<and> f parent = Some e) \<and> a' = a\<lparr>aRejectedAuth := Suc (aRejectedAuth a)\<rparr> \<or>
        fst e = ResourceExhausted \<and> a' = a\<lparr>aRejectedCapacity := Suc (aRejectedCapacity a)\<rparr> \<and>
        (slotCap (aRpcs a) \<le> slotUsed (aRpcs a) \<or>
         method = WatchTopology_FullMethodName \<and> slotCap (aWatches a) \<le> slotUsed (aWatches a)))
   | Some (Inr r, a') \<Rightarrow>
       aCtxErr a = None \<and> parentErr = None \<and> (aAuthorize a = None \<or> (\<exists>f. aAuthorize a = Some f \<and> f parent = None)) \<and>
       rpcWatch r = (method = WatchTopology_FullMethodName) \<and> rpcTimer r \<and> \<not> rpcCanceled r \<and> finish r a' = Some a"
proof (cases "admit_rpc parentErr parent a")
  case (Pair out b)
  show ?thesis
  proof (cases out)
    case (Some e)
    then have a: "admit parentErr parent method a = Some (Inl e, b)" by (simp add: admit_def Pair)
    show ?thesis unfolding a using Pair Some chan.acquire_None [of "aRpcs a"]
      by (auto simp: admit_rpc_def split: option.splits)
  next
    case None
    then obtain rpcs where live: "aCtxErr a = None" "parentErr = None" "aAuthorize a = None \<or> (\<exists>f. aAuthorize a = Some f \<and> f parent = None)"
      and b: "trySend (aRpcs a) = Some rpcs" "b = a\<lparr>aRpcs := rpcs\<rparr>"
      using Pair by (auto simp: admit_rpc_def split: option.splits)
    note returned = trySend_receive [OF b(1)]
    show ?thesis
    proof (cases "method = WatchTopology_FullMethodName")
      case w: True
      show ?thesis
      proof (cases "trySend (aWatches a)")
        case full: None
        then have "admit parentErr parent method a = Some (Inl (ResourceExhausted, ''discovery watch capacity exhausted''),
            a\<lparr>aRejectedCapacity := Suc (aRejectedCapacity a)\<rparr>)"
          using None w b returned by (simp add: admit_def Pair admit_watch_def)
        then show ?thesis using live w full chan.acquire_None [of "aWatches a"] by simp
      next
        case (Some watches)
        then have "admit parentErr parent method a = Some (Inr (admitted True), a\<lparr>aRpcs := rpcs, aWatches := watches\<rparr>)"
          using None w b by (simp add: admit_def Pair admit_watch_def)
        moreover have "finish (admitted True) (a\<lparr>aRpcs := rpcs, aWatches := watches\<rparr>) = Some a"
          using returned trySend_receive [OF Some] by (simp add: finish_def admitted_def)
        ultimately show ?thesis using live w by (simp add: admitted_def)
      qed
    next
      case False
      then have "admit parentErr parent method a = Some (Inr (admitted False), b)" using None by (simp add: admit_def Pair)
      moreover have "finish (admitted False) b = Some a" using returned b by (simp add: finish_def admitted_def)
      ultimately show ?thesis using live False by (simp add: admitted_def)
    qed
  qed
qed

section \<open>Write deadlines\<close>

text \<open>
  \<open>responseWriteDeadline\<close>: whether the controller is still there, whether the deadline was armed, and the
  deadline it set on the response.
\<close>

record responseWriteDeadline =
  wdController :: bool
  wdArmed :: bool
  wdDeadline :: "time option"

definition canceledResponseGrace :: duration where
  "canceledResponseGrace = 100 * Millisecond"

definition responseWriteDeadline_cancel :: "time \<Rightarrow> responseWriteDeadline \<Rightarrow> responseWriteDeadline" where
  "responseWriteDeadline_cancel now w =
     (if \<not> wdController w \<or> wdArmed w then w
      else w\<lparr>wdArmed := True, wdDeadline := Some (now + canceledResponseGrace)\<rparr>)"

definition responseWriteDeadline_close :: "responseWriteDeadline \<Rightarrow> responseWriteDeadline" where
  "responseWriteDeadline_close w = w\<lparr>wdController := False\<rparr>"

definition new_write_deadline :: responseWriteDeadline where
  "new_write_deadline = \<lparr>wdController = True, wdArmed = False, wdDeadline = None\<rparr>"

text \<open>A call is a cancellation at an instant, or the close (\<open>None\<close>).\<close>

definition wd_call :: "time option \<Rightarrow> responseWriteDeadline \<Rightarrow> responseWriteDeadline" where
  "wd_call c = (case c of Some now \<Rightarrow> responseWriteDeadline_cancel now | None \<Rightarrow> responseWriteDeadline_close)"

fun first_cancel :: "time option list \<Rightarrow> time option" where
  "first_cancel (Some now # _) = Some (now + canceledResponseGrace)"
| "first_cancel _ = None"

lemma wd_fixed: "\<not> wdController w \<or> wdArmed w \<Longrightarrow> wdDeadline (fold wd_call calls w) = wdDeadline w"
proof (induction calls arbitrary: w)
  case (Cons c cs)
  then show ?case
    by (cases c) (simp_all add: wd_call_def responseWriteDeadline_cancel_def responseWriteDeadline_close_def)
qed simp

text \<open>
  The deadline of a response is set at most once, by the first cancellation, and never after the
  handler has closed it: repeated cancellation cannot extend the grace period.
\<close>

lemma write_deadline_once: "wdDeadline (fold wd_call calls new_write_deadline) = first_cancel calls"
proof (cases calls)
  case (Cons c cs)
  then show ?thesis
    by (cases c) (simp_all add: wd_call_def responseWriteDeadline_cancel_def responseWriteDeadline_close_def
        new_write_deadline_def wd_fixed)
qed (simp add: new_write_deadline_def)

section \<open>Sockets\<close>

text \<open>
  \<open>countedListener.Accept\<close> and \<open>countedConn.Close\<close> over the sockets accepted so far (\<open>True\<close>: its \<open>once\<close> has
  run). The error of the underlying listener leaves the count alone.
\<close>

definition countedListener_Accept :: "bool \<Rightarrow> int \<times> bool list \<Rightarrow> int \<times> bool list" where
  "countedListener_Accept err s = (case s of (active, conns) \<Rightarrow> if err then s else (active + 1, conns @ [False]))"

definition countedConn_Close :: "nat \<Rightarrow> int \<times> bool list \<Rightarrow> int \<times> bool list" where
  "countedConn_Close i s = (case s of (active, conns) \<Rightarrow> if conns ! i then s else (active - 1, conns[i := True]))"

inductive conn_reach :: "int \<times> bool list \<Rightarrow> bool" where
  none: "conn_reach (0, [])"
| accept: "conn_reach s \<Longrightarrow> conn_reach (countedListener_Accept err s)"
| close: "conn_reach (active, conns) \<Longrightarrow> i < length conns \<Longrightarrow> conn_reach (countedConn_Close i (active, conns))"

text \<open>The connection gauge is the number of open sockets, however often a socket is closed.\<close>

lemma connections_counted: "conn_reach s \<Longrightarrow> fst s = int (holders Not (snd s))"
proof (induction rule: conn_reach.induct)
  case (accept s err)
  then show ?case by (simp add: countedListener_Accept_def case_prod_beta)
next
  case (close active conns i)
  then show ?case using holders_loss [of i conns Not True] by (auto simp: countedConn_Close_def)
qed simp

section \<open>A concrete server\<close>

definition sample_limits :: Limits where
  "sample_limits = \<lparr>MaxConcurrentStreams = 0, MaxConnections = 0, MaxRPCs = 2, MaxWatches = 1, InitialRequestTimeout = 0\<rparr>"

definition sample_admission :: "unit admission" where
  "sample_admission = projr (newAdmission sample_limits None)"

definition one_served :: "unit admission" where
  "one_served = snd (admit_rpc None () sample_admission)"

lemma one_served_reach: "adm_reach sample_limits None (one_served, [WantsWatch])"
proof -
  have n: "newAdmission sample_limits None = Inr sample_admission"
    by (simp add: sample_admission_def newAdmission_def normalized_def normalize_field_def sample_limits_def DefaultLimits_def time_units)
  have "admit_rpc None () sample_admission = (None, one_served)"
    by (simp add: one_served_def sample_admission_def newAdmission_def normalized_def normalize_field_def sample_limits_def
        DefaultLimits_def time_units admit_rpc_def trySend_def make_slots_def)
  from adm_step.watch [OF this] have "adm_step (sample_admission, []) (one_served, [] @ [WantsWatch])" by blast
  from adm_reach.step [OF adm_reach.start [OF n] this] show ?thesis by simp
qed

theorem admission_bounded_witness:
  "slotUsed (aRpcs one_served) = 1 \<and> slotUsed (aWatches one_served) = 0 \<and> admit_watch one_served \<noteq> None"
  using admission_bounded [OF one_served_reach] by (auto simp: holders_def)

end
