(* ===== verification/Command_Line.thy ===== *)
theory Command_Line
  imports Float32 Admission Discovery_Server
begin

text \<open>
  The command line of \<open>cmd/cnpg-connect-plugin/main.go\<close>: the settings with their defaults, and \<open>parseSettings\<close> with the
  part of Go's \<open>flag\<close> package it uses. Reading numbers and durations from strings is \<open>strconv\<close>'s and \<open>time\<close>'s and
  a parameter; usage output is left out.
\<close>

section \<open>Settings\<close>

record settings =
  pluginAddress :: string
  discoveryAddress :: string
  healthAddress :: string
  serverCert :: string
  serverKey :: string
  clientCA :: string
  discoveryCert :: string
  discoveryKey :: string
  discoveryPlaintext :: bool
  authTokenFile :: string
  set_namespace :: string
  kubeconfig :: string
  kubeAPIQPS :: go_float
  kubeAPIBurst :: int
  pollInterval :: "64 word"
  set_ttl :: "64 word"
  probeTimeout :: "64 word"
  maxConcurrency :: int
  maxConcurrentClusters :: int
  set_limits :: Limits
  insecure :: bool
  showVersion :: bool

definition default_settings :: settings where
  "default_settings = \<lparr>pluginAddress = '':9090'', discoveryAddress = '':8080'', healthAddress = '':8081'', serverCert = [], serverKey = [],
     clientCA = [], discoveryCert = [], discoveryKey = [], discoveryPlaintext = False, authTokenFile = [], set_namespace = [], kubeconfig = [],
     kubeAPIQPS = Fin 100, kubeAPIBurst = 200, pollInterval = 5000000000, set_ttl = 15000000000, probeTimeout = 2000000000,
     maxConcurrency = 128, maxConcurrentClusters = 32, set_limits = DefaultLimits, insecure = False, showVersion = False\<rparr>"

section \<open>Flags\<close>

record flag_parsers =
  ParseInt :: "string \<Rightarrow> int option"
  ParseFloat :: "string \<Rightarrow> go_float option"
  flag_ParseDuration :: "string \<Rightarrow> 64 word option"

definition ParseBool :: "string \<Rightarrow> bool option" where
  "ParseBool v =
     (if v \<in> set [''1'', ''t'', ''T'', ''true'', ''TRUE'', ''True''] then Some True
      else if v \<in> set [''0'', ''f'', ''F'', ''false'', ''FALSE'', ''False''] then Some False else None)"

text \<open>The variables of the flags, by type.\<close>

definition string_flags :: "(string \<times> (string \<Rightarrow> settings \<Rightarrow> settings)) list" where
  "string_flags =
     [(''plugin-address'', \<lambda>v s. s\<lparr>pluginAddress := v\<rparr>), (''discovery-address'', \<lambda>v s. s\<lparr>discoveryAddress := v\<rparr>),
      (''health-address'', \<lambda>v s. s\<lparr>healthAddress := v\<rparr>), (''server-cert'', \<lambda>v s. s\<lparr>serverCert := v\<rparr>), (''server-key'', \<lambda>v s. s\<lparr>serverKey := v\<rparr>),
      (''client-ca'', \<lambda>v s. s\<lparr>clientCA := v\<rparr>), (''discovery-cert'', \<lambda>v s. s\<lparr>discoveryCert := v\<rparr>),
      (''discovery-key'', \<lambda>v s. s\<lparr>discoveryKey := v\<rparr>), (''auth-token-file'', \<lambda>v s. s\<lparr>authTokenFile := v\<rparr>),
      (''namespace'', \<lambda>v s. s\<lparr>set_namespace := v\<rparr>), (''kubeconfig'', \<lambda>v s. s\<lparr>kubeconfig := v\<rparr>)]"

definition set_limit :: "(Limits \<Rightarrow> Limits) \<Rightarrow> settings \<Rightarrow> settings" where
  "set_limit f s = s\<lparr>set_limits := f (set_limits s)\<rparr>"

definition int_flags :: "(string \<times> (int \<Rightarrow> settings \<Rightarrow> settings)) list" where
  "int_flags =
     [(''kube-api-burst'', \<lambda>v s. s\<lparr>kubeAPIBurst := v\<rparr>), (''max-concurrency'', \<lambda>v s. s\<lparr>maxConcurrency := v\<rparr>),
      (''max-concurrent-clusters'', \<lambda>v s. s\<lparr>maxConcurrentClusters := v\<rparr>),
      (''max-concurrent-streams'', \<lambda>v. set_limit (\<lambda>l. l\<lparr>MaxConcurrentStreams := v\<rparr>)),
      (''max-discovery-connections'', \<lambda>v. set_limit (\<lambda>l. l\<lparr>MaxConnections := v\<rparr>)),
      (''max-discovery-rpcs'', \<lambda>v. set_limit (\<lambda>l. l\<lparr>MaxRPCs := v\<rparr>)), (''max-discovery-watches'', \<lambda>v. set_limit (\<lambda>l. l\<lparr>MaxWatches := v\<rparr>))]"

definition duration_flags :: "(string \<times> (64 word \<Rightarrow> settings \<Rightarrow> settings)) list" where
  "duration_flags =
     [(''poll-interval'', \<lambda>v s. s\<lparr>pollInterval := v\<rparr>), (''ttl'', \<lambda>v s. s\<lparr>set_ttl := v\<rparr>), (''probe-timeout'', \<lambda>v s. s\<lparr>probeTimeout := v\<rparr>),
      (''initial-request-timeout'', \<lambda>v. set_limit (\<lambda>l. l\<lparr>InitialRequestTimeout := sint v\<rparr>))]"

definition bool_flags :: "(string \<times> (bool \<Rightarrow> settings \<Rightarrow> settings)) list" where
  "bool_flags =
     [(''discovery-plaintext'', \<lambda>v s. s\<lparr>discoveryPlaintext := v\<rparr>), (''insecure'', \<lambda>v s. s\<lparr>insecure := v\<rparr>), (''version'', \<lambda>v s. s\<lparr>showVersion := v\<rparr>)]"

definition flag_names :: "string list" where
  "flag_names = map fst string_flags @ map fst int_flags @ map fst duration_flags @ map fst bool_flags @ [''kube-api-qps'']"

text \<open>\<open>flag.Value.Set\<close> of a known flag; \<open>None\<close>: the value cannot be read.\<close>

definition set_flag :: "flag_parsers \<Rightarrow> string \<Rightarrow> string \<Rightarrow> settings \<Rightarrow> settings option" where
  "set_flag P name v s =
     (case map_of string_flags name of Some f \<Rightarrow> Some (f v s) | None \<Rightarrow>
      case map_of int_flags name of Some f \<Rightarrow> map_option (\<lambda>x. f x s) (ParseInt P v) | None \<Rightarrow>
      case map_of duration_flags name of Some f \<Rightarrow> map_option (\<lambda>x. f x s) (flag_ParseDuration P v) | None \<Rightarrow>
      case map_of bool_flags name of Some f \<Rightarrow> map_option (\<lambda>x. f x s) (ParseBool v) | None \<Rightarrow>
      map_option (\<lambda>x. s\<lparr>kubeAPIQPS := x\<rparr>) (ParseFloat P v))"

section \<open>Parsing\<close>

datatype flag_error =
    BadSyntax string | NotDefined string | NeedsArgument string | InvalidBoolean string string | InvalidValue string string | PositionalArguments

datatype flag_syntax = NotFlag | Terminator | Malformed | FlagName string "string option"

text \<open>One argument: one or two dashes, a name, and a value after the first equals sign that is not its first character.\<close>

definition flag_token :: "string \<Rightarrow> flag_syntax" where
  "flag_token a =
     (case a of
        CHR ''-'' # b # rest \<Rightarrow>
          (let name = (if b = CHR ''-'' then rest else b # rest) in
             if b = CHR ''-'' \<and> rest = [] then Terminator
             else case name of
               [] \<Rightarrow> Malformed
             | c # cs \<Rightarrow>
                 if c = CHR ''-'' \<or> c = CHR ''='' then Malformed
                 else (case strings_Cut cs CHR ''='' of (before, after, found) \<Rightarrow> FlagName (c # before) (if found then Some after else None)))
      | _ \<Rightarrow> NotFlag)"

text \<open>
  \<open>FlagSet.Parse\<close>: help was asked for, an error, or the values of the flags, the names of those given, and how many
  arguments are left. A flag that is not boolean takes the next argument when it has no value.
\<close>

datatype flags_Parse = FlagHelp | FlagError flag_error | FlagValues settings "string list" nat

fun flags_loop :: "flag_parsers \<Rightarrow> settings \<Rightarrow> string list \<Rightarrow> string list \<Rightarrow> flags_Parse" where
  "flags_loop P s explicit [] = FlagValues s explicit 0"
| "flags_loop P s explicit (a # args) =
     (case flag_token a of
        NotFlag \<Rightarrow> FlagValues s explicit (length (a # args))
      | Terminator \<Rightarrow> FlagValues s explicit (length args)
      | Malformed \<Rightarrow> FlagError (BadSyntax a)
      | FlagName name value \<Rightarrow>
          if name \<notin> set flag_names then (if name = ''help'' \<or> name = ''h'' then FlagHelp else FlagError (NotDefined name))
          else if name \<in> set (map fst bool_flags) then
            (case value of
               Some v \<Rightarrow> (case set_flag P name v s of None \<Rightarrow> FlagError (InvalidBoolean name v) | Some s' \<Rightarrow> flags_loop P s' (name # explicit) args)
             | None \<Rightarrow>
                 (case set_flag P name ''true'' s of None \<Rightarrow> FlagError (InvalidBoolean name ''true'') | Some s' \<Rightarrow> flags_loop P s' (name # explicit) args))
          else
            (case value of
               Some v \<Rightarrow> (case set_flag P name v s of None \<Rightarrow> FlagError (InvalidValue name v) | Some s' \<Rightarrow> flags_loop P s' (name # explicit) args)
             | None \<Rightarrow>
                 (case args of
                    [] \<Rightarrow> FlagError (NeedsArgument name)
                  | v # rest \<Rightarrow>
                      (case set_flag P name v s of None \<Rightarrow> FlagError (InvalidValue name v) | Some s' \<Rightarrow> flags_loop P s' (name # explicit) rest))))"

declare flags_loop.simps [simp del]

text \<open>
  \<open>parseSettings\<close> after the flags are set: how many arguments are left, and the flags that were given.
\<close>

definition parse_finish :: "settings \<Rightarrow> string list \<Rightarrow> nat \<Rightarrow> flag_error + settings" where
  "parse_finish s explicit nargs =
     (if nargs \<noteq> 0 then Inl PositionalArguments
      else if insecure s then
        Inr (s\<lparr>pluginAddress := (if ''plugin-address'' \<in> set explicit then pluginAddress s else ''127.0.0.1:9090''),
               discoveryAddress := (if ''discovery-address'' \<in> set explicit then discoveryAddress s else ''127.0.0.1:8080''),
               healthAddress := (if ''health-address'' \<in> set explicit then healthAddress s else ''127.0.0.1:8081'')\<rparr>)
      else Inr s)"

datatype parsed = Help | BadFlags flag_error | Flags settings

definition flags_result :: "flags_Parse \<Rightarrow> parsed" where
  "flags_result r =
     (case r of
        FlagHelp \<Rightarrow> Help
      | FlagError e \<Rightarrow> BadFlags e
      | FlagValues s explicit nargs \<Rightarrow> (case parse_finish s explicit nargs of Inl e \<Rightarrow> BadFlags e | Inr s \<Rightarrow> Flags s))"

definition parseSettings :: "flag_parsers \<Rightarrow> string list \<Rightarrow> parsed" where
  "parseSettings P args = flags_result (flags_loop P default_settings [] args)"

section \<open>What is written is read\<close>

text \<open>Settings written as flags; \<open>fi\<close>, \<open>ff\<close> and \<open>fd\<close> write numbers and durations.\<close>

definition flag_line :: "string \<times> string \<Rightarrow> string" where
  "flag_line nv = ''--'' @ fst nv @ ''='' @ snd nv"

definition FormatBool :: "bool \<Rightarrow> string" where
  "FormatBool b = (if b then ''true'' else ''false'')"

definition flag_values :: "(int \<Rightarrow> string) \<Rightarrow> (go_float \<Rightarrow> string) \<Rightarrow> (64 word \<Rightarrow> string) \<Rightarrow> settings \<Rightarrow> (string \<times> string) list" where
  "flag_values fi ff fd s =
     [(''plugin-address'', pluginAddress s), (''discovery-address'', discoveryAddress s), (''health-address'', healthAddress s),
      (''server-cert'', serverCert s), (''server-key'', serverKey s), (''client-ca'', clientCA s), (''discovery-cert'', discoveryCert s),
      (''discovery-key'', discoveryKey s), (''discovery-plaintext'', FormatBool (discoveryPlaintext s)), (''auth-token-file'', authTokenFile s),
      (''namespace'', set_namespace s), (''kubeconfig'', kubeconfig s), (''kube-api-qps'', ff (kubeAPIQPS s)), (''kube-api-burst'', fi (kubeAPIBurst s)),
      (''poll-interval'', fd (pollInterval s)), (''ttl'', fd (set_ttl s)), (''probe-timeout'', fd (probeTimeout s)),
      (''max-concurrency'', fi (maxConcurrency s)), (''max-concurrent-clusters'', fi (maxConcurrentClusters s)),
      (''max-concurrent-streams'', fi (MaxConcurrentStreams (set_limits s))), (''max-discovery-connections'', fi (MaxConnections (set_limits s))),
      (''max-discovery-rpcs'', fi (MaxRPCs (set_limits s))), (''max-discovery-watches'', fi (MaxWatches (set_limits s))),
      (''initial-request-timeout'', fd (word_of_int (InitialRequestTimeout (set_limits s)))), (''insecure'', FormatBool (insecure s)),
      (''version'', FormatBool (showVersion s))]"

definition flag_args :: "(int \<Rightarrow> string) \<Rightarrow> (go_float \<Rightarrow> string) \<Rightarrow> (64 word \<Rightarrow> string) \<Rightarrow> settings \<Rightarrow> string list" where
  "flag_args fi ff fd s = map flag_line (flag_values fi ff fd s)"

text \<open>The numbers of the settings are read as they are written.\<close>

definition flags_readable :: "flag_parsers \<Rightarrow> (int \<Rightarrow> string) \<Rightarrow> (go_float \<Rightarrow> string) \<Rightarrow> (64 word \<Rightarrow> string) \<Rightarrow> settings \<Rightarrow> bool" where
  "flags_readable P fi ff fd s \<longleftrightarrow>
     (\<forall>i \<in> set [kubeAPIBurst s, maxConcurrency s, maxConcurrentClusters s, MaxConcurrentStreams (set_limits s), MaxConnections (set_limits s),
        MaxRPCs (set_limits s), MaxWatches (set_limits s)]. ParseInt P (fi i) = Some i) \<and>
     (\<forall>d \<in> set [pollInterval s, set_ttl s, probeTimeout s, word_of_int (InitialRequestTimeout (set_limits s))]. flag_ParseDuration P (fd d) = Some d) \<and>
     ParseFloat P (ff (kubeAPIQPS s)) = Some (kubeAPIQPS s)"

definition plain_name :: "string \<Rightarrow> bool" where
  "plain_name name \<longleftrightarrow> (case name of [] \<Rightarrow> False | c # cs \<Rightarrow> c \<noteq> CHR ''-'' \<and> c \<noteq> CHR ''='' \<and> CHR ''='' \<notin> set cs)"

lemma flag_names_plain: "list_all plain_name flag_names"
  by code_simp

lemma flag_token_line: "plain_name name \<Longrightarrow> flag_token (flag_line (name, v)) = FlagName name (Some v)"
  by (auto simp: plain_name_def flag_token_def flag_line_def strings_Cut_first split: list.splits)

lemma loop_line:
  assumes "name \<in> set flag_names" and "set_flag P name v s = Some s'"
  shows "flags_loop P s explicit (flag_line (name, v) # args) = flags_loop P s' (name # explicit) args"
  using assms flag_names_plain by (simp add: flags_loop.simps flag_token_line list_all_iff)

lemma loop_lines:
  assumes "fst ` set vs \<subseteq> set flag_names" and "fold (\<lambda>(n, v) s. Option.bind s (set_flag P n v)) vs (Some s) = Some s'"
  shows "flags_loop P s explicit (map flag_line vs) = FlagValues s' (rev (map fst vs) @ explicit) 0"
  using assms
proof (induction vs arbitrary: s explicit)
  case (Cons nv vs)
  obtain n v where nv: "nv = (n, v)" by fastforce
  have stuck: "fold (\<lambda>(n, v) s. Option.bind s (set_flag P n v)) vs None = None" by (induction vs) auto
  then obtain s1 where s1: "set_flag P n v s = Some s1" using Cons.prems(2) by (cases "set_flag P n v s") (auto simp: nv)
  then show ?case using Cons loop_line [OF _ s1] by (simp add: nv)
qed (simp add: flags_loop.simps)

lemmas flag_tables = string_flags_def int_flags_def duration_flags_def bool_flags_def

lemma ParseBool_FormatBool: "ParseBool (FormatBool b) = Some b"
  by (simp add: ParseBool_def FormatBool_def)

text \<open>
  C39: every setting can be given on the command line and is read back exactly: settings written as flags, in the order of
  the declarations, parse to themselves, whatever their strings contain.
\<close>

theorem flags_roundtrip:
  assumes "flags_readable P fi ff fd s" and "- (2 ^ 63) \<le> InitialRequestTimeout (set_limits s)" and "InitialRequestTimeout (set_limits s) < 2 ^ 63"
  shows "parseSettings P (flag_args fi ff fd s) = Flags s"
proof -
  have timeout: "sint (word_of_int (InitialRequestTimeout (set_limits s)) :: 64 word) = InitialRequestTimeout (set_limits s)"
    using signed_take_bit_int_eq_self [OF assms(2,3)] by (simp add: signed_of_int [where 'a = int and 'b = 64, simplified])
  have ints: "ParseInt P (fi (kubeAPIBurst s)) = Some (kubeAPIBurst s)" "ParseInt P (fi (maxConcurrency s)) = Some (maxConcurrency s)"
    "ParseInt P (fi (maxConcurrentClusters s)) = Some (maxConcurrentClusters s)"
    "ParseInt P (fi (MaxConcurrentStreams (set_limits s))) = Some (MaxConcurrentStreams (set_limits s))"
    "ParseInt P (fi (MaxConnections (set_limits s))) = Some (MaxConnections (set_limits s))"
    "ParseInt P (fi (MaxRPCs (set_limits s))) = Some (MaxRPCs (set_limits s))" "ParseInt P (fi (MaxWatches (set_limits s))) = Some (MaxWatches (set_limits s))"
    and durations: "flag_ParseDuration P (fd (pollInterval s)) = Some (pollInterval s)" "flag_ParseDuration P (fd (set_ttl s)) = Some (set_ttl s)"
    "flag_ParseDuration P (fd (probeTimeout s)) = Some (probeTimeout s)"
    "flag_ParseDuration P (fd (word_of_int (InitialRequestTimeout (set_limits s)))) = Some (word_of_int (InitialRequestTimeout (set_limits s)))"
    and rate: "ParseFloat P (ff (kubeAPIQPS s)) = Some (kubeAPIQPS s)"
    using assms(1) by (simp_all add: flags_readable_def)
  have all: "fold (\<lambda>(n, v) s. Option.bind s (set_flag P n v)) (flag_values fi ff fd s) (Some default_settings) = Some s"
    by (simp add: flag_values_def set_flag_def flag_tables set_limit_def ints durations rate ParseBool_FormatBool default_settings_def timeout)
  have "fst ` set (flag_values fi ff fd s) \<subseteq> set flag_names" by (simp add: flag_values_def flag_names_def flag_tables)
  from loop_lines [OF this all, of "[]"] show ?thesis
    by (simp add: parseSettings_def flags_result_def flag_args_def parse_finish_def flag_values_def)
qed

text \<open>Decimal notation for the numbers that are not negative, durations in nanoseconds.\<close>

definition decimal :: flag_parsers where
  "decimal = \<lparr>ParseInt = (\<lambda>v. Some (int (read_nat v))), ParseFloat = (\<lambda>v. Some (Fin (of_nat (read_nat v)))),
     flag_ParseDuration = (\<lambda>v. Some (of_nat (read_nat v)))\<rparr>"

definition decimal_float :: "go_float \<Rightarrow> string" where
  "decimal_float x = (case x of Fin q \<Rightarrow> show_nat (nat \<lfloor>q\<rfloor>) | _ \<Rightarrow> ''NaN'')"

definition odd_settings :: settings where
  "odd_settings = default_settings\<lparr>insecure := True, pluginAddress := ''--ttl=1s'', set_namespace := ''-''\<rparr>"

theorem flags_roundtrip_witness:
  "parseSettings decimal (flag_args (\<lambda>i. show_nat (nat i)) decimal_float (\<lambda>d. show_nat (unat d)) odd_settings) = Flags odd_settings"
proof (rule flags_roundtrip)
  show "flags_readable decimal (\<lambda>i. show_nat (nat i)) decimal_float (\<lambda>d. show_nat (unat d)) odd_settings"
    by (simp add: flags_readable_def decimal_def decimal_float_def read_show_nat odd_settings_def default_settings_def DefaultLimits_def)
qed (simp_all add: odd_settings_def default_settings_def DefaultLimits_def Second_def)

end
