(* ===== verification/Watch_Health.thy ===== *)
theory Watch_Health
  imports Observer
begin

text \<open>
  The health of the Kubernetes watches, \<open>internal/observer/watch.go\<close>. Every watch owns a flag; the health
  of a resource is the flag of the watch that began last. The observer publishes only while all three
  resources are healthy (the watch fields of the observer state and \<open>Ready\<close>). The API server's
  events and the client library are the steps.
\<close>

section \<open>Operations\<close>

text \<open>
  \<open>watchHealth\<close>: the flags allocated so far and the current one. A watch is starting (\<open>startWatch\<close> waits for
  the API server), forwards events (the goroutine of \<open>trackWatch\<close>), or is over; the second component
  records whether it has forwarded an error.
\<close>

datatype watch_state = Starting | Forwarding bool | Over_watch

record watchHealth =
  whFlags :: "bool list"
  whCurrent :: "nat option"

definition watch_begin :: "watchHealth \<Rightarrow> nat \<times> watchHealth" where
  "watch_begin h = (length (whFlags h), h\<lparr>whFlags := whFlags h @ [False], whCurrent := Some (length (whFlags h))\<rparr>)"

definition watch_Load :: "watchHealth \<Rightarrow> bool" where
  "watch_Load h = (case whCurrent h of None \<Rightarrow> False | Some i \<Rightarrow> whFlags h ! i)"

definition watch_Store :: "nat \<Rightarrow> bool \<Rightarrow> watchHealth \<Rightarrow> watchHealth" where
  "watch_Store i b h = h\<lparr>whFlags := (whFlags h)[i := b]\<rparr>"

text \<open>The lifetime of a watch and the timeout sent to the API server, in seconds.\<close>

definition watch_lifetime :: "Options \<Rightarrow> duration" where
  "watch_lifetime opt = min (30 * Second) (optTTL opt div 2)"

definition watch_timeoutSeconds :: "Options \<Rightarrow> int" where
  "watch_timeoutSeconds opt = max 1 (watch_lifetime opt div Second)"

text \<open>
  \<open>startWatch\<close> after the call to the API server: it fails, or the context ended meanwhile, and the flag stays
  down; otherwise \<open>trackWatch\<close> raises it.
\<close>

definition startWatch_end :: "nat \<Rightarrow> bool \<Rightarrow> bool \<Rightarrow> watchHealth \<Rightarrow> watch_state \<times> watchHealth" where
  "startWatch_end i startErr ctxErr h =
     (if startErr \<or> ctxErr then (Over_watch, h) else (Forwarding False, watch_Store i True h))"

text \<open>One event of the source, and the end of the goroutine.\<close>

definition trackWatch_event :: "nat \<Rightarrow> bool \<Rightarrow> bool \<Rightarrow> watchHealth \<Rightarrow> watch_state \<times> watchHealth" where
  "trackWatch_event i failed isError h =
     (Forwarding (failed \<or> isError), if isError then watch_Store i False h else h)"

definition trackWatch_end :: "nat \<Rightarrow> watchHealth \<Rightarrow> watch_state \<times> watchHealth" where
  "trackWatch_end i h = (Over_watch, watch_Store i False h)"

definition no_watch :: watchHealth where
  "no_watch = \<lparr>whFlags = [], whCurrent = None\<rparr>"

section \<open>All watches of a resource\<close>

inductive watch_step :: "watchHealth \<times> watch_state list \<Rightarrow> watchHealth \<times> watch_state list \<Rightarrow> bool" where
  begins: "watch_begin h = (i, h') \<Longrightarrow> watch_step (h, ws) (h', ws @ [Starting])"
| started: "i < length ws \<Longrightarrow> ws ! i = Starting \<Longrightarrow> startWatch_end i startErr ctxErr h = (w, h') \<Longrightarrow> watch_step (h, ws) (h', ws[i := w])"
| event: "i < length ws \<Longrightarrow> ws ! i = Forwarding failed \<Longrightarrow> trackWatch_event i failed isError h = (w, h') \<Longrightarrow> watch_step (h, ws) (h', ws[i := w])"
| ends: "i < length ws \<Longrightarrow> ws ! i = Forwarding failed \<Longrightarrow> trackWatch_end i h = (w, h') \<Longrightarrow> watch_step (h, ws) (h', ws[i := w])"

inductive watch_reach :: "watchHealth \<times> watch_state list \<Rightarrow> bool" where
  start: "watch_reach (no_watch, [])"
| step: "watch_reach \<sigma> \<Longrightarrow> watch_step \<sigma> \<tau> \<Longrightarrow> watch_reach \<tau>"

definition watch_inv :: "watchHealth \<times> watch_state list \<Rightarrow> bool" where
  "watch_inv \<sigma> \<longleftrightarrow> (case \<sigma> of (h, ws) \<Rightarrow>
     whFlags h = map (\<lambda>w. w = Forwarding False) ws \<and> whCurrent h = (if ws = [] then None else Some (length ws - 1)))"

lemma update_same: "i < length xs \<Longrightarrow> xs ! i = b \<Longrightarrow> xs[i := b] = xs"
  by auto

lemma watch_step_inv: "watch_step \<sigma> \<tau> \<Longrightarrow> watch_inv \<sigma> \<Longrightarrow> watch_inv \<tau>"
proof (induction rule: watch_step.induct)
  case (begins h i h' ws)
  then show ?case by (auto simp: watch_inv_def watch_begin_def)
next
  case (started i ws startErr ctxErr h w h')
  then show ?case by (auto simp: watch_inv_def startWatch_end_def watch_Store_def map_update update_same split: if_splits)
next
  case (event i ws failed isError h w h')
  then show ?case by (auto simp: watch_inv_def trackWatch_event_def watch_Store_def map_update update_same split: if_splits)
next
  case (ends i ws failed h w h')
  then show ?case by (auto simp: watch_inv_def trackWatch_end_def watch_Store_def map_update)
qed

lemma watch_reach_inv: "watch_reach \<sigma> \<Longrightarrow> watch_inv \<sigma>"
proof (induction rule: watch_reach.induct)
  case start
  then show ?case by (simp add: watch_inv_def no_watch_def)
qed (rule watch_step_inv)

text \<open>
  Health follows the current watch only. In every interleaving of watches of one resource, it is
  healthy exactly when the watch that began last is established, has not ended and has reported no
  error. So a retiring watch neither keeps an unhealthy resource healthy nor takes down its
  replacement, and a new watch is unhealthy until it is established. A watch lives for at most half
  the validity of a snapshot and the API server is asked for a timeout of at least a second.
\<close>

theorem health_of_current_watch:
  assumes "watch_reach (h, ws)"
  shows "(watch_Load h \<longleftrightarrow> ws \<noteq> [] \<and> last ws = Forwarding False) \<and>
    (\<forall>i w. Suc i < length ws \<longrightarrow> watch_Load (watch_Store i w h) = watch_Load h) \<and>
    (\<forall>opt. 0 \<le> optTTL opt \<longrightarrow> 2 * watch_lifetime opt \<le> optTTL opt \<and> watch_lifetime opt \<le> 30 * Second \<and> 1 \<le> watch_timeoutSeconds opt)"
proof -
  have inv: "whFlags h = map (\<lambda>w. w = Forwarding False) ws" "whCurrent h = (if ws = [] then None else Some (length ws - 1))"
    using watch_reach_inv [OF assms] by (simp_all add: watch_inv_def)
  have "watch_Load h \<longleftrightarrow> ws \<noteq> [] \<and> last ws = Forwarding False"
    by (simp add: watch_Load_def inv last_conv_nth)
  moreover have "watch_Load (watch_Store i w h) = watch_Load h" if "Suc i < length ws" for i w
    using that by (simp add: watch_Load_def watch_Store_def inv nth_list_update)
  ultimately show ?thesis by (auto simp: watch_lifetime_def watch_timeoutSeconds_def)
qed

definition replaced_watch :: "watchHealth \<times> watch_state list" where
  "replaced_watch = (\<lparr>whFlags = [False, True], whCurrent = Some 1\<rparr>, [Over_watch, Forwarding False])"

lemma replaced_watch_reach: "watch_reach replaced_watch"
proof -
  have 1: "watch_reach (\<lparr>whFlags = [False], whCurrent = Some 0\<rparr>, [] @ [Starting])"
    by (rule watch_reach.step [OF watch_reach.start watch_step.begins]) (simp add: watch_begin_def no_watch_def)
  have 2: "watch_reach (\<lparr>whFlags = [True], whCurrent = Some 0\<rparr>, [Starting][0 := Forwarding False])"
    by (rule watch_reach.step [OF 1 [simplified] watch_step.started [where startErr = False and ctxErr = False]])
      (simp_all add: startWatch_end_def watch_Store_def)
  have 3: "watch_reach (\<lparr>whFlags = [True, False], whCurrent = Some 1\<rparr>, [Forwarding False] @ [Starting])"
    by (rule watch_reach.step [OF 2 [simplified] watch_step.begins]) (simp add: watch_begin_def)
  have 4: "watch_reach (\<lparr>whFlags = [True, True], whCurrent = Some 1\<rparr>, [Forwarding False, Starting][1 := Forwarding False])"
    by (rule watch_reach.step [OF 3 [simplified] watch_step.started [where startErr = False and ctxErr = False]])
      (simp_all add: startWatch_end_def watch_Store_def)
  have "watch_reach (\<lparr>whFlags = [False, True], whCurrent = Some 1\<rparr>, [Forwarding False, Forwarding False][0 := Over_watch])"
    by (rule watch_reach.step [OF 4 [simplified] watch_step.ends [where failed = False]]) (simp_all add: trackWatch_end_def watch_Store_def)
  then show ?thesis by (simp add: replaced_watch_def)
qed

theorem health_of_current_watch_witness: "watch_Load (fst replaced_watch) \<and> last (snd replaced_watch) = Forwarding False"
  using health_of_current_watch [of "fst replaced_watch" "snd replaced_watch"] replaced_watch_reach by (simp add: replaced_watch_def)

end
