(* ===== verification/Lifecycle.thy ===== *)
theory Lifecycle
  imports Worker Status_Client Public_CA
begin

text \<open>
  The life of the observer: \<open>New\<close> and \<open>Run\<close> of \<open>internal/observer/observer.go\<close>, the event handlers that
  \<open>initializeInformers\<close> of \<open>watch.go\<close> registers, and the loops of the workers that \<open>startWorkers\<close> of
  \<open>work.go\<close> starts. Informers are client-go's: they are helpers that end with the context, and their
  events arrive at any time.
\<close>

section \<open>Construction and events\<close>

text \<open>\<open>New\<close> with accepted options; contexts and clock readings are counted from 0.\<close>

definition New_observer :: "Options \<Rightarrow> 'd store \<Rightarrow> 'd observer" where
  "New_observer opt st = \<lparr>oStore = SetDemandHandler True (optTTL opt) st, oOut = [], oClusters = [], oPods = [], oSecrets = Map.empty,
     oReady = False, oClusterWatch = False, oPodWatch = False, oSecretWatch = False, oQueue = newObservationQueue, oRequeue = [],
     oDemandNext = Map.empty, oObservations = Map.empty, oSuperseded = [], oStopped = False, oPrimaries = Map.empty, oCAs = Map.empty,
     oCAReads = Map.empty, oCAPending = Map.empty, oCAQueue = [], oCACancelled = [], oCounters = (0, 0, 0), oNext = 0, oReads = 0\<rparr>"

datatype informer_event =
    ClusterAdded kobj | ClusterUpdated kobj kobj | ClusterRemoved kobj
  | PodAdded kobj | PodUpdated kobj kobj | PodRemoved kobj
  | SecretAdded kobj | SecretUpdated kobj kobj | SecretRemoved kobj

text \<open>The handler of each event; \<open>swap\<close> is the order in which \<open>podEvent\<close> visits two clusters.\<close>

fun informer_op :: "bool \<Rightarrow> informer_event \<Rightarrow> obs_op" where
  "informer_op swap (ClusterAdded x) = ClusterEventOp None (Some x)"
| "informer_op swap (ClusterUpdated x y) = ClusterEventOp (Some x) (Some y)"
| "informer_op swap (ClusterRemoved x) = ClusterDeletedOp (Some x)"
| "informer_op swap (PodAdded x) = PodEventOp swap None (Some x)"
| "informer_op swap (PodUpdated x y) = PodEventOp swap (Some x) (Some y)"
| "informer_op swap (PodRemoved x) = PodEventOp swap (Some x) None"
| "informer_op swap (SecretAdded x) = SecretEventOp (Some x)"
| "informer_op swap (SecretUpdated x y) = SecretEventOp (Some y)"
| "informer_op swap (SecretRemoved x) = SecretEventOp (Some x)"

section \<open>Run\<close>

text \<open>
  The phases of \<open>Run\<close>: waiting for the caches, the loop over the tickers, the deferred shutdown, and its
  return. \<open>Panicking\<close>: \<open>time.NewTicker\<close> was called with an interval that is not positive. A worker waits for
  or has a key, or its loop has ended. \<open>lcHelpers\<close> counts the informers and the workers of the CA queue.
\<close>

datatype lc_phase = Syncing | Ticking | Draining | Returned_run | Panicking

datatype lc_worker = Idle | Holds clusterKey | Gone

record ('d, 'h, 'r) lifecycle =
  lcPhase :: lc_phase
  lcReady :: bool
  lcCtxDone :: bool
  lcObs :: "'d observer"
  lcTurns :: "clusterKey \<rightharpoonup> turn"
  lcWorkers :: "lc_worker list"
  lcHelpers :: nat
  lcClients :: "('h, 'r) status_clients"

definition run_begin :: "Options \<Rightarrow> 'd store \<Rightarrow> ('d, 'h, 'r) lifecycle" where
  "run_begin opt st = \<lparr>lcPhase = Syncing, lcReady = False, lcCtxDone = False, lcObs = New_observer opt st, lcTurns = Map.empty,
     lcWorkers = [], lcHelpers = 3, lcClients = no_clients\<rparr>"

definition expiry_interval :: "Options \<Rightarrow> duration" where
  "expiry_interval opt = min Second (optTTL opt div 4)"

text \<open>
  The caches are synchronised: ready, workers started, tickers created. A ticker without a positive interval panics; what
  the deferred functions of \<open>Run\<close> still do while the process dies is not followed.
\<close>

definition run_synced :: "Options \<Rightarrow> ('d, 'h, 'r) lifecycle \<Rightarrow> ('d, 'h, 'r) lifecycle" where
  "run_synced opt l = l\<lparr>lcReady := True, lcHelpers := lcHelpers l + nat (ca_workers opt),
     lcWorkers := replicate (nat (optMaxConcurrentClusters opt)) Idle,
     lcPhase := (if expiry_interval opt \<le> 0 then Panicking else Ticking)\<rparr>"

definition run_expiry :: "'d oenv \<Rightarrow> time \<Rightarrow> clusterKey list \<Rightarrow> ('d, 'h, 'r) lifecycle \<Rightarrow> ('d, 'h, 'r) lifecycle" where
  "run_expiry E now order l = l\<lparr>lcObs := (lcObs l)\<lparr>oStore := Expire (digest E) now order (oStore (lcObs l))\<rparr>\<rparr>"

text \<open>\<open>pruneConnections\<close>; the lists are the orders of iteration over the two maps.\<close>

definition pruneConnections :: "'d oenv \<Rightarrow> time \<Rightarrow> clusterKey list \<Rightarrow> string list \<Rightarrow> ('d, 'h, 'r) lifecycle \<Rightarrow> ('d, 'h, 'r) lifecycle" where
  "pruneConnections E now cas names l =
     l\<lparr>lcObs := prune_cas E cas (lcObs l), lcClients := prune_clients names now (lcClients l)\<rparr>"

text \<open>The deferred function up to \<open>workers.Wait()\<close>, and what follows it.\<close>

definition run_drain :: "('d, 'h, 'r) lifecycle \<Rightarrow> ('d, 'h, 'r) lifecycle" where
  "run_drain l = l\<lparr>lcPhase := Draining, lcObs := (lcObs l)\<lparr>oQueue := ShutDown (oQueue (lcObs l))\<rparr>\<rparr>"

definition run_return :: "string list \<Rightarrow> ('d, 'h, 'r) lifecycle \<Rightarrow> ('d, 'h, 'r) lifecycle" where
  "run_return names l = l\<lparr>lcPhase := Returned_run, lcClients := closeStatusClients names (lcClients l), lcReady := False\<rparr>"

section \<open>Workers\<close>

text \<open>The observer as a section of the code sees it, with the two flags that \<open>Run\<close> and the context own.\<close>

definition view :: "('d, 'h, 'r) lifecycle \<Rightarrow> 'd observer" where
  "view l = (lcObs l)\<lparr>oReady := lcReady l, oStopped := lcCtxDone l\<rparr>"

text \<open>Worker \<open>i\<close> takes only urgent keys when it is one of the reserved ones.\<close>

definition urgent_only :: "Options \<Rightarrow> nat \<Rightarrow> bool" where
  "urgent_only opt i \<longleftrightarrow> int i < urgent_workers opt"

definition worker_takes :: "nat \<Rightarrow> clusterKey \<Rightarrow> priorityQueue \<Rightarrow> ('d, 'h, 'r) lifecycle \<Rightarrow> ('d, 'h, 'r) lifecycle" where
  "worker_takes i key q l = l\<lparr>lcObs := (lcObs l)\<lparr>oQueue := q\<rparr>, lcTurns := (lcTurns l)(key \<mapsto> Taken), lcWorkers := (lcWorkers l)[i := Holds key]\<rparr>"

definition worker_observes :: "clusterKey \<Rightarrow> nat \<Rightarrow> bool \<Rightarrow> 'd observer \<Rightarrow> ('d, 'h, 'r) lifecycle \<Rightarrow> ('d, 'h, 'r) lifecycle" where
  "worker_observes key ctx isUrgent s l = l\<lparr>lcObs := s, lcTurns := (lcTurns l)(key \<mapsto> Running ctx isUrgent)\<rparr>"

definition worker_done :: "nat \<Rightarrow> clusterKey \<Rightarrow> bool \<Rightarrow> 'd observer \<Rightarrow> ('d, 'h, 'r) lifecycle \<Rightarrow> ('d, 'h, 'r) lifecycle" where
  "worker_done i key again s l = l\<lparr>lcObs := queue_Done key s, lcTurns := (lcTurns l)(key := None),
     lcWorkers := (lcWorkers l)[i := (if again then Idle else Gone)]\<rparr>"

definition worker_exits :: "nat \<Rightarrow> ('d, 'h, 'r) lifecycle \<Rightarrow> ('d, 'h, 'r) lifecycle" where
  "worker_exits i l = l\<lparr>lcWorkers := (lcWorkers l)[i := Gone]\<rparr>"

text \<open>
  The steps of \<open>Run\<close> and of its workers. While an observation runs, its probes may do anything to the status
  clients. \<open>synced\<close> does not depend on the context, because \<open>WaitForCacheSync\<close> may return true after it is done.
\<close>

inductive lc_own :: "'d oenv \<Rightarrow> ('d, 'h, 'r) lifecycle \<Rightarrow> ('d, 'h, 'r) lifecycle \<Rightarrow> bool" for E where
  synced: "lcPhase l = Syncing \<Longrightarrow> lc_own E l (run_synced (opts E) l)"
| abandoned: "lcPhase l = Syncing \<Longrightarrow> lcCtxDone l \<Longrightarrow> lc_own E l (run_drain l)"
| expiry: "lcPhase l = Ticking \<Longrightarrow> lc_own E l (run_expiry E now order l)"
| cleanup: "lcPhase l = Ticking \<Longrightarrow> lc_own E l (pruneConnections E now cas names l)"
| stopped: "lcPhase l = Ticking \<Longrightarrow> lcCtxDone l \<Longrightarrow> lc_own E l (run_drain l)"
| takes: "i < length (lcWorkers l) \<Longrightarrow> lcWorkers l ! i = Idle \<Longrightarrow>
    get (urgent_only (opts E) i) (oQueue (lcObs l)) = (Returns key False, q) \<Longrightarrow> lc_own E l (worker_takes i key q l)"
| exits: "i < length (lcWorkers l) \<Longrightarrow> lcWorkers l ! i = Idle \<Longrightarrow>
    get (urgent_only (opts E) i) (oQueue (lcObs l)) = (Returns key True, q) \<Longrightarrow> lc_own E l (worker_exits i l)"
| observes: "i < length (lcWorkers l) \<Longrightarrow> lcWorkers l ! i = Holds key \<Longrightarrow> lcTurns l key = Some Taken \<Longrightarrow>
    work_begin E key (view l) = (Observing ctx u, t) \<Longrightarrow> lc_own E l (worker_observes key ctx u t l)"
| passes: "i < length (lcWorkers l) \<Longrightarrow> lcWorkers l ! i = Holds key \<Longrightarrow> lcTurns l key = Some Taken \<Longrightarrow>
    work_begin E key (view l) = (plan, t) \<Longrightarrow> plan = Stop \<or> plan = TurnOver \<Longrightarrow> lc_own E l (worker_done i key (plan = TurnOver) t l)"
| finishes: "i < length (lcWorkers l) \<Longrightarrow> lcWorkers l ! i = Holds key \<Longrightarrow> lcTurns l key = Some (Running ctx u) \<Longrightarrow>
    lc_own E l (worker_done i key True (work_end E key ctx u observed (view l)) l)"
| probes: "i < length (lcWorkers l) \<Longrightarrow> lcWorkers l ! i = Holds key \<Longrightarrow> lcTurns l key = Some (Running ctx u) \<Longrightarrow>
    lc_own E l (l\<lparr>lcClients := st\<rparr>)"
| helper_ends: "lcCtxDone l \<Longrightarrow> 0 < lcHelpers l \<Longrightarrow> lc_own E l (l\<lparr>lcHelpers := lcHelpers l - 1\<rparr>)"
| returns: "lcPhase l = Draining \<Longrightarrow> set (lcWorkers l) \<subseteq> {Gone} \<Longrightarrow> lcHelpers l = 0 \<Longrightarrow> lc_own E l (run_return names l)"

text \<open>
  Everything else: the context ends, a handler runs (informer events, hooks, demand, the sections of an
  observation and of a CA read), a delay of the queue ends, caches and watches change.
\<close>

inductive lc_env :: "'d oenv \<Rightarrow> ('d, 'h, 'r) lifecycle \<Rightarrow> ('d, 'h, 'r) lifecycle \<Rightarrow> bool" for E where
  context_ends: "lc_env E l (l\<lparr>lcCtxDone := True\<rparr>)"
| event: "obs_run E (informer_op swap ev) (view l) = Some t \<Longrightarrow> lc_env E l (l\<lparr>lcObs := t\<rparr>)"
| handler: "obs_run E x (view l) = Some t \<Longrightarrow> foreign x \<Longrightarrow> lc_env E l (l\<lparr>lcObs := t\<rparr>)"
| delayed: "lc_env E l (l\<lparr>lcObs := queue_Add key (lcObs l)\<rparr>)"
| caches: "oObservations t = oObservations (lcObs l) \<Longrightarrow> oQueue t = oQueue (lcObs l) \<Longrightarrow> lc_env E l (l\<lparr>lcObs := t\<rparr>)"

inductive lc_reach :: "'d oenv \<Rightarrow> ('d, 'h, 'r) lifecycle \<Rightarrow> bool" for E where
  start: "NewStore rand = Some st \<Longrightarrow> lc_reach E (run_begin (opts E) st)"
| own: "lc_reach E l \<Longrightarrow> lc_own E l l' \<Longrightarrow> lc_reach E l'"
| env: "lc_reach E l \<Longrightarrow> lc_env E l l' \<Longrightarrow> lc_reach E l'"

lemmas lc_defs = run_begin_def run_synced_def run_expiry_def pruneConnections_def run_drain_def run_return_def
  worker_takes_def worker_observes_def worker_done_def worker_exits_def

inductive_cases lc_ownE: "lc_own E l l'"
inductive_cases lc_envE: "lc_env E l l'"

section \<open>Invariant\<close>

text \<open>Every turn is one worker's, and every worker that has a key is on a turn.\<close>

definition holder :: "lc_worker list \<Rightarrow> clusterKey \<Rightarrow> nat \<Rightarrow> bool" where
  "holder ws key i \<longleftrightarrow> i < length ws \<and> ws ! i = Holds key"

definition holds_inv :: "(clusterKey \<rightharpoonup> turn) \<Rightarrow> lc_worker list \<Rightarrow> bool" where
  "holds_inv T ws \<longleftrightarrow> (\<forall>key. key \<in> dom T \<longleftrightarrow> (\<exists>i. holder ws key i)) \<and> (\<forall>key i j. holder ws key i \<and> holder ws key j \<longrightarrow> i = j)"

lemma holder_update: "i < length ws \<Longrightarrow> holder (ws[i := w]) key j \<longleftrightarrow> j = i \<and> w = Holds key \<or> j \<noteq> i \<and> holder ws key j"
  by (auto simp: holder_def nth_list_update)

lemma holds_take:
  assumes "holds_inv T ws" and "key \<notin> dom T" and "i < length ws" and "ws ! i = Idle"
  shows "holds_inv (T(key \<mapsto> x)) (ws[i := Holds key])"
proof -
  have "\<not> holder ws k i" for k using assms(4) by (simp add: holder_def)
  then have h: "holder (ws[i := Holds key]) k j \<longleftrightarrow> k = key \<and> j = i \<or> holder ws k j" for k j
    unfolding holder_update [OF assms(3)] by blast
  have "\<not> holder ws key j" for j using assms(1,2) unfolding holds_inv_def by blast
  then show ?thesis using assms(1) unfolding holds_inv_def h by (simp del: domIff) blast
qed

lemma holds_done:
  assumes "holds_inv T ws" and "i < length ws" and "ws ! i = Holds key" and "\<And>k. w \<noteq> Holds k"
  shows "holds_inv (T(key := None)) (ws[i := w])"
proof -
  have i: "holder ws k i \<longleftrightarrow> k = key" for k using assms(2,3) by (auto simp: holder_def)
  then have "holder ws key j \<longleftrightarrow> j = i" for j using assms(1) unfolding holds_inv_def by blast
  with i have h: "holder (ws[i := w]) k j \<longleftrightarrow> k \<noteq> key \<and> holder ws k j" for k j
    unfolding holder_update [OF assms(2)] using assms(4) by blast
  show ?thesis using assms(1) unfolding holds_inv_def h by (simp del: domIff) blast
qed

lemma holds_again: "holds_inv T ws \<Longrightarrow> key \<in> dom T \<Longrightarrow> holds_inv (T(key \<mapsto> x)) ws"
  by (simp add: holds_inv_def insert_absorb del: domIff)

lemma holds_exit:
  assumes "holds_inv T ws" and "i < length ws" and "ws ! i = Idle"
  shows "holds_inv T (ws[i := Gone])"
proof -
  have "\<not> holder ws k i" for k using assms(3) by (simp add: holder_def)
  then have "holder (ws[i := Gone]) = holder ws" unfolding fun_eq_iff holder_update [OF assms(2)] by blast
  then show ?thesis using assms(1) by (simp add: holds_inv_def)
qed

text \<open>A queue that is shutting down stays so.\<close>

lemma shuttingDown_frame:
  "shuttingDown (Add key q) = shuttingDown q" "shuttingDown (promote key q) = shuttingDown q" "shuttingDown (Done key q) = shuttingDown q"
  "shuttingDown (snd (get u q)) = shuttingDown q" "shuttingDown (ShutDown q)"
  by (simp_all add: Add_def promote_def Done_def get_def ShutDown_def push_def Broadcast_def Let_def split: option.splits)

lemma shuttingDown_quiet: "quiet s t \<Longrightarrow> shuttingDown (oQueue s) \<Longrightarrow> shuttingDown (oQueue t)"
proof -
  have step: "scheduling x \<Longrightarrow> shuttingDown (queue_step x q) = shuttingDown q" for x q
    by (cases x) (simp_all add: shuttingDown_frame)
  have "list_all scheduling xs \<Longrightarrow> shuttingDown (queue_run xs q) = shuttingDown q" for xs q
    by (induction xs arbitrary: q) (simp_all add: step)
  then show "quiet s t \<Longrightarrow> shuttingDown (oQueue s) \<Longrightarrow> shuttingDown (oQueue t)" by (auto simp: quiet_def)
qed

definition lc_inv :: "('d, 'h, 'r) lifecycle \<Rightarrow> bool" where
  "lc_inv l \<longleftrightarrow> turn_inv (lcObs l, lcTurns l) \<and> holds_inv (lcTurns l) (lcWorkers l) \<and>
     (lcPhase l = Syncing \<longrightarrow> \<not> lcReady l \<and> lcWorkers l = []) \<and>
     (lcPhase l = Draining \<or> lcPhase l = Returned_run \<longrightarrow> lcCtxDone l \<and> shuttingDown (oQueue (lcObs l))) \<and>
     (lcPhase l = Returned_run \<longrightarrow> \<not> lcReady l \<and> set (lcWorkers l) \<subseteq> {Gone} \<and> lcHelpers l = 0 \<and> scEntries (lcClients l) = Map.empty)"

lemma turn_inv_same: "oObservations t = oObservations s \<Longrightarrow> oQueue t = oQueue s \<Longrightarrow> turn_inv (t, T) = turn_inv (s, T)"
  by (simp add: turn_inv_def)

lemma view_frame [frame_simps]: "oObservations (view l) = oObservations (lcObs l)" "oQueue (view l) = oQueue (lcObs l)"
  by (simp_all add: view_def)

lemma turn_inv_view: "turn_inv (view l, T) = turn_inv (lcObs l, T)"
  by (rule turn_inv_same) (simp_all add: frame_simps)

text \<open>What a change of the observer alone has to keep.\<close>

lemma lc_inv_obs:
  assumes "lc_inv l" and "turn_inv (t, lcTurns l)" and "shuttingDown (oQueue (lcObs l)) \<Longrightarrow> shuttingDown (oQueue t)"
  shows "lc_inv (l\<lparr>lcObs := t\<rparr>)"
  using assms unfolding lc_inv_def by simp

lemma lc_inv_quiet:
  assumes "lc_inv l" and "quiet (view l) t"
  shows "lc_inv (l\<lparr>lcObs := t\<rparr>)"
proof (rule lc_inv_obs [OF assms(1)])
  have "turn_inv (view l, lcTurns l)" using assms(1) by (simp add: lc_inv_def turn_inv_view)
  then show "turn_inv (t, lcTurns l)" by (rule quiet_inv [OF assms(2)])
  show "shuttingDown (oQueue (lcObs l)) \<Longrightarrow> shuttingDown (oQueue t)" using shuttingDown_quiet [OF assms(2)] by (simp add: frame_simps)
qed

lemma informer_foreign: "foreign (informer_op swap ev)"
  by (cases ev) simp_all

lemma quiet_queue_Add: "quiet s (queue_Add key s)"
  by (rule quiet_queue [where xs = "[AddOp key]"]) (simp_all add: queue_Add_def)

lemma lc_env_inv: "lc_env E l l' \<Longrightarrow> lc_inv l \<Longrightarrow> lc_inv l'"
proof (induction rule: lc_env.induct)
  case (context_ends l)
  then show ?case by (simp add: lc_inv_def)
next
  case (event swap ev l t)
  then show ?case using lc_inv_quiet quiet_run informer_foreign by blast
next
  case (handler x l t)
  then show ?case using lc_inv_quiet quiet_run by blast
next
  case (delayed l key)
  show ?case
    by (rule lc_inv_obs [OF delayed])
      (use delayed quiet_inv [OF quiet_queue_Add] shuttingDown_quiet [OF quiet_queue_Add] in \<open>auto simp: lc_inv_def\<close>)
next
  case (caches t l)
  show ?case by (rule lc_inv_obs [OF caches(3)]) (use caches turn_inv_same [of t "lcObs l"] in \<open>auto simp: lc_inv_def\<close>)
qed

text \<open>The workers' steps are turns, so they keep what turns keep.\<close>

lemma lc_inv_worker:
  assumes "lc_inv l" and "turn_inv (t, T)" and "shuttingDown (oQueue t) = shuttingDown (oQueue (lcObs l))" and "holds_inv T ws"
    and "i < length (lcWorkers l)" and "lcWorkers l ! i \<noteq> Gone"
  shows "lc_inv (l\<lparr>lcObs := t, lcTurns := T, lcWorkers := ws\<rparr>)"
proof -
  have "lcWorkers l \<noteq> []" "\<not> set (lcWorkers l) \<subseteq> {Gone}" using assms(5,6) by (auto simp: set_conv_nth)
  then show ?thesis using assms(1-4) unfolding lc_inv_def by simp
qed

lemma busy_worker: "i < length ws \<Longrightarrow> ws ! i \<noteq> Gone \<Longrightarrow> \<not> set ws \<subseteq> {Gone} \<and> ws \<noteq> []"
  by (auto simp: set_conv_nth)

lemma shuttingDown_begin: "work_begin E key s = (plan, t) \<Longrightarrow> shuttingDown (oQueue t) = shuttingDown (oQueue s)"
  using work_begin_over(2) [of E key s plan t] work_begin_observing(2) [of E key s _ _ t]
  by (cases plan) (auto simp: shuttingDown_frame)

lemma shuttingDown_end: "shuttingDown (oQueue (work_end E key ctx u observed s)) = shuttingDown (oQueue s)"
  using work_end_frame(2) [of E key ctx u observed s] by (elim disjE) (simp_all add: shuttingDown_frame)

lemma quiet_prune: "quiet s (prune_cas E cas s)"
proof (induction cas arbitrary: s)
  case (Cons key cas)
  have "quiet s (prune_ca E key s)"
    using quiet_trans [OF quiet_demandedCAClusters [of s E key] quiet_same [of "(snd (demandedCAClusters E key s))\<lparr>oCAs := _\<rparr>"]]
      quiet_demandedCAClusters [of s E key]
    by (simp add: prune_ca_def case_prod_beta)
  then show ?case using quiet_trans [OF _ Cons] by (simp add: prune_cas_def)
qed (simp add: prune_cas_def)

lemma run_drain_inv:
  assumes "lc_inv l" and "lcCtxDone l"
  shows "lc_inv (run_drain l)"
proof -
  have "turn_inv ((lcObs l)\<lparr>oQueue := ShutDown (oQueue (lcObs l))\<rparr>, lcTurns l)"
    by (rule turn_step_inv [OF turn_step.shutdown]) (use assms(1) in \<open>simp add: lc_inv_def\<close>)
  then show ?thesis using assms unfolding lc_inv_def run_drain_def by (simp add: shuttingDown_frame)
qed

lemma lc_own_inv: "lc_own E l l' \<Longrightarrow> lc_inv l \<Longrightarrow> lc_inv l'"
proof (induction rule: lc_own.induct)
  case (synced l)
  then have "lcWorkers l = []" "holds_inv (lcTurns l) (lcWorkers l)" unfolding lc_inv_def by blast+
  then have "holds_inv (lcTurns l) []" by simp
  then have "holds_inv (lcTurns l) (replicate n Idle)" for n by (auto simp: holds_inv_def holder_def)
  then show ?case using synced by (simp add: lc_inv_def run_synced_def)
next
  case (abandoned l)
  then show ?case by (intro run_drain_inv)
next
  case (expiry l now order)
  then show ?case using turn_inv_same [of "(lcObs l)\<lparr>oStore := _\<rparr>" "lcObs l"] by (simp add: lc_inv_def run_expiry_def)
next
  case (cleanup l now cas names)
  then show ?case using quiet_inv [OF quiet_prune, of "lcObs l" "lcTurns l" E cas] by (simp add: lc_inv_def pruneConnections_def)
next
  case (stopped l)
  then show ?case by (intro run_drain_inv)
next
  case (takes i l key q)
  have inv: "turn_inv (lcObs l, lcTurns l)" "holds_inv (lcTurns l) (lcWorkers l)" using takes.prems by (simp_all add: lc_inv_def)
  have "key \<notin> dom (lcTurns l)" using inv(1) get_available(1) [OF _ takes.hyps(3)] by (auto simp: turn_inv_def available_def active_keys_def')
  note h = holds_take [OF inv(2) this takes.hyps(1,2)]
  have "shuttingDown q = shuttingDown (oQueue (lcObs l))" using shuttingDown_frame(4) takes.hyps(3) by (metis snd_conv)
  then show ?case unfolding worker_takes_def
    by (intro lc_inv_worker [OF takes.prems turn_step_inv [OF turn_step.take [OF takes.hyps(3)] inv(1)] _ h takes.hyps(1)]) (simp_all add: takes.hyps(2))
next
  case (exits i l key q)
  then show ?case using holds_exit busy_worker by (auto simp: lc_inv_def worker_exits_def)
next
  case (observes i l key ctx u t)
  have inv: "turn_inv (view l, lcTurns l)" "holds_inv (lcTurns l) (lcWorkers l)" using observes.prems by (simp_all add: lc_inv_def turn_inv_view)
  have h: "holds_inv ((lcTurns l)(key \<mapsto> Running ctx u)) (lcWorkers l)" using holds_again [OF inv(2)] observes.hyps(3) by blast
  show ?case
    using lc_inv_worker [OF observes.prems turn_step_inv [OF turn_step.observe [of "lcTurns l", OF observes.hyps(3,4)] inv(1)] _ h observes.hyps(1)]
      observes.hyps(2) shuttingDown_begin [OF observes.hyps(4)]
    by (simp add: worker_observes_def frame_simps)
next
  case (passes i l key plan t)
  have inv: "turn_inv (view l, lcTurns l)" "holds_inv (lcTurns l) (lcWorkers l)" using passes.prems by (simp_all add: lc_inv_def turn_inv_view)
  show ?case unfolding worker_done_def
    by (intro lc_inv_worker [OF passes.prems turn_step_inv [OF turn_step.over [of "lcTurns l", OF passes.hyps(3-5)] inv(1)] _ holds_done [OF inv(2) passes.hyps(1,2)] passes.hyps(1)])
      (use passes.hyps(2) shuttingDown_begin [OF passes.hyps(4)] in \<open>simp_all add: frame_simps shuttingDown_frame\<close>)
next
  case (finishes i l key ctx u observed)
  have inv: "turn_inv (view l, lcTurns l)" "holds_inv (lcTurns l) (lcWorkers l)" using finishes.prems by (simp_all add: lc_inv_def turn_inv_view)
  show ?case unfolding worker_done_def
    by (intro lc_inv_worker [OF finishes.prems turn_step_inv [OF turn_step.finish [of "lcTurns l", OF finishes.hyps(3)] inv(1)] _ holds_done [OF inv(2) finishes.hyps(1,2)] finishes.hyps(1)])
      (use finishes.hyps(2) in \<open>simp_all add: frame_simps shuttingDown_frame shuttingDown_end\<close>)
next
  case (probes i l key ctx u st)
  then show ?case using busy_worker by (auto simp: lc_inv_def)
next
  case (helper_ends l)
  then show ?case by (simp add: lc_inv_def)
next
  case (returns l names)
  then show ?case by (simp add: lc_inv_def run_return_def closeStatusClients_def)
qed

lemma lc_reach_inv: "lc_reach E l \<Longrightarrow> lc_inv l"
proof (induction rule: lc_reach.induct)
  case (start rand st)
  have "turn_inv (New_observer (opts E) st, Map.empty)"
    by (rule turn_reach_inv [where E = E]) (rule turn_reach.start, simp_all add: New_observer_def)
  then show ?case by (simp add: lc_inv_def run_begin_def holds_inv_def holder_def)
qed (use lc_own_inv lc_env_inv in blast)+

section \<open>The shutdown ends\<close>

text \<open>
  The work left in a shutdown: a worker that observes ends its turn, may take one more key, and stops
  there, because the context is done.
\<close>

fun worker_left :: "(clusterKey \<rightharpoonup> turn) \<Rightarrow> lc_worker \<Rightarrow> nat" where
  "worker_left T Gone = 0"
| "worker_left T Idle = 2"
| "worker_left T (Holds key) = (case T key of Some (Running _ _) \<Rightarrow> 3 | _ \<Rightarrow> 1)"

definition drain_left :: "('d, 'h, 'r) lifecycle \<Rightarrow> nat" where
  "drain_left l = sum_list (map (worker_left (lcTurns l)) (lcWorkers l)) + lcHelpers l"

lemma worker_left_bound: "worker_left T w \<le> 3"
  by (cases w) (auto split: option.split turn.split)

lemma sum_update_less:
  fixes f :: "'a \<Rightarrow> nat"
  assumes "i < length ws" and "\<And>w. w \<in> set ws \<Longrightarrow> g w \<le> f w" and "g w' < f (ws ! i)"
  shows "sum_list (map g (ws[i := w'])) < sum_list (map f ws)"
  using assms
proof (induction ws arbitrary: i)
  case (Cons w ws)
  have le: "sum_list (map g ws) \<le> sum_list (map f ws)" using Cons.prems(2) by (intro sum_list_mono) simp
  show ?case
  proof (cases i)
    case 0
    then show ?thesis using Cons.prems(3) le by simp
  next
    case (Suc j)
    have "sum_list (map g (ws[j := w'])) < sum_list (map f ws)" using Cons Suc by simp
    then show ?thesis using Suc Cons.prems(2) [of w] by simp
  qed
qed simp

lemma worker_left_mono: "T' = T(key := None) \<or> T' = T(key \<mapsto> Taken) \<Longrightarrow> worker_left T' w \<le> worker_left T w"
  by (cases w) (auto split: option.split turn.split if_splits)

lemma stopped_plan: "lcCtxDone l \<Longrightarrow> work_begin E key (view l) = (plan, t) \<Longrightarrow> plan = Stop \<and> t = view l"
  by (simp add: work_begin_def view_def)

text \<open>While \<open>Run\<close> drains, its own steps use up work, or end it, or are probes of a running observation.\<close>

lemma drain_step:
  assumes "lc_own E l l'" and "lcPhase l = Draining" and "lcCtxDone l"
  shows "drain_left l' < drain_left l \<or> lcPhase l' = Returned_run \<and> drain_left l' = drain_left l \<or> (\<exists>st. l' = l\<lparr>lcClients := st\<rparr>)"
  using assms
proof (induction rule: lc_own.induct)
  case (takes i l key q)
  have "sum_list (map (worker_left ((lcTurns l)(key \<mapsto> Taken))) ((lcWorkers l)[i := Holds key])) < sum_list (map (worker_left (lcTurns l)) (lcWorkers l))"
    by (rule sum_update_less [OF takes.hyps(1) worker_left_mono [of _ _ key]]) (simp_all add: takes.hyps(2))
  then show ?case by (simp add: drain_left_def worker_takes_def)
next
  case (exits i l key q)
  have "sum_list (map (worker_left (lcTurns l)) ((lcWorkers l)[i := Gone])) < sum_list (map (worker_left (lcTurns l)) (lcWorkers l))"
    by (rule sum_update_less [OF exits.hyps(1)]) (simp_all add: exits.hyps(2))
  then show ?case by (simp add: drain_left_def worker_exits_def)
next
  case (observes i l key ctx u t)
  then show ?case using stopped_plan by blast
next
  case (passes i l key plan t)
  have "plan = Stop" using stopped_plan [OF passes.prems(2) passes.hyps(4)] by simp
  moreover have "sum_list (map (worker_left ((lcTurns l)(key := None))) ((lcWorkers l)[i := Gone])) < sum_list (map (worker_left (lcTurns l)) (lcWorkers l))"
    by (rule sum_update_less [OF passes.hyps(1) worker_left_mono [of _ _ key]]) (simp_all add: passes.hyps(2,3))
  ultimately show ?case by (simp add: drain_left_def worker_done_def)
next
  case (finishes i l key ctx u observed)
  have "sum_list (map (worker_left ((lcTurns l)(key := None))) ((lcWorkers l)[i := Idle])) < sum_list (map (worker_left (lcTurns l)) (lcWorkers l))"
    by (rule sum_update_less [OF finishes.hyps(1) worker_left_mono [of _ _ key]]) (simp_all add: finishes.hyps(2,3))
  then show ?case by (simp add: drain_left_def worker_done_def)
next
  case (probes i l key ctx u st)
  then show ?case by blast
next
  case (helper_ends l)
  then show ?case by (simp add: drain_left_def)
next
  case (returns l names)
  then show ?case by (simp add: drain_left_def run_return_def)
qed simp_all

lemma get_no_wait:
  assumes "shuttingDown q"
  shows "\<exists>key b p. get u q = (Returns key b, p)"
  using assms by (auto simp: get_def Let_def)

text \<open>A worker that is not gone can take a step that changes what it has.\<close>

lemma worker_progress:
  assumes "lcCtxDone l" and "shuttingDown (oQueue (lcObs l))" and "holds_inv (lcTurns l) (lcWorkers l)"
    and i: "i < length (lcWorkers l)" and "lcWorkers l ! i \<noteq> Gone"
  shows "\<exists>l'. lc_own E l l' \<and> lcWorkers l' \<noteq> lcWorkers l"
proof (cases "lcWorkers l ! i")
  case Idle
  obtain key b q where "get (urgent_only (opts E) i) (oQueue (lcObs l)) = (Returns key b, q)" using get_no_wait [OF assms(2)] by blast
  then have "lc_own E l (worker_takes i key q l) \<or> lc_own E l (worker_exits i l)"
    using lc_own.takes [OF i Idle] lc_own.exits [OF i Idle] by (cases b) auto
  moreover have "(lcWorkers l)[i := w] \<noteq> lcWorkers l" if "w \<noteq> Idle" for w using that i Idle by (metis nth_list_update_eq)
  ultimately show ?thesis by (metis (no_types, lifting) lc_worker.distinct(1,3) lifecycle.select_convs(6) lifecycle.surjective
        lifecycle.update_convs(6) worker_exits_def worker_takes_def)
next
  case (Holds key)
  have "key \<in> dom (lcTurns l)" using assms(3) i Holds unfolding holds_inv_def holder_def by blast
  then obtain x where x: "lcTurns l key = Some x" by blast
  have "\<exists>again s. lc_own E l (worker_done i key again s l)"
  proof (cases x)
    case Taken
    have "work_begin E key (view l) = (Stop, view l)" using assms(1) by (simp add: work_begin_def view_def)
    then show ?thesis using lc_own.passes [OF i Holds] x Taken by blast
  next
    case (Running c u)
    then show ?thesis using lc_own.finishes [OF i Holds] x by blast
  qed
  then obtain again s where "lc_own E l (worker_done i key again s l)" by blast
  moreover have "lcWorkers (worker_done i key again s l) ! i \<noteq> Holds key" using i by (simp add: worker_done_def)
  ultimately show ?thesis using Holds by metis
qed (use assms(5) in simp)

lemma drain_progress:
  assumes "lc_inv l" and "lcPhase l = Draining"
  shows "\<exists>l'. lc_own E l l' \<and> (drain_left l' < drain_left l \<or> lcPhase l' = Returned_run)"
proof -
  have ctx: "lcCtxDone l" "shuttingDown (oQueue (lcObs l))" "holds_inv (lcTurns l) (lcWorkers l)"
    using assms by (simp_all add: lc_inv_def)
  consider (helper) "0 < lcHelpers l" | (worker) i where "i < length (lcWorkers l)" "lcWorkers l ! i \<noteq> Gone"
    | (ended) "lcHelpers l = 0" "set (lcWorkers l) \<subseteq> {Gone}" by (auto simp: set_conv_nth subset_iff)
  then show ?thesis
  proof cases
    case helper
    then show ?thesis using lc_own.helper_ends [OF ctx(1)] by (intro exI [of _ "l\<lparr>lcHelpers := lcHelpers l - 1\<rparr>"]) (simp add: drain_left_def)
  next
    case worker
    obtain l' where "lc_own E l l'" "lcWorkers l' \<noteq> lcWorkers l" using worker_progress [OF ctx worker] by blast
    then show ?thesis using drain_step [OF _ assms(2) ctx(1), of E l'] by auto
  next
    case ended
    have "lc_own E l (run_return [] l)" "lcPhase (run_return [] l) = Returned_run"
      using lc_own.returns [OF assms(2) ended(2,1)] by (simp_all add: run_return_def)
    then show ?thesis by blast
  qed
qed

lemma lc_panic: "lc_reach E l \<Longrightarrow> lcPhase l = Panicking \<Longrightarrow> optTTL (opts E) < 4"
proof (induction rule: lc_reach.induct)
  case (own l l')
  from own.hyps(2) show ?case
  proof cases
    case synced
    then show ?thesis using own.prems by (simp add: run_synced_def expiry_interval_def Second_def split: if_splits)
  qed (use own in \<open>simp_all add: lc_defs\<close>)
next
  case (env l l')
  from env.hyps(2) show ?case by cases (use env in simp_all)
qed (simp add: run_begin_def)

lemma env_frame:
  assumes "lc_env E l l'"
  shows "drain_left l' = drain_left l" "lcPhase l' = lcPhase l"
  using assms by (cases; simp add: drain_left_def)+

text \<open>
  C20: the observer starts and stops cleanly. In every interleaving of \<open>Run\<close>, its workers and every handler, it is
  never ready before its caches are synchronised nor after \<open>Run\<close> has returned. When \<open>Run\<close> has returned, no turn and no
  observation is left and no status client is cached, whatever the workers were doing when the
  context ended. The shutdown does return: as long as it drains, some step of \<open>Run\<close> or its workers is possible
  that uses up work, which is bounded by three per worker and which no handler increases, or that
  ends it. Creating the tickers panics only for a validity below 4 nanoseconds.
\<close>

theorem run_lifecycle:
  assumes "lc_reach E l"
  shows "(Ready (view l) \<longrightarrow> lcPhase l \<noteq> Syncing \<and> lcPhase l \<noteq> Returned_run) \<and>
    (lcPhase l = Returned_run \<longrightarrow> lcTurns l = Map.empty \<and> oObservations (lcObs l) = Map.empty \<and> scEntries (lcClients l) = Map.empty) \<and>
    (lcPhase l = Draining \<longrightarrow>
       (\<exists>l'. lc_own E l l' \<and> (drain_left l' < drain_left l \<or> lcPhase l' = Returned_run)) \<and>
       (\<forall>l'. lc_own E l l' \<or> lc_env E l l' \<longrightarrow> drain_left l' \<le> drain_left l) \<and>
       drain_left l \<le> 3 * length (lcWorkers l) + lcHelpers l) \<and>
    (lcPhase l = Panicking \<longrightarrow> optTTL (opts E) < 4)"
proof (intro conjI impI)
  have inv: "lc_inv l" by (rule lc_reach_inv [OF assms])
  have turns: "lcTurns l = Map.empty \<and> oObservations (lcObs l) = Map.empty" if "lcPhase l = Returned_run"
  proof -
    have "set (lcWorkers l) \<subseteq> {Gone}" using inv that by (simp add: lc_inv_def)
    then have "\<not> holder (lcWorkers l) key i" for key i unfolding holder_def by (metis lc_worker.distinct(5) nth_mem singletonD subsetD)
    moreover have "holds_inv (lcTurns l) (lcWorkers l)" using inv by (simp add: lc_inv_def)
    ultimately have "dom (lcTurns l) = {}" unfolding holds_inv_def by blast
    then have "lcTurns l = Map.empty" by simp
    moreover have "oObservations (lcObs l) key = None" for key
      using inv calculation by (cases "oObservations (lcObs l) key") (auto simp: lc_inv_def turn_inv_def)
    ultimately show ?thesis by auto
  qed
  show "lcPhase l \<noteq> Syncing" "lcPhase l \<noteq> Returned_run" if "Ready (view l)"
    using that inv by (auto simp: Ready_def view_def lc_inv_def)
  show "lcTurns l = Map.empty" "oObservations (lcObs l) = Map.empty" "scEntries (lcClients l) = Map.empty" if "lcPhase l = Returned_run"
    using that turns inv by (simp_all add: lc_inv_def)
  show "\<exists>l'. lc_own E l l' \<and> (drain_left l' < drain_left l \<or> lcPhase l' = Returned_run)" if "lcPhase l = Draining"
    by (rule drain_progress [OF inv that])
  show "\<forall>l'. lc_own E l l' \<or> lc_env E l l' \<longrightarrow> drain_left l' \<le> drain_left l" if d: "lcPhase l = Draining"
  proof (intro allI impI)
    fix l'
    assume s: "lc_own E l l' \<or> lc_env E l l'"
    have c: "lcCtxDone l" using inv d by (simp add: lc_inv_def)
    from s show "drain_left l' \<le> drain_left l"
    proof
      assume "lc_own E l l'"
      from drain_step [OF this d c] show ?thesis by (auto simp: drain_left_def)
    qed (simp add: env_frame(1))
  qed
  have "sum_list (map (worker_left (lcTurns l)) ws) \<le> 3 * length ws" for ws
    by (induction ws) (use worker_left_bound in \<open>auto intro: add_mono\<close>)
  then show "drain_left l \<le> 3 * length (lcWorkers l) + lcHelpers l" by (simp add: drain_left_def)
  show "optTTL (opts E) < 4" if "lcPhase l = Panicking" by (rule lc_panic [OF assms that])
qed

text \<open>A process that is told to stop before its caches are synchronised.\<close>

definition stopping_run :: "(bool \<times> string \<times> (string \<times> bool) list, string, string) lifecycle" where
  "stopping_run = run_drain ((run_begin (opts sample_env) (the (NewStore (Some []))))\<lparr>lcCtxDone := True\<rparr>)"

theorem run_lifecycle_witness:
  "lcPhase stopping_run = Draining \<and> \<not> Ready (view stopping_run) \<and> drain_left stopping_run = 3 \<and>
   (\<exists>l'. lc_own sample_env stopping_run l' \<and> (drain_left l' < 3 \<or> lcPhase l' = Returned_run))"
proof -
  let ?l = "run_begin (opts sample_env) (the (NewStore (Some [])))"
  have "lc_reach sample_env ?l" by (rule lc_reach.start [of "Some []"]) (simp add: NewStore_def)
  note 1 = lc_reach.env [OF this lc_env.context_ends]
  have "lc_own sample_env (?l\<lparr>lcCtxDone := True\<rparr>) (run_drain (?l\<lparr>lcCtxDone := True\<rparr>))"
    by (rule lc_own.abandoned) (simp_all add: run_begin_def)
  from lc_reach.own [OF 1 this] have r: "lc_reach sample_env stopping_run" by (simp add: stopping_run_def)
  have "drain_left stopping_run = 3" "lcPhase stopping_run = Draining" "\<not> Ready (view stopping_run)"
    by (simp_all add: stopping_run_def run_drain_def run_begin_def drain_left_def Ready_def view_def)
  then show ?thesis using run_lifecycle [OF r] by auto
qed

text \<open>
  The smallest accepted validity divides to a zero expiry interval, so \<open>Run\<close> panics when it creates the ticker.
\<close>

lemma smallest_ttl_panics:
  "lcPhase (run_synced opt l) = Panicking \<longleftrightarrow> optTTL opt < 4"
  by (simp add: run_synced_def expiry_interval_def Second_def) linarith

end
