(* ===== verification/Cache.thy ===== *)
theory Cache
  imports Topology_Props
begin

text \<open>
  The informer cache projections of \<open>internal/observer/cache.go\<close>: what the observer keeps of a Cluster
  and of a Pod. The properties say that the projections are independent of the rest of the program:
  everything the observer reads from an object is the same before and after, and projecting twice is
  projecting once. Deep copies are the identity on values. The Pod record already has only the
  fields that the program reads, so what is projected away of a Pod are its other labels, containers,
  arguments, conditions and container states.
\<close>

section \<open>Cluster\<close>

text \<open>An unchecked assertion of an optional value to a map: anything else gives the nil map.\<close>

definition map_or_nil :: "goany option \<Rightarrow> gomap" where
  "map_or_nil v = (case v of Some (AMap m) \<Rightarrow> m | _ \<Rightarrow> fmempty)"

definition projectJSONFields :: "gomap \<Rightarrow> string list \<Rightarrow> gomap" where
  "projectJSONFields source names = fmfilter (\<lambda>name. name \<in> set names) source"

text \<open>The loop over the plugins: the first entry that is a map with the plugin's name.\<close>

definition selected_plugins :: "goany list \<Rightarrow> goany list" where
  "selected_plugins vals =
     (case native_plugin vals of
        None \<Rightarrow> []
      | Some entry \<Rightarrow> [AMap (projectJSONFields entry [''name'', ''enabled'', ''parameters''])])"

definition bootstrap_entry :: "gomap \<Rightarrow> string \<Rightarrow> goany option" where
  "bootstrap_entry bootstrap method =
     (case fmlookup bootstrap method of
        Some (AMap entry) \<Rightarrow> Some (AMap (projectJSONFields entry [''database'']))
      | _ \<Rightarrow> None)"

definition projected_bootstrap :: "gomap \<Rightarrow> gomap" where
  "projected_bootstrap bootstrap =
     fold (\<lambda>method acc. case bootstrap_entry bootstrap method of Some v \<Rightarrow> fmupd method v acc | None \<Rightarrow> acc)
       [''recovery'', ''pg_basebackup'', ''initdb''] fmempty"

definition projected_metadata :: "gomap \<Rightarrow> gomap" where
  "projected_metadata metadata =
     fmupd ''annotations''
       (AMap (projectJSONFields (map_or_nil (fmlookup metadata ''annotations''))
          [EnabledAnnotation, ParametersAnnotation, ''cnpg.io/fencedInstances'']))
       (projectJSONFields metadata [''name'', ''namespace'', ''uid'', ''resourceVersion'', ''generation'', ''deletionTimestamp''])"

definition projected_spec :: "gomap \<Rightarrow> gomap" where
  "projected_spec spec =
     fmupd ''bootstrap'' (AMap (projected_bootstrap (map_or_nil (fmlookup spec ''bootstrap''))))
       (case fmlookup spec ''plugins'' of
          None \<Rightarrow> fmempty
        | Some (ASlice vals) \<Rightarrow> fmupd ''plugins'' (ASlice (selected_plugins vals)) fmempty
        | Some plugins \<Rightarrow> fmupd ''plugins'' plugins fmempty)"

text \<open>The error branch, for an object that is not a Cluster or nil, is the \<open>None\<close> of the argument.\<close>

definition transformClusterCache :: "gomap option \<Rightarrow> string + gomap" where
  "transformClusterCache obj =
     (case obj of
        None \<Rightarrow> Inl ''cluster cache received''
      | Some c \<Rightarrow>
          Inr (fmupd ''status'' (AMap (projectJSONFields (map_or_nil (fmlookup c ''status'')) [''currentPrimary'', ''targetPrimary'', ''certificates'']))
            (fmupd ''spec'' (AMap (projected_spec (map_or_nil (fmlookup c ''spec''))))
              (fmupd ''metadata'' (AMap (projected_metadata (map_or_nil (fmlookup c ''metadata''))))
                (projectJSONFields c [''apiVersion'', ''kind''])))))"

abbreviation cachedForm :: "gomap \<Rightarrow> gomap" where
  "cachedForm c \<equiv> projr (transformClusterCache (Some c))"

section \<open>Pod\<close>

definition cached_labels :: "string list" where
  "cached_labels = [''cnpg.io/cluster'', ''cnpg.io/instanceName'', ''cnpg.io/instanceRole'', ''cnpg.io/podRole'',
     ''topology.kubernetes.io/zone'', ''topology.kubernetes.io/region'']"

definition project_container :: "container \<Rightarrow> container" where
  "project_container c = \<lparr>containerName = containerName c,
     containerCommand = (if ''--status-port-tls'' \<in> set (containerCommand c) then [''--status-port-tls''] else []),
     containerArgs = (if ''--status-port-tls'' \<in> set (containerArgs c) then [''--status-port-tls''] else [])\<rparr>"

definition first_only :: "('a \<Rightarrow> bool) \<Rightarrow> 'a list \<Rightarrow> 'a list" where
  "first_only P xs = (case List.find P xs of None \<Rightarrow> [] | Some x \<Rightarrow> [x])"

definition transformPodCache :: "pod option \<Rightarrow> string + pod" where
  "transformPodCache obj =
     (case obj of
        None \<Rightarrow> Inl ''pod cache received''
      | Some p \<Rightarrow> Inr (p\<lparr>
          podLabels := (\<lambda>k. if k \<in> set cached_labels then podLabels p k else None),
          podContainers := map project_container (first_only (\<lambda>c. containerName c = ''postgres'') (podContainers p)),
          podConditions := first_only (\<lambda>c. conditionType c = ''Ready'') (podConditions p),
          podContainerStatuses := first_only (\<lambda>c. statusName c = ''postgres'') (podContainerStatuses p)\<rparr>))"

abbreviation cachedPodForm :: "pod \<Rightarrow> pod" where
  "cachedPodForm p \<equiv> projr (transformPodCache (Some p))"

section \<open>What the accessors promise\<close>

text \<open>
  The path lookup behind the accessors of \<open>k8s.io/apimachinery\<close>: the value, nothing, or a value on the
  path that is not a map (an error, whose message names that value). A null on the path counts as nothing.
\<close>

datatype found = Found goany | Missing | Blocked

fun lookup_path :: "goany \<Rightarrow> string list \<Rightarrow> found" where
  "lookup_path v [] = Found v"
| "lookup_path v (f # fs) =
     (case v of
        AMap m \<Rightarrow> (case fmlookup m f of None \<Rightarrow> Missing | Some w \<Rightarrow> lookup_path w fs)
      | ANull \<Rightarrow> Missing
      | _ \<Rightarrow> Blocked)"

definition path_accessors :: "apimachinery \<Rightarrow> bool" where
  "path_accessors K \<longleftrightarrow>
     (\<forall>m n fs. lookup_path (AMap m) fs = lookup_path (AMap n) fs \<and> lookup_path (AMap m) fs \<noteq> Blocked \<longrightarrow>
        NestedString K m fs = NestedString K n fs \<and> NestedBool K m fs = NestedBool K n fs \<and> NestedSlice K m fs = NestedSlice K n fs \<and>
        NestedStringMap K m fs = NestedStringMap K n fs \<and> NestedFieldNoCopy K m fs = NestedFieldNoCopy K n fs) \<and>
     (\<forall>m fs. (\<forall>v. lookup_path (AMap m) fs \<noteq> Found v) \<longrightarrow> fst (NestedString K m fs) = [] \<and> fst (NestedFieldNoCopy K m fs) = None) \<and>
     (\<forall>m fs vs. lookup_path (AMap m) fs = Found (ASlice vs) \<longrightarrow> NestedSlice K m fs = (vs, True, None)) \<and>
     (\<forall>m n. lookup_path (AMap m) [''metadata'', ''namespace''] = lookup_path (AMap n) [''metadata'', ''namespace''] \<longrightarrow> GetNamespace K m = GetNamespace K n) \<and>
     (\<forall>m n. lookup_path (AMap m) [''metadata'', ''name''] = lookup_path (AMap n) [''metadata'', ''name''] \<longrightarrow> GetName K m = GetName K n) \<and>
     (\<forall>m n. lookup_path (AMap m) [''metadata'', ''uid''] = lookup_path (AMap n) [''metadata'', ''uid''] \<longrightarrow> GetUID K m = GetUID K n) \<and>
     (\<forall>m n. lookup_path (AMap m) [''metadata'', ''deletionTimestamp''] = lookup_path (AMap n) [''metadata'', ''deletionTimestamp''] \<longrightarrow>
        GetDeletionTimestamp K m = GetDeletionTimestamp K n) \<and>
     (\<forall>m a. lookup_path (AMap m) [''metadata'', ''annotations''] = Found (AMap a) \<and> (\<forall>k v. fmlookup a k = Some v \<longrightarrow> (\<exists>s. v = AString s)) \<longrightarrow>
        GetAnnotations K m = string_entries a) \<and>
     (\<forall>m. lookup_path (AMap m) [''metadata'', ''annotations''] = Missing \<longrightarrow> GetAnnotations K m = Map.empty)"

text \<open>
  A Cluster as the API server stores it: \<open>metadata\<close> and \<open>spec\<close> are objects, annotations are strings.
\<close>

definition stored_object :: "gomap \<Rightarrow> bool" where
  "stored_object c \<longleftrightarrow> (\<exists>m. fmlookup c ''metadata'' = Some (AMap m) \<and>
       (fmlookup m ''annotations'' = None \<or>
        (\<exists>a. fmlookup m ''annotations'' = Some (AMap a) \<and> (\<forall>k v. fmlookup a k = Some v \<longrightarrow> (\<exists>s. v = AString s))))) \<and>
     (\<exists>s. fmlookup c ''spec'' = Some (AMap s))"

section \<open>Lookups in a projected Cluster\<close>

definition similar :: "found \<Rightarrow> found \<Rightarrow> bool" where
  "similar x y \<longleftrightarrow> x = y \<or> (\<forall>v. x \<noteq> Found v \<and> y \<noteq> Found v)"

lemma accessors_same:
  assumes "path_accessors K" and "lookup_path (AMap m) fs = lookup_path (AMap n) fs" and "lookup_path (AMap m) fs \<noteq> Blocked"
  shows "NestedString K m fs = NestedString K n fs" "NestedBool K m fs = NestedBool K n fs" "NestedSlice K m fs = NestedSlice K n fs"
    "NestedStringMap K m fs = NestedStringMap K n fs" "NestedFieldNoCopy K m fs = NestedFieldNoCopy K n fs"
  using assms(1) [unfolded path_accessors_def, THEN conjunct1, rule_format, OF conjI [OF assms(2,3)]] by simp_all

lemma accessors_none:
  assumes "path_accessors K" and "\<forall>v. lookup_path (AMap m) fs \<noteq> Found v"
  shows "fst (NestedString K m fs) = []" "fst (NestedFieldNoCopy K m fs) = None"
  using assms(1) [unfolded path_accessors_def, THEN conjunct2, THEN conjunct1, rule_format, of m fs] assms(2) by simp_all

lemma accessors_meta:
  assumes "path_accessors K"
  shows "lookup_path (AMap m) [''metadata'', ''namespace''] = lookup_path (AMap n) [''metadata'', ''namespace''] \<Longrightarrow> GetNamespace K m = GetNamespace K n"
    "lookup_path (AMap m) [''metadata'', ''name''] = lookup_path (AMap n) [''metadata'', ''name''] \<Longrightarrow> GetName K m = GetName K n"
    "lookup_path (AMap m) [''metadata'', ''uid''] = lookup_path (AMap n) [''metadata'', ''uid''] \<Longrightarrow> GetUID K m = GetUID K n"
    "lookup_path (AMap m) [''metadata'', ''deletionTimestamp''] = lookup_path (AMap n) [''metadata'', ''deletionTimestamp''] \<Longrightarrow>
       GetDeletionTimestamp K m = GetDeletionTimestamp K n"
    "lookup_path (AMap m) [''metadata'', ''annotations''] = Found (AMap a) \<Longrightarrow> \<forall>k v. fmlookup a k = Some v \<longrightarrow> (\<exists>s. v = AString s) \<Longrightarrow>
       GetAnnotations K m = string_entries a"
    "lookup_path (AMap m) [''metadata'', ''annotations''] = Missing \<Longrightarrow> GetAnnotations K m = Map.empty"
    "lookup_path (AMap m) fs = Found (ASlice vs) \<Longrightarrow> NestedSlice K m fs = (vs, True, None)"
proof -
  note laws = assms [unfolded path_accessors_def, THEN conjunct2, THEN conjunct2]
  note rest = laws [THEN conjunct2, THEN conjunct2, THEN conjunct2]
  show "lookup_path (AMap m) fs = Found (ASlice vs) \<Longrightarrow> NestedSlice K m fs = (vs, True, None)"
    by (rule laws [THEN conjunct1, rule_format])
  show "lookup_path (AMap m) [''metadata'', ''namespace''] = lookup_path (AMap n) [''metadata'', ''namespace''] \<Longrightarrow> GetNamespace K m = GetNamespace K n"
    by (rule laws [THEN conjunct2, THEN conjunct1, rule_format])
  show "lookup_path (AMap m) [''metadata'', ''name''] = lookup_path (AMap n) [''metadata'', ''name''] \<Longrightarrow> GetName K m = GetName K n"
    by (rule laws [THEN conjunct2, THEN conjunct2, THEN conjunct1, rule_format])
  show "lookup_path (AMap m) [''metadata'', ''uid''] = lookup_path (AMap n) [''metadata'', ''uid''] \<Longrightarrow> GetUID K m = GetUID K n"
    by (rule rest [THEN conjunct1, rule_format])
  show "lookup_path (AMap m) [''metadata'', ''deletionTimestamp''] = lookup_path (AMap n) [''metadata'', ''deletionTimestamp''] \<Longrightarrow>
       GetDeletionTimestamp K m = GetDeletionTimestamp K n"
    by (rule rest [THEN conjunct2, THEN conjunct1, rule_format])
  show "lookup_path (AMap m) [''metadata'', ''annotations''] = Found (AMap a) \<Longrightarrow> \<forall>k v. fmlookup a k = Some v \<longrightarrow> (\<exists>s. v = AString s) \<Longrightarrow>
       GetAnnotations K m = string_entries a"
    using rest [THEN conjunct2, THEN conjunct2, THEN conjunct1] by blast
  show "lookup_path (AMap m) [''metadata'', ''annotations''] = Missing \<Longrightarrow> GetAnnotations K m = Map.empty"
    by (rule rest [THEN conjunct2, THEN conjunct2, THEN conjunct2, rule_format])
qed

lemma similar_string:
  assumes "path_accessors K" and "similar (lookup_path (AMap m) fs) (lookup_path (AMap n) fs)"
  shows "fst (NestedString K m fs) = fst (NestedString K n fs)" "fst (NestedFieldNoCopy K m fs) = fst (NestedFieldNoCopy K n fs)"
proof -
  from assms(2) consider "lookup_path (AMap m) fs = lookup_path (AMap n) fs" "lookup_path (AMap m) fs \<noteq> Blocked"
    | "\<forall>v. lookup_path (AMap m) fs \<noteq> Found v" "\<forall>v. lookup_path (AMap n) fs \<noteq> Found v"
    unfolding similar_def by (metis found.distinct(3))
  then have "fst (NestedString K m fs) = fst (NestedString K n fs) \<and> fst (NestedFieldNoCopy K m fs) = fst (NestedFieldNoCopy K n fs)"
  proof cases
    case 1
    show ?thesis unfolding accessors_same(1) [OF assms(1) 1] accessors_same(5) [OF assms(1) 1] by simp
  next
    case 2
    show ?thesis unfolding accessors_none [OF assms(1) 2(1)] accessors_none [OF assms(1) 2(2)] by simp
  qed
  then show "fst (NestedString K m fs) = fst (NestedString K n fs)" "fst (NestedFieldNoCopy K m fs) = fst (NestedFieldNoCopy K n fs)"
    by simp_all
qed

lemma fmlookup_project [simp]: "fmlookup (projectJSONFields m names) f = (if f \<in> set names then fmlookup m f else None)"
  by (simp add: projectJSONFields_def)

lemma project_project [simp]: "projectJSONFields (projectJSONFields m names) names = projectJSONFields m names"
  by (rule fmap_ext) simp

lemma cached_fields:
  "fmlookup (cachedForm c) ''status'' =
     Some (AMap (projectJSONFields (map_or_nil (fmlookup c ''status'')) [''currentPrimary'', ''targetPrimary'', ''certificates'']))"
  "fmlookup (cachedForm c) ''spec'' = Some (AMap (projected_spec (map_or_nil (fmlookup c ''spec''))))"
  "fmlookup (cachedForm c) ''metadata'' = Some (AMap (projected_metadata (map_or_nil (fmlookup c ''metadata''))))"
  by (simp_all add: transformClusterCache_def)

lemma lookup_two: "lookup_path (AMap m) (f # fs) = (case fmlookup m f of None \<Rightarrow> Missing | Some w \<Rightarrow> lookup_path w fs)"
  by simp

lemma status_similar:
  assumes "f \<in> {''currentPrimary'', ''targetPrimary'', ''certificates''}"
  shows "similar (lookup_path (AMap (cachedForm c)) (''status'' # f # fs)) (lookup_path (AMap c) (''status'' # f # fs))"
  using assms unfolding lookup_two cached_fields
  by (cases "fmlookup c ''status''")
    (auto simp: map_or_nil_def similar_def split: goany.splits)

lemma fold_entries:
  "fmlookup (fold (\<lambda>k acc. case g k of Some v \<Rightarrow> fmupd k v acc | None \<Rightarrow> acc) ks acc) k =
     (if k \<in> set ks \<and> g k \<noteq> None then g k else fmlookup acc k)"
  by (induction ks arbitrary: acc) (auto split: option.splits)

lemma bootstrap_lookup:
  "fmlookup (projected_bootstrap b) method = (if method \<in> {''recovery'', ''pg_basebackup'', ''initdb''} then bootstrap_entry b method else None)"
  unfolding projected_bootstrap_def fold_entries by simp

lemma spec_bootstrap: "fmlookup (projected_spec s) ''bootstrap'' = Some (AMap (projected_bootstrap (map_or_nil (fmlookup s ''bootstrap''))))"
  by (simp add: projected_spec_def)

lemma bootstrap_similar:
  assumes "method \<in> {''recovery'', ''pg_basebackup'', ''initdb''}"
  shows "similar (lookup_path (AMap (cachedForm c)) [''spec'', ''bootstrap'', method, ''database''])
     (lookup_path (AMap c) [''spec'', ''bootstrap'', method, ''database''])"
proof -
  let ?s = "map_or_nil (fmlookup c ''spec'')"
  let ?b = "map_or_nil (fmlookup ?s ''bootstrap'')"
  have l: "lookup_path (AMap (cachedForm c)) [''spec'', ''bootstrap'', method, ''database''] =
      (case fmlookup ?b method of Some (AMap entry) \<Rightarrow> (case fmlookup entry ''database'' of None \<Rightarrow> Missing | Some w \<Rightarrow> Found w) | _ \<Rightarrow> Missing)"
    using assms unfolding lookup_two cached_fields option.case spec_bootstrap bootstrap_lookup
    by (simp add: bootstrap_entry_def split: option.splits goany.splits)
  have r: "similar (case fmlookup ?b method of Some (AMap entry) \<Rightarrow> (case fmlookup entry ''database'' of None \<Rightarrow> Missing | Some w \<Rightarrow> Found w) | _ \<Rightarrow> Missing)
      (lookup_path (AMap b) [method, ''database''])" if "b = ?b" for b
    using that by (cases "fmlookup ?b method") (auto simp: similar_def split: option.splits goany.splits)
  show ?thesis
  proof (cases "\<exists>s b. fmlookup c ''spec'' = Some (AMap s) \<and> fmlookup s ''bootstrap'' = Some (AMap b)")
    case True
    then obtain s b where sb: "fmlookup c ''spec'' = Some (AMap s)" "fmlookup s ''bootstrap'' = Some (AMap b)" by blast
    then have "lookup_path (AMap c) [''spec'', ''bootstrap'', method, ''database''] = lookup_path (AMap b) [method, ''database'']" by simp
    moreover have "b = ?b" using sb by (simp add: map_or_nil_def)
    ultimately show ?thesis unfolding l using r by simp
  next
    case False
    then have "?b = fmempty" by (auto simp: map_or_nil_def split: option.splits goany.splits)
    moreover have "lookup_path (AMap c) [''spec'', ''bootstrap'', method, ''database''] \<noteq> Found v" for v
      using False by (auto split: option.splits goany.splits)
    ultimately show ?thesis unfolding l by (simp add: similar_def)
  qed
qed

lemma metadata_lookup:
  assumes "stored_object c" and "f \<in> {''name'', ''namespace'', ''uid'', ''resourceVersion'', ''generation'', ''deletionTimestamp''}"
  shows "lookup_path (AMap (cachedForm c)) [''metadata'', f] = lookup_path (AMap c) [''metadata'', f]"
proof -
  obtain m where m: "fmlookup c ''metadata'' = Some (AMap m)" using assms(1) by (auto simp: stored_object_def)
  have "f \<noteq> ''annotations''" using assms(2) by auto
  then show ?thesis using m assms(2) unfolding lookup_two cached_fields by (simp add: map_or_nil_def projected_metadata_def)
qed

text \<open>The annotations that the program reads.\<close>

lemma annotations_kept:
  assumes "path_accessors K" and "stored_object c" and "k \<in> {EnabledAnnotation, ParametersAnnotation, fenced_annotation}"
  shows "GetAnnotations K (cachedForm c) k = GetAnnotations K c k"
proof -
  obtain m where m: "fmlookup c ''metadata'' = Some (AMap m)" using assms(2) by (auto simp: stored_object_def)
  define a where "a = map_or_nil (fmlookup m ''annotations'')"
  define b where "b = projectJSONFields a [EnabledAnnotation, ParametersAnnotation, ''cnpg.io/fencedInstances'']"
  have strings: "\<forall>k v. fmlookup a k = Some v \<longrightarrow> (\<exists>s. v = AString s)"
    using assms(2) m by (auto simp: stored_object_def a_def map_or_nil_def)
  have "lookup_path (AMap (cachedForm c)) [''metadata'', ''annotations''] = Found (AMap b)"
    unfolding lookup_two cached_fields by (simp add: m map_or_nil_def projected_metadata_def a_def b_def)
  moreover have "\<forall>k v. fmlookup b k = Some v \<longrightarrow> (\<exists>s. v = AString s)" using strings by (simp add: b_def)
  ultimately have l: "GetAnnotations K (cachedForm c) = string_entries b" by (rule accessors_meta(5) [OF assms(1)])
  have r: "GetAnnotations K c = string_entries a"
  proof (cases "fmlookup m ''annotations''")
    case None
    then have "lookup_path (AMap c) [''metadata'', ''annotations''] = Missing" by (simp add: m)
    then have "GetAnnotations K c = Map.empty" by (rule accessors_meta(6) [OF assms(1)])
    then show ?thesis using None by (simp add: a_def map_or_nil_def string_entries_def fun_eq_iff)
  next
    case (Some v)
    then have "lookup_path (AMap c) [''metadata'', ''annotations''] = Found (AMap a)"
      using assms(2) m by (auto simp: stored_object_def a_def map_or_nil_def)
    then show ?thesis using accessors_meta(5) [OF assms(1) _ strings] by blast
  qed
  show ?thesis unfolding l r using assms(3) by (auto simp: string_entries_def b_def fenced_annotation_def)
qed

section \<open>Configuration is kept\<close>

lemma native_plugin_name: "native_plugin vs = Some plugin \<Longrightarrow> fmlookup plugin ''name'' = Some (AString PluginName)"
  by (induction vs) (auto split: option.splits if_splits)

lemma native_selected:
  "native_plugin (selected_plugins vs) = map_option (\<lambda>plugin. projectJSONFields plugin [''name'', ''enabled'', ''parameters'']) (native_plugin vs)"
  using native_plugin_name [of vs] by (cases "native_plugin vs") (simp_all add: selected_plugins_def)

lemma plugin_fields:
  assumes "path_accessors K" and "f \<in> {''name'', ''enabled'', ''parameters''}"
  shows "NestedBool K (projectJSONFields plugin [''name'', ''enabled'', ''parameters'']) [f] = NestedBool K plugin [f]"
    "NestedStringMap K (projectJSONFields plugin [''name'', ''enabled'', ''parameters'']) [f] = NestedStringMap K plugin [f]"
proof -
  have "lookup_path (AMap (projectJSONFields plugin [''name'', ''enabled'', ''parameters''])) [f] = lookup_path (AMap plugin) [f]"
    using assms(2) unfolding lookup_two by simp
  moreover have "lookup_path (AMap (projectJSONFields plugin [''name'', ''enabled'', ''parameters''])) [f] \<noteq> Blocked" by (simp split: option.split)
  ultimately show "NestedBool K (projectJSONFields plugin [''name'', ''enabled'', ''parameters'']) [f] = NestedBool K plugin [f]"
    "NestedStringMap K (projectJSONFields plugin [''name'', ''enabled'', ''parameters'']) [f] = NestedStringMap K plugin [f]"
    using accessors_same(2,4) [OF assms(1)] by blast+
qed

text \<open>The list of plugins is kept up to the selection, and so is the error for a field of another type.\<close>

lemma plugins_kept:
  assumes "path_accessors K" and "stored_object c"
  shows "(\<exists>vs found found'. NestedSlice K c [''spec'', ''plugins''] = (vs, found, None) \<and>
      NestedSlice K (cachedForm c) [''spec'', ''plugins''] = (selected_plugins vs, found', None)) \<or>
    NestedSlice K (cachedForm c) [''spec'', ''plugins''] = NestedSlice K c [''spec'', ''plugins'']"
proof -
  obtain s where s: "fmlookup c ''spec'' = Some (AMap s)" using assms(2) by (auto simp: stored_object_def)
  have c: "lookup_path (AMap c) [''spec'', ''plugins''] = (case fmlookup s ''plugins'' of None \<Rightarrow> Missing | Some w \<Rightarrow> Found w)"
    by (simp add: s split: option.splits)
  have k: "lookup_path (AMap (cachedForm c)) [''spec'', ''plugins''] =
      (case fmlookup s ''plugins'' of None \<Rightarrow> Missing | Some (ASlice vs) \<Rightarrow> Found (ASlice (selected_plugins vs)) | Some w \<Rightarrow> Found w)"
    unfolding lookup_two cached_fields by (simp add: s map_or_nil_def projected_spec_def split: option.splits goany.splits)
  show ?thesis
  proof (cases "\<exists>vs. fmlookup s ''plugins'' = Some (ASlice vs)")
    case True
    then obtain vs where "fmlookup s ''plugins'' = Some (ASlice vs)" by blast
    then have "lookup_path (AMap c) [''spec'', ''plugins''] = Found (ASlice vs)"
      "lookup_path (AMap (cachedForm c)) [''spec'', ''plugins''] = Found (ASlice (selected_plugins vs))"
      unfolding c k by simp_all
    then have "NestedSlice K c [''spec'', ''plugins''] = (vs, True, None)"
      "NestedSlice K (cachedForm c) [''spec'', ''plugins''] = (selected_plugins vs, True, None)"
      using accessors_meta(7) [OF assms(1)] by blast+
    then show ?thesis by blast
  next
    case False
    then have eq: "lookup_path (AMap (cachedForm c)) [''spec'', ''plugins''] = lookup_path (AMap c) [''spec'', ''plugins'']"
      unfolding c k by (cases "fmlookup s ''plugins''") (auto split: goany.splits)
    have "lookup_path (AMap (cachedForm c)) [''spec'', ''plugins''] \<noteq> Blocked" unfolding eq c by (simp split: option.split)
    then show ?thesis using accessors_same(3) [OF assms(1) eq] by blast
  qed
qed

text \<open>The configuration read from the object, with the annotations and the plugin list as arguments.\<close>

lemma parameters_kept:
  assumes "path_accessors K" and "stored_object c"
  shows "parameters K (cachedForm c) = parameters K c"
proof -
  note ann = annotations_kept [OF assms]
  have a: "str_at (GetAnnotations K (cachedForm c)) EnabledAnnotation = str_at (GetAnnotations K c) EnabledAnnotation"
    "str_at (GetAnnotations K (cachedForm c)) ParametersAnnotation = str_at (GetAnnotations K c) ParametersAnnotation"
    using ann [of EnabledAnnotation] ann [of ParametersAnnotation] by (simp_all add: str_at_def)
  have p: "NestedBool K (projectJSONFields plugin [''name'', ''enabled'', ''parameters'']) [''enabled''] = NestedBool K plugin [''enabled'']"
    "NestedStringMap K (projectJSONFields plugin [''name'', ''enabled'', ''parameters'']) [''parameters''] = NestedStringMap K plugin [''parameters'']"
    for plugin using plugin_fields [OF assms(1)] by simp_all
  from plugins_kept [OF assms] show ?thesis
  proof
    assume "\<exists>vs found found'. NestedSlice K c [''spec'', ''plugins''] = (vs, found, None) \<and>
      NestedSlice K (cachedForm c) [''spec'', ''plugins''] = (selected_plugins vs, found', None)"
    then obtain vs found found' where n: "NestedSlice K c [''spec'', ''plugins''] = (vs, found, None)"
      "NestedSlice K (cachedForm c) [''spec'', ''plugins''] = (selected_plugins vs, found', None)" by blast
    show ?thesis unfolding parameters_def a n by (cases "native_plugin vs") (simp_all add: p native_selected cong: if_cong split: prod.split option.split)
  next
    assume n: "NestedSlice K (cachedForm c) [''spec'', ''plugins''] = NestedSlice K c [''spec'', ''plugins'']"
    show ?thesis unfolding parameters_def a n ..
  qed
qed

text \<open>Everything else the observer reads.\<close>

lemma kept:
  assumes "path_accessors K" and "stored_object c"
  shows "clusterRef K (cachedForm c) = clusterRef K c" "GetUID K (cachedForm c) = GetUID K c"
    "GetDeletionTimestamp K (cachedForm c) = GetDeletionTimestamp K c" "primaryNames K (cachedForm c) = primaryNames K c"
    "GetAnnotations K (cachedForm c) fenced_annotation = GetAnnotations K c fenced_annotation"
    "applicationDatabase K (cachedForm c) = applicationDatabase K c" "serverCASecret K (cachedForm c) = serverCASecret K c"
    "fst (NestedFieldNoCopy K (cachedForm c) [''status'', ''certificates'']) = fst (NestedFieldNoCopy K c [''status'', ''certificates''])"
proof -
  note meta = metadata_lookup [OF assms(2)]
  have ids: "GetNamespace K (cachedForm c) = GetNamespace K c" by (rule accessors_meta(1) [OF assms(1) meta]) simp
  have ids2: "GetName K (cachedForm c) = GetName K c" by (rule accessors_meta(2) [OF assms(1) meta]) simp
  show uid: "GetUID K (cachedForm c) = GetUID K c" by (rule accessors_meta(3) [OF assms(1) meta]) simp
  show "GetDeletionTimestamp K (cachedForm c) = GetDeletionTimestamp K c" by (rule accessors_meta(4) [OF assms(1) meta]) simp
  have st: "fst (NestedString K (cachedForm c) (''status'' # f # fs)) = fst (NestedString K c (''status'' # f # fs))"
    "fst (NestedFieldNoCopy K (cachedForm c) (''status'' # f # fs)) = fst (NestedFieldNoCopy K c (''status'' # f # fs))"
    if "f \<in> {''currentPrimary'', ''targetPrimary'', ''certificates''}" for f fs
    by (rule similar_string [OF assms(1) status_similar [OF that]])+
  show "primaryNames K (cachedForm c) = primaryNames K c"
    unfolding primaryNames_def using st(1) [of "''currentPrimary''" "[]"] st(1) [of "''targetPrimary''" "[]"] by simp
  show "serverCASecret K (cachedForm c) = serverCASecret K c"
    unfolding serverCASecret_def using st(1) [of "''certificates''" "[''serverCASecret'']"] by simp
  show "fst (NestedFieldNoCopy K (cachedForm c) [''status'', ''certificates'']) = fst (NestedFieldNoCopy K c [''status'', ''certificates''])"
    using st(2) [of "''certificates''" "[]"] by simp
  show "applicationDatabase K (cachedForm c) = applicationDatabase K c"
  proof -
    have "fst (NestedString K (cachedForm c) [''spec'', ''bootstrap'', m, ''database'']) = fst (NestedString K c [''spec'', ''bootstrap'', m, ''database''])"
      if "m \<in> {''recovery'', ''pg_basebackup'', ''initdb''}" for m
      by (rule similar_string(1) [OF assms(1) bootstrap_similar [OF that]])
    then show ?thesis by (simp add: applicationDatabase_def)
  qed
  show "GetAnnotations K (cachedForm c) fenced_annotation = GetAnnotations K c fenced_annotation"
    by (rule annotations_kept [OF assms]) simp
  show "clusterRef K (cachedForm c) = clusterRef K c" by (simp add: clusterRef_def ids ids2 uid)
qed

section \<open>Projecting twice\<close>

lemma selected_selected: "selected_plugins (selected_plugins vs) = selected_plugins vs"
  using native_selected [of vs] by (cases "native_plugin vs") (simp_all add: selected_plugins_def)

lemma bootstrap_twice: "projected_bootstrap (projected_bootstrap b) = projected_bootstrap b"
proof (rule fmap_ext)
  fix m
  show "fmlookup (projected_bootstrap (projected_bootstrap b)) m = fmlookup (projected_bootstrap b) m"
    unfolding bootstrap_lookup by (simp add: bootstrap_entry_def bootstrap_lookup split: option.split goany.split)
qed

lemma metadata_twice: "projected_metadata (projected_metadata m) = projected_metadata m"
  by (rule fmap_ext) (simp add: projected_metadata_def map_or_nil_def)

lemma spec_twice: "projected_spec (projected_spec s) = projected_spec s"
proof -
  have "fmlookup (projected_spec s) ''plugins'' =
      (case fmlookup s ''plugins'' of None \<Rightarrow> None | Some (ASlice vs) \<Rightarrow> Some (ASlice (selected_plugins vs)) | Some w \<Rightarrow> Some w)"
    by (simp add: projected_spec_def split: option.splits goany.splits)
  then show ?thesis
    unfolding projected_spec_def [of "projected_spec s"] spec_bootstrap
    by (simp add: map_or_nil_def bootstrap_twice selected_selected projected_spec_def [of s] split: option.splits goany.splits)
qed

lemma cache_idempotent: "cachedForm (cachedForm c) = cachedForm c"
proof -
  have "projectJSONFields (cachedForm c) [''apiVersion'', ''kind''] = projectJSONFields c [''apiVersion'', ''kind'']"
    by (rule fmap_ext) (simp add: transformClusterCache_def)
  then show ?thesis
    using cached_fields [of c]
    by (simp add: transformClusterCache_def [of "Some (cachedForm c)"] map_or_nil_def metadata_twice spec_twice)
      (simp add: transformClusterCache_def)
qed

text \<open>
  C25: the cluster cache loses nothing that routing reads. For a Cluster as the API server stores it,
  and with the documented behaviour of the accessors, everything the observer derives from an object
  is the same for its cached projection: identity, deletion, primary names, enrolment and parameters
  (errors included), fencing, application database and certificate status; so two versions have the
  same route exactly when their cached forms have, and projecting again changes nothing.
\<close>

theorem cache_keeps_routing:
  assumes "path_accessors K" and "stored_object c" and "stored_object d"
  shows "clusterRef K (cachedForm c) = clusterRef K c \<and> GetDeletionTimestamp K (cachedForm c) = GetDeletionTimestamp K c \<and>
    primaryNames K (cachedForm c) = primaryNames K c \<and> parameters K (cachedForm c) = parameters K c \<and>
    cluster_fencing K (cachedForm c) = cluster_fencing K c \<and> applicationDatabase K (cachedForm c) = applicationDatabase K c \<and>
    serverCASecret K (cachedForm c) = serverCASecret K c \<and>
    sameClusterRoute K (cachedForm c) (cachedForm d) = sameClusterRoute K c d \<and> cachedForm (cachedForm c) = cachedForm c"
proof -
  note c = kept [OF assms(1,2)] parameters_kept [OF assms(1,2)] and d = kept [OF assms(1,3)] parameters_kept [OF assms(1,3)]
  have "str_at (GetAnnotations K (cachedForm c)) fenced_annotation = str_at (GetAnnotations K c) fenced_annotation"
    "str_at (GetAnnotations K (cachedForm d)) fenced_annotation = str_at (GetAnnotations K d) fenced_annotation"
    using c(5) d(5) by (simp_all add: str_at_def)
  then have "sameClusterRoute K (cachedForm c) (cachedForm d) = sameClusterRoute K c d"
    unfolding sameClusterRoute_def using c d by simp
  moreover have "cluster_fencing K (cachedForm c) = cluster_fencing K c" using c(5) by (simp add: cluster_fencing_def)
  ultimately show ?thesis using c cache_idempotent by simp
qed

section \<open>Pods\<close>

lemma find_first_only: "List.find P (first_only P xs) = List.find P xs"
proof (cases "List.find P xs")
  case (Some x)
  then have "P x" by (auto simp: find_Some_iff)
  with Some show ?thesis by (simp add: first_only_def)
qed (simp add: first_only_def)

lemma first_only_twice: "first_only P (first_only P xs) = first_only P xs"
  by (simp add: first_only_def [of P "first_only P xs"] find_first_only) (simp add: first_only_def)

lemma ready_first: "ready_condition (first_only (\<lambda>c. conditionType c = ''Ready'') cs) = ready_condition cs"
  by (induction cs) (auto simp: first_only_def split: option.splits)

lemma scheme_first:
  assumes "distinct (map containerName cs)"
  shows "list_ex (\<lambda>c. containerName c = ''postgres'' \<and> tls c) (first_only (\<lambda>c. containerName c = ''postgres'') cs) =
    list_ex (\<lambda>c. containerName c = ''postgres'' \<and> tls c) cs"
  using assms
proof (induction cs)
  case (Cons c cs)
  then show ?case
  proof (cases "containerName c = ''postgres''")
    case True
    then have "\<not> list_ex (\<lambda>c. containerName c = ''postgres'' \<and> tls c) cs"
      using Cons.prems by (force simp: list_ex_iff)
    with True show ?thesis by (simp add: first_only_def)
  qed (simp add: first_only_def)
qed (simp add: first_only_def)

lemma project_container_twice: "project_container (project_container c) = project_container c"
  by (simp add: project_container_def)

lemma map_project_first:
  "first_only (\<lambda>c. containerName c = n) (map project_container xs) = map project_container (first_only (\<lambda>c. containerName c = n) xs)"
  by (induction xs) (auto simp: first_only_def project_container_def split: option.splits)

lemma pod_form: "cachedPodForm p = p\<lparr>
    podLabels := (\<lambda>k. if k \<in> set cached_labels then podLabels p k else None),
    podContainers := map project_container (first_only (\<lambda>c. containerName c = ''postgres'') (podContainers p)),
    podConditions := first_only (\<lambda>c. conditionType c = ''Ready'') (podConditions p),
    podContainerStatuses := first_only (\<lambda>c. statusName c = ''postgres'') (podContainerStatuses p)\<rparr>"
  by (simp add: transformPodCache_def)

lemma pod_kept:
  assumes "distinct (map containerName (podContainers p))"
  shows "podReady (cachedPodForm p) = podReady p" "statusScheme (cachedPodForm p) = statusScheme p"
    "postgresContainerID (cachedPodForm p) = postgresContainerID p" "base_member serverName params (cachedPodForm p) = base_member serverName params p"
    "podName (cachedPodForm p) = podName p" "podUID (cachedPodForm p) = podUID p" "podIP (cachedPodForm p) = podIP p"
    "podNodeName (cachedPodForm p) = podNodeName p" "podOwnerReferences (cachedPodForm p) = podOwnerReferences p"
    "podNamespace (cachedPodForm p) = podNamespace p"
proof -
  show "podReady (cachedPodForm p) = podReady p" by (simp add: pod_form podReady_def ready_first)
  show "postgresContainerID (cachedPodForm p) = postgresContainerID p"
    by (simp add: pod_form postgresContainerID_def find_first_only)
  have labels: "str_at (podLabels (cachedPodForm p)) ''topology.kubernetes.io/zone'' = str_at (podLabels p) ''topology.kubernetes.io/zone''"
    "str_at (podLabels (cachedPodForm p)) ''topology.kubernetes.io/region'' = str_at (podLabels p) ''topology.kubernetes.io/region''"
    by (simp_all add: pod_form cached_labels_def str_at_def)
  have fields: "podName (cachedPodForm p) = podName p" "podUID (cachedPodForm p) = podUID p" "podIP (cachedPodForm p) = podIP p"
    "podNodeName (cachedPodForm p) = podNodeName p"
    by (simp_all add: pod_form)
  show "base_member serverName params (cachedPodForm p) = base_member serverName params p"
    unfolding base_member_def labels fields ..
  have tls: "''--status-port-tls'' \<in> set (containerCommand (project_container c)) \<longleftrightarrow> ''--status-port-tls'' \<in> set (containerCommand c)"
    "''--status-port-tls'' \<in> set (containerArgs (project_container c)) \<longleftrightarrow> ''--status-port-tls'' \<in> set (containerArgs c)"
    "containerName (project_container c) = containerName c" for c
    by (simp_all add: project_container_def)
  show "statusScheme (cachedPodForm p) = statusScheme p"
    using scheme_first [OF assms] by (simp add: pod_form statusScheme_def list_ex_iff tls)
qed (simp_all add: pod_form)

text \<open>
  The Pod cache loses nothing that routing reads. For Pods whose containers have distinct names,
  as Kubernetes requires, readiness, the status scheme, the container identity, the member that a
  snapshot shows, ownership, and the comparison of two versions are the same for the cached forms,
  and projecting again changes nothing.
\<close>

theorem pod_cache_keeps_routing:
  assumes "distinct (map containerName (podContainers p))" and "distinct (map containerName (podContainers q))"
  shows "podReady (cachedPodForm p) = podReady p \<and> statusScheme (cachedPodForm p) = statusScheme p \<and>
    base_member serverName params (cachedPodForm p) = base_member serverName params p \<and>
    (owned_by uid (cachedPodForm p) \<longleftrightarrow> owned_by uid p) \<and>
    samePodRoute (cachedPodForm p) (cachedPodForm q) = samePodRoute p q \<and> cachedPodForm (cachedPodForm p) = cachedPodForm p"
proof -
  have "cachedPodForm (cachedPodForm p) = cachedPodForm p"
    by (simp add: pod_form map_project_first first_only_twice project_container_twice fun_eq_iff comp_def)
  moreover have "samePodRoute (cachedPodForm p) (cachedPodForm q) = samePodRoute p q"
    unfolding samePodRoute_def pod_kept [OF assms(1)] pod_kept [OF assms(2)] ..
  ultimately show ?thesis using pod_kept [OF assms(1)] by (simp add: owned_by_def)
qed

section \<open>Witnesses\<close>

lemma nested_lookup:
  "nested_value m fs = (case lookup_path (AMap m) fs of Found v \<Rightarrow> if fs = [] then None else Some v | _ \<Rightarrow> None)"
  by (induction m fs rule: nested_value.induct) (auto split: option.splits goany.splits found.splits)

lemma nested_same: "lookup_path (AMap m) fs = lookup_path (AMap n) fs \<Longrightarrow> nested_value m fs = nested_value n fs"
  by (simp only: nested_lookup)

lemma nested_slice: "lookup_path (AMap m) fs = Found (ASlice vs) \<Longrightarrow> nested_value m fs = Some (ASlice vs)"
  by (cases fs) (simp_all add: nested_lookup)

lemma sample_k8s_paths: "path_accessors sample_k8s"
proof -
  have "NestedString sample_k8s m fs = NestedString sample_k8s n fs \<and> NestedBool sample_k8s m fs = NestedBool sample_k8s n fs \<and>
      NestedSlice sample_k8s m fs = NestedSlice sample_k8s n fs \<and> NestedStringMap sample_k8s m fs = NestedStringMap sample_k8s n fs \<and>
      NestedFieldNoCopy sample_k8s m fs = NestedFieldNoCopy sample_k8s n fs"
    if "lookup_path (AMap m) fs = lookup_path (AMap n) fs" for m n fs
    using nested_same [OF that] by (simp add: sample_k8s_def nested_string_def)
  moreover have "fst (NestedString sample_k8s m fs) = [] \<and> fst (NestedFieldNoCopy sample_k8s m fs) = None"
    if "\<forall>v. lookup_path (AMap m) fs \<noteq> Found v" for m fs
    using that by (simp add: sample_k8s_def nested_string_def nested_lookup split: found.split)
  moreover have "NestedSlice sample_k8s m fs = (vs, True, None)" if "lookup_path (AMap m) fs = Found (ASlice vs)" for m fs vs
    using nested_slice [OF that] by (simp add: sample_k8s_def)
  moreover have "GetNamespace sample_k8s m = GetNamespace sample_k8s n"
    if "lookup_path (AMap m) [''metadata'', ''namespace''] = lookup_path (AMap n) [''metadata'', ''namespace'']" for m n
    using nested_same [OF that] by (simp add: sample_k8s_def nested_string_def)
  moreover have "GetName sample_k8s m = GetName sample_k8s n"
    if "lookup_path (AMap m) [''metadata'', ''name''] = lookup_path (AMap n) [''metadata'', ''name'']" for m n
    using nested_same [OF that] by (simp add: sample_k8s_def nested_string_def)
  moreover have "GetUID sample_k8s m = GetUID sample_k8s n"
    if "lookup_path (AMap m) [''metadata'', ''uid''] = lookup_path (AMap n) [''metadata'', ''uid'']" for m n
    using nested_same [OF that] by (simp add: sample_k8s_def nested_string_def)
  moreover have "GetDeletionTimestamp sample_k8s m = GetDeletionTimestamp sample_k8s n"
    if "lookup_path (AMap m) [''metadata'', ''deletionTimestamp''] = lookup_path (AMap n) [''metadata'', ''deletionTimestamp'']" for m n
    using nested_same [OF that] by (simp add: sample_k8s_def)
  moreover have "GetAnnotations sample_k8s m = string_entries a" if "lookup_path (AMap m) [''metadata'', ''annotations''] = Found (AMap a)" for m a
    using that unfolding sample_k8s_def by (simp only: apimachinery.simps nested_lookup) simp
  moreover have "GetAnnotations sample_k8s m = Map.empty" if "lookup_path (AMap m) [''metadata'', ''annotations''] = Missing" for m
    using that unfolding sample_k8s_def by (simp only: apimachinery.simps nested_lookup) simp
  ultimately show ?thesis unfolding path_accessors_def by (intro conjI allI impI) blast+
qed

text \<open>A Cluster with a native plugin definition, an annotation that is not read, and a bootstrap section.\<close>

definition sample_stored_cluster :: gomap where
  "sample_stored_cluster = fmap_of_list
     [(''kind'', AString ''Cluster''),
      (''metadata'', AMap (fmap_of_list [(''namespace'', AString ''db''), (''name'', AString ''app''), (''uid'', AString ''u1''),
         (''managedFields'', ASlice []), (''annotations'', AMap (fmap_of_list [(''last-applied'', AString ''x'')]))])),
      (''spec'', AMap (fmap_of_list
         [(''plugins'', ASlice [ANull, AMap (fmap_of_list [(''name'', AString PluginName), (''enabled'', ABool False)])]),
          (''bootstrap'', AMap (fmap_of_list [(''initdb'', AMap (fmap_of_list [(''database'', AString ''orders''), (''owner'', AString ''x'')]))]))])),
      (''status'', AMap (fmap_of_list [(''currentPrimary'', AString ''p1''), (''targetPrimary'', AString ''p2'')]))]"

lemma sample_stored_cluster_object: "stored_object sample_stored_cluster"
  by (auto simp: stored_object_def sample_stored_cluster_def split: if_splits)

theorem cache_keeps_routing_witness:
  "primaryNames sample_k8s (cachedForm sample_stored_cluster) = (''p1'', ''p2'') \<and>
   applicationDatabase sample_k8s (cachedForm sample_stored_cluster) = ''orders'' \<and>
   parameters sample_k8s (cachedForm sample_stored_cluster) = parameters sample_k8s sample_stored_cluster"
proof -
  have "primaryNames sample_k8s sample_stored_cluster = (''p1'', ''p2'')" "applicationDatabase sample_k8s sample_stored_cluster = ''orders''" by code_simp+
  with cache_keeps_routing [OF sample_k8s_paths sample_stored_cluster_object sample_stored_cluster_object] show ?thesis by simp
qed

definition sample_full_pod :: pod where
  "sample_full_pod = (sample_pod ''p1'')\<lparr>
     podContainers := [\<lparr>containerName = ''sidecar'', containerCommand = [], containerArgs = []\<rparr>,
       \<lparr>containerName = ''postgres'', containerCommand = [''/controller/manager'', ''--status-port-tls''], containerArgs = []\<rparr>]\<rparr>"

theorem pod_cache_keeps_routing_witness:
  "podReady (cachedPodForm sample_full_pod) \<and> statusScheme (cachedPodForm sample_full_pod) = ''https'' \<and>
   length (podContainers (cachedPodForm sample_full_pod)) = 1"
proof -
  have "distinct (map containerName (podContainers sample_full_pod))" "podReady sample_full_pod" "statusScheme sample_full_pod = ''https''"
    "length (podContainers (cachedPodForm sample_full_pod)) = 1"
    by code_simp+
  with pod_cache_keeps_routing [OF this(1) this(1)] show ?thesis by simp
qed

end
