(* ===== verification/Informers.thy ===== *)
theory Informers
  imports Watch_Health Lifecycle Cache
begin

text \<open>
  The three metadata informers of \<open>internal/observer/watch.go\<close> and the construction of the observer by \<open>New\<close> of
  \<open>observer.go\<close>: the requests sent to the API server, the transform of Secret metadata, the registrations that can
  fail, and all watches of the three resources together, with their counters. What client-go does
  between a request and an event is a step of the environment.
\<close>

section \<open>Requests\<close>

datatype informer = ClusterInformer | PodInformer | SecretInformer

instantiation informer :: enum
begin

definition enum_informer :: "informer list" where
  "enum_informer = [ClusterInformer, PodInformer, SecretInformer]"

definition enum_all_informer :: "(informer \<Rightarrow> bool) \<Rightarrow> bool" where
  "enum_all_informer P \<longleftrightarrow> P ClusterInformer \<and> P PodInformer \<and> P SecretInformer"

definition enum_ex_informer :: "(informer \<Rightarrow> bool) \<Rightarrow> bool" where
  "enum_ex_informer P \<longleftrightarrow> P ClusterInformer \<or> P PodInformer \<or> P SecretInformer"

instance
proof
  show "(UNIV :: informer set) = set enum_class.enum"
    by (auto simp: enum_informer_def intro: informer.exhaust)
  show "distinct (enum_class.enum :: informer list)" by (simp add: enum_informer_def)
  show "enum_class.enum_all P \<longleftrightarrow> Ball UNIV P" for P :: "informer \<Rightarrow> bool"
    by (auto simp: enum_all_informer_def) (metis informer.exhaust)
  show "enum_class.enum_ex P \<longleftrightarrow> Bex UNIV P" for P :: "informer \<Rightarrow> bool"
    by (auto simp: enum_ex_informer_def) (metis informer.exhaust)
qed

end

lemma UNIV_informer: "UNIV = {ClusterInformer, PodInformer, SecretInformer}"
  by (simp add: UNIV_enum enum_informer_def)

record GroupVersionResource =
  gvrGroup :: string
  gvrVersion :: string
  gvrResource :: string

definition clusterResource :: GroupVersionResource where
  "clusterResource = \<lparr>gvrGroup = ''postgresql.cnpg.io'', gvrVersion = ''v1'', gvrResource = ''clusters''\<rparr>"

definition secretResource :: GroupVersionResource where
  "secretResource = \<lparr>gvrGroup = [], gvrVersion = ''v1'', gvrResource = ''secrets''\<rparr>"

text \<open>\<open>kube.CoreV1().Pods\<close>: the Pods of the core group.\<close>

definition podResource :: GroupVersionResource where
  "podResource = \<lparr>gvrGroup = [], gvrVersion = ''v1'', gvrResource = ''pods''\<rparr>"

text \<open>The options of a list or watch that the program sets; the reflector supplies the others.\<close>

record ListOptions =
  LabelSelector :: string
  TimeoutSeconds :: "int option"
  AllowWatchBookmarks :: bool

record 'm api_request =
  rqResource :: GroupVersionResource
  rqNamespace :: string
  rqOptions :: "'m ListOptions_scheme"

definition listClusters :: "Options \<Rightarrow> 'm ListOptions_scheme \<Rightarrow> 'm api_request" where
  "listClusters opt options = \<lparr>rqResource = clusterResource, rqNamespace = optNamespace opt, rqOptions = options\<rparr>"

definition listPods :: "Options \<Rightarrow> 'm ListOptions_scheme \<Rightarrow> 'm api_request" where
  "listPods opt options =
     \<lparr>rqResource = podResource, rqNamespace = optNamespace opt, rqOptions = options\<lparr>LabelSelector := ''cnpg.io/cluster''\<rparr>\<rparr>"

definition listSecrets :: "Options \<Rightarrow> 'm ListOptions_scheme \<Rightarrow> 'm api_request" where
  "listSecrets opt options = \<lparr>rqResource = secretResource, rqNamespace = optNamespace opt, rqOptions = options\<rparr>"

text \<open>The options as \<open>startWatch\<close> completes them.\<close>

definition startWatch_options :: "Options \<Rightarrow> 'm ListOptions_scheme \<Rightarrow> 'm ListOptions_scheme" where
  "startWatch_options opt options = options\<lparr>TimeoutSeconds := Some (watch_timeoutSeconds opt), AllowWatchBookmarks := True\<rparr>"

definition watchClusters :: "Options \<Rightarrow> 'm ListOptions_scheme \<Rightarrow> 'm api_request" where
  "watchClusters opt options =
     \<lparr>rqResource = clusterResource, rqNamespace = optNamespace opt, rqOptions = startWatch_options opt options\<rparr>"

definition watchPods :: "Options \<Rightarrow> 'm ListOptions_scheme \<Rightarrow> 'm api_request" where
  "watchPods opt options =
     \<lparr>rqResource = podResource, rqNamespace = optNamespace opt,
      rqOptions = startWatch_options opt (options\<lparr>LabelSelector := ''cnpg.io/cluster''\<rparr>)\<rparr>"

definition watchSecrets :: "Options \<Rightarrow> 'm ListOptions_scheme \<Rightarrow> 'm api_request" where
  "watchSecrets opt options =
     \<lparr>rqResource = secretResource, rqNamespace = optNamespace opt, rqOptions = startWatch_options opt options\<rparr>"

text \<open>The request of an informer, to list or to watch.\<close>

definition informer_request :: "bool \<Rightarrow> informer \<Rightarrow> Options \<Rightarrow> 'm ListOptions_scheme \<Rightarrow> 'm api_request" where
  "informer_request watching i =
     (case i of
        ClusterInformer \<Rightarrow> if watching then watchClusters else listClusters
      | PodInformer \<Rightarrow> if watching then watchPods else listPods
      | SecretInformer \<Rightarrow> if watching then watchSecrets else listSecrets)"

lemmas request_defs = informer_request_def listClusters_def listPods_def listSecrets_def watchClusters_def watchPods_def watchSecrets_def
  startWatch_options_def

text \<open>The scope of a request is what decides which objects it returns: resource, namespace and selector.\<close>

definition request_scope :: "'m api_request \<Rightarrow> GroupVersionResource \<times> string \<times> string" where
  "request_scope r = (rqResource r, rqNamespace r, LabelSelector (rqOptions r))"

lemma list_watch_scope:
  "request_scope (informer_request True i opt options) = request_scope (informer_request False i opt options)"
  by (cases i) (simp_all add: request_scope_def request_defs)

text \<open>
  The transform of the Secret informer: of the metadata, only what identifies a version of a Secret is kept.
\<close>

record partialObject = secretMeta +
  poLabels :: "string \<rightharpoonup> string"
  poAnnotations :: "string \<rightharpoonup> string"
  poOwners :: "ownerReference list"

definition transformSecret :: "partialObject \<Rightarrow> secretMeta" where
  "transformSecret m = \<lparr>metaNamespace = metaNamespace m, metaName = metaName m, metaUID = metaUID m, metaResourceVersion = metaResourceVersion m\<rparr>"

section \<open>Construction\<close>

datatype registration = SetTransform informer | AddEventHandler informer

definition registrations :: "registration list" where
  "registrations = [SetTransform SecretInformer, AddEventHandler SecretInformer, SetTransform ClusterInformer, SetTransform PodInformer,
     AddEventHandler ClusterInformer, AddEventHandler PodInformer]"

text \<open>\<open>ok\<close> says which registrations the informers accept; the first one refused is the error.\<close>

definition initializeInformers :: "(registration \<Rightarrow> bool) \<Rightarrow> registration option" where
  "initializeInformers ok = List.find (\<lambda>r. \<not> ok r) registrations"

text \<open>The checks of \<open>New\<close> on its options, and the default it fills in.\<close>

datatype new_error = NewDurations | NewConcurrency | NewClusters

definition New_options :: "Options \<Rightarrow> new_error + Options" where
  "New_options opt =
     (if optPollInterval opt \<le> 0 \<or> optProbeTimeout opt \<le> 0 \<or> optTTL opt \<le> optPollInterval opt \<or>
         optProbeTimeout opt \<ge> optTTL opt - optPollInterval opt then Inl NewDurations
      else if optMaxConcurrency opt < 1 \<or> optMaxConcurrency opt > 1024 then Inl NewConcurrency
      else
        let opt = (if optMaxConcurrentClusters opt = 0 then opt\<lparr>optMaxConcurrentClusters := 32\<rparr> else opt) in
          if optMaxConcurrentClusters opt < 1 \<or> optMaxConcurrentClusters opt > 1024 then Inl NewClusters else Inr opt)"

section \<open>All watches\<close>

text \<open>
  The watches of the three resources with their health, and the counters of \<open>Observer\<close>. A watch is the
  informer it belongs to and its number there.
\<close>

record metadata_watches =
  mwHealth :: "informer \<Rightarrow> watchHealth"
  mwWatches :: "informer \<Rightarrow> watch_state list"
  watchStarts :: nat
  watchEnds :: nat
  watchErrors :: nat

definition no_watches :: metadata_watches where
  "no_watches = \<lparr>mwHealth = (\<lambda>_. no_watch), mwWatches = (\<lambda>_. []), watchStarts = 0, watchEnds = 0, watchErrors = 0\<rparr>"

definition set_watch :: "informer \<Rightarrow> nat \<Rightarrow> watch_state \<times> watchHealth \<Rightarrow> metadata_watches \<Rightarrow> metadata_watches" where
  "set_watch k i x w = w\<lparr>mwHealth := (mwHealth w)(k := snd x), mwWatches := (mwWatches w)(k := (mwWatches w k)[i := fst x])\<rparr>"

text \<open>\<open>startWatch\<close> up to the call of the API server, and after it.\<close>

definition startWatch_begin :: "informer \<Rightarrow> metadata_watches \<Rightarrow> metadata_watches" where
  "startWatch_begin k w =
     w\<lparr>mwHealth := (mwHealth w)(k := snd (watch_begin (mwHealth w k))), mwWatches := (mwWatches w)(k := mwWatches w k @ [Starting])\<rparr>"

definition startWatch_return :: "informer \<Rightarrow> nat \<Rightarrow> bool \<Rightarrow> bool \<Rightarrow> metadata_watches \<Rightarrow> metadata_watches" where
  "startWatch_return k i startErr ctxErr w =
     (let w = set_watch k i (startWatch_end i startErr ctxErr (mwHealth w k)) w in
        if startErr \<or> ctxErr then w\<lparr>watchErrors := watchErrors w + 1\<rparr> else w\<lparr>watchStarts := watchStarts w + 1\<rparr>)"

text \<open>The goroutine of \<open>trackWatch\<close>: an event it forwards, and its end.\<close>

definition trackWatch_forward :: "informer \<Rightarrow> nat \<Rightarrow> bool \<Rightarrow> bool \<Rightarrow> metadata_watches \<Rightarrow> metadata_watches" where
  "trackWatch_forward k i failed isError w =
     (let w = set_watch k i (trackWatch_event i failed isError (mwHealth w k)) w in
        if isError then w\<lparr>watchErrors := watchErrors w + 1\<rparr> else w)"

definition trackWatch_stop :: "informer \<Rightarrow> nat \<Rightarrow> metadata_watches \<Rightarrow> metadata_watches" where
  "trackWatch_stop k i w = (set_watch k i (trackWatch_end i (mwHealth w k)) w)\<lparr>watchEnds := watchEnds w + 1\<rparr>"

inductive mw_step :: "metadata_watches \<Rightarrow> metadata_watches \<Rightarrow> bool" where
  begins: "mw_step w (startWatch_begin k w)"
| started: "i < length (mwWatches w k) \<Longrightarrow> mwWatches w k ! i = Starting \<Longrightarrow> mw_step w (startWatch_return k i startErr ctxErr w)"
| event: "i < length (mwWatches w k) \<Longrightarrow> mwWatches w k ! i = Forwarding failed \<Longrightarrow> mw_step w (trackWatch_forward k i failed isError w)"
| ends: "i < length (mwWatches w k) \<Longrightarrow> mwWatches w k ! i = Forwarding failed \<Longrightarrow> mw_step w (trackWatch_stop k i w)"

inductive mw_reach :: "metadata_watches \<Rightarrow> bool" where
  start: "mw_reach no_watches"
| step: "mw_reach w \<Longrightarrow> mw_step w w' \<Longrightarrow> mw_reach w'"

text \<open>What the observer reads of the watches: its three health flags.\<close>

definition with_watches :: "metadata_watches \<Rightarrow> 'd observer \<Rightarrow> 'd observer" where
  "with_watches w s = s\<lparr>oClusterWatch := watch_Load (mwHealth w ClusterInformer), oPodWatch := watch_Load (mwHealth w PodInformer),
     oSecretWatch := watch_Load (mwHealth w SecretInformer)\<rparr>"

section \<open>New\<close>

text \<open>
  \<open>New\<close>: a missing client or store, options out of range, or a registration refused; otherwise the observer with
  its probe slots, its watches, and the options with the default filled in.
\<close>

datatype init_error = ClientsRequired | BadOptions new_error | Unregistered registration

record 'd new_observer =
  newObserver :: "'d observer"
  newProbes :: probe_slots
  newWatches :: metadata_watches
  newOptions :: Options

definition New :: "bool \<Rightarrow> bool \<Rightarrow> bool \<Rightarrow> 'd store option \<Rightarrow> (registration \<Rightarrow> bool) \<Rightarrow> Options \<Rightarrow> init_error + 'd new_observer" where
  "New kube dyn meta store ok opt =
     (case store of
        None \<Rightarrow> Inl ClientsRequired
      | Some st \<Rightarrow>
          if \<not> kube \<or> \<not> dyn \<or> \<not> meta then Inl ClientsRequired
          else case New_options opt of
            Inl e \<Rightarrow> Inl (BadOptions e)
          | Inr opt \<Rightarrow>
              (case initializeInformers ok of
                 Some r \<Rightarrow> Inl (Unregistered r)
               | None \<Rightarrow> Inr \<lparr>newObserver = New_observer opt st, newProbes = configureProbeLimits (optMaxConcurrency opt),
                               newWatches = no_watches, newOptions = opt\<rparr>))"

section \<open>Readiness\<close>

lemma watch_begin_pair: "watch_begin h = (length (whFlags h), snd (watch_begin h))"
  by (simp add: watch_begin_def)

text \<open>Every resource of the composed system runs its own watches, undisturbed by the others.\<close>

lemma set_watch_step:
  assumes "watch_step (mwHealth w k', mwWatches w k') (snd x, (mwWatches w k')[i := fst x])"
    and "mwHealth w' = mwHealth (set_watch k' i x w)" and "mwWatches w' = mwWatches (set_watch k' i x w)"
  shows "watch_step (mwHealth w k, mwWatches w k) (mwHealth w' k, mwWatches w' k) \<or> mwHealth w' k = mwHealth w k \<and> mwWatches w' k = mwWatches w k"
  using assms by (cases "k' = k") (simp_all add: set_watch_def)

lemma mw_frames:
  "mwHealth (startWatch_return k i a b w) = mwHealth (set_watch k i (startWatch_end i a b (mwHealth w k)) w)"
  "mwWatches (startWatch_return k i a b w) = mwWatches (set_watch k i (startWatch_end i a b (mwHealth w k)) w)"
  "mwHealth (trackWatch_forward k i a b w) = mwHealth (set_watch k i (trackWatch_event i a b (mwHealth w k)) w)"
  "mwWatches (trackWatch_forward k i a b w) = mwWatches (set_watch k i (trackWatch_event i a b (mwHealth w k)) w)"
  "mwHealth (trackWatch_stop k i w) = mwHealth (set_watch k i (trackWatch_end i (mwHealth w k)) w)"
  "mwWatches (trackWatch_stop k i w) = mwWatches (set_watch k i (trackWatch_end i (mwHealth w k)) w)"
  by (simp_all add: startWatch_return_def trackWatch_forward_def trackWatch_stop_def Let_def)

lemma mw_step_watch:
  assumes "mw_step w w'"
  shows "watch_step (mwHealth w k, mwWatches w k) (mwHealth w' k, mwWatches w' k) \<or> mwHealth w' k = mwHealth w k \<and> mwWatches w' k = mwWatches w k"
  using assms
proof cases
  case (begins k')
  then show ?thesis using watch_step.begins [OF watch_begin_pair] by (cases "k' = k") (simp_all add: startWatch_begin_def)
next
  case (started i k' startErr ctxErr)
  then show ?thesis by (intro set_watch_step [of w k' "startWatch_end i startErr ctxErr (mwHealth w k')" i] watch_step.started) (simp_all add: mw_frames)
next
  case (event i k' failed isError)
  then show ?thesis by (intro set_watch_step [of w k' "trackWatch_event i failed isError (mwHealth w k')" i] watch_step.event) (simp_all add: mw_frames)
next
  case (ends i k' failed)
  then show ?thesis by (intro set_watch_step [of w k' "trackWatch_end i (mwHealth w k')" i] watch_step.ends) (simp_all add: mw_frames)
qed

lemma mw_reach_watch: "mw_reach w \<Longrightarrow> watch_reach (mwHealth w k, mwWatches w k)"
proof (induction rule: mw_reach.induct)
  case start
  then show ?case by (simp add: no_watches_def watch_reach.start)
next
  case (step w w')
  then show ?case using mw_step_watch [OF step(2), of k] watch_reach.step by metis
qed

text \<open>The counters: a watch that was established and has not ended is live.\<close>

definition live_watches :: "watch_state list \<Rightarrow> nat" where
  "live_watches ws = holders (\<lambda>w. w \<noteq> Starting \<and> w \<noteq> Over_watch) ws"

definition mw_live :: "metadata_watches \<Rightarrow> nat" where
  "mw_live w = live_watches (mwWatches w ClusterInformer) + live_watches (mwWatches w PodInformer) + live_watches (mwWatches w SecretInformer)"

lemma live_update:
  assumes "i < length ws"
  shows "live_watches (ws[i := x]) + (if ws ! i = Starting \<or> ws ! i = Over_watch then 0 else 1) =
    live_watches ws + (if x = Starting \<or> x = Over_watch then 0 else 1)"
  using holders_update [OF assms, of "\<lambda>w. w \<noteq> Starting \<and> w \<noteq> Over_watch" x] unfolding live_watches_def by (auto split: if_splits)

lemma mw_live_set:
  "i < length (mwWatches w k) \<Longrightarrow>
     mw_live (set_watch k i x w) + (if mwWatches w k ! i = Starting \<or> mwWatches w k ! i = Over_watch then 0 else 1) =
     mw_live w + (if fst x = Starting \<or> fst x = Over_watch then 0 else 1)"
  using live_update [of i "mwWatches w k" "fst x"] by (cases k) (auto simp: mw_live_def set_watch_def split: if_splits)

lemma mw_live_cong: "mwWatches w = mwWatches w' \<Longrightarrow> mw_live w = mw_live w'"
  by (simp add: mw_live_def)

lemma mw_step_live:
  assumes "mw_step w w'" and "watchStarts w = watchEnds w + mw_live w"
  shows "watchStarts w' = watchEnds w' + mw_live w'"
  using assms(1)
proof cases
  case (begins k)
  then show ?thesis using assms(2) by (cases k) (simp_all add: startWatch_begin_def mw_live_def live_watches_def holders_def)
next
  case (started i k startErr ctxErr)
  note mw_live_set [OF started(2), of "startWatch_end i startErr ctxErr (mwHealth w k)"]
  then show ?thesis using assms(2) started mw_live_cong [OF mw_frames(2) [of k i startErr ctxErr w]]
    by (auto simp: startWatch_return_def startWatch_end_def set_watch_def Let_def split: if_splits)
next
  case (event i k failed isError)
  note mw_live_set [OF event(2), of "trackWatch_event i failed isError (mwHealth w k)"]
  then show ?thesis using assms(2) event mw_live_cong [OF mw_frames(4) [of k i failed isError w]]
    by (auto simp: trackWatch_forward_def trackWatch_event_def set_watch_def Let_def split: if_splits)
next
  case (ends i k failed)
  note mw_live_set [OF ends(2), of "trackWatch_end i (mwHealth w k)"]
  then show ?thesis using assms(2) ends mw_live_cong [OF mw_frames(6) [of k i w]]
    by (simp add: trackWatch_stop_def trackWatch_end_def set_watch_def)
qed

lemma mw_reach_live: "mw_reach w \<Longrightarrow> watchStarts w = watchEnds w + mw_live w"
proof (induction rule: mw_reach.induct)
  case start
  then show ?case by (simp add: no_watches_def mw_live_def live_watches_def holders_def)
qed (rule mw_step_live)

text \<open>
  C34: readiness follows the current watches only. In every interleaving of the watches of the three
  resources, the observer is ready exactly when its caches have synchronised and, for every resource, the
  watch that began last is established, has not ended and has reported no error; a retiring watch
  neither keeps an unhealthy resource healthy nor takes down its replacement. The counters of started and
  ended watches differ by the watches that are live. A watch lives for at most half the validity of a
  snapshot, so a silent connection cannot count as healthy for longer than the snapshots it supports.
\<close>

theorem readiness_of_watches:
  assumes "mw_reach w"
  shows "(Ready (with_watches w s) \<longleftrightarrow> oReady s \<and> (\<forall>k. mwWatches w k \<noteq> [] \<and> last (mwWatches w k) = Forwarding False)) \<and>
    (\<forall>k i b. Suc i < length (mwWatches w k) \<longrightarrow> watch_Load (watch_Store i b (mwHealth w k)) = watch_Load (mwHealth w k)) \<and>
    watchStarts w = watchEnds w + mw_live w \<and>
    (\<forall>opt. 0 \<le> optTTL opt \<longrightarrow> 2 * watch_lifetime opt \<le> optTTL opt \<and> watch_lifetime opt \<le> 30 * Second \<and> 1 \<le> watch_timeoutSeconds opt)"
proof -
  note h = health_of_current_watch [OF mw_reach_watch [OF assms]]
  have all: "(\<forall>k. P k) \<longleftrightarrow> P ClusterInformer \<and> P PodInformer \<and> P SecretInformer" for P
    by (metis informer.exhaust)
  have "Ready (with_watches w s) \<longleftrightarrow> oReady s \<and> (\<forall>k. mwWatches w k \<noteq> [] \<and> last (mwWatches w k) = Forwarding False)"
    using h [of ClusterInformer] h [of PodInformer] h [of SecretInformer] by (simp add: all Ready_def with_watches_def)
  then show ?thesis using h mw_reach_live [OF assms] by blast
qed

definition established :: metadata_watches where
  "established = fold (\<lambda>k w. startWatch_return k 0 False False (startWatch_begin k w)) [ClusterInformer, PodInformer, SecretInformer] no_watches"

lemma mw_reach_established: "mw_reach established"
proof -
  have open_watch: "mw_reach (startWatch_return k 0 False False (startWatch_begin k w))" if "mw_reach w" and "mwWatches w k = []" for k w
    using that by (intro mw_reach.step [OF mw_reach.step [OF that(1) mw_step.begins] mw_step.started]) (simp_all add: startWatch_begin_def)
  have frame: "mwWatches (startWatch_return k 0 False False (startWatch_begin k w)) k' = mwWatches w k'" if "k \<noteq> k'" for k k' w
    using that by (simp add: mw_frames set_watch_def startWatch_begin_def)
  show ?thesis unfolding established_def
    by (simp, intro open_watch mw_reach.start) (simp_all add: frame no_watches_def)
qed

theorem readiness_of_watches_witness: "Ready (with_watches established fresh) \<and> watchStarts established = 3 \<and> mw_live established = 3"
proof -
  have "\<forall>k. mwWatches established k \<noteq> [] \<and> last (mwWatches established k) = Forwarding False" "oReady fresh"
    "watchStarts established = 3" "watchEnds established = 0" by code_simp+
  with readiness_of_watches [OF mw_reach_established, of fresh] show ?thesis by simp
qed

text \<open>
  \<open>New\<close> succeeds exactly with all clients, a store, options in range and informers that accept their
  registrations. The observer it returns is not ready, has nothing queued, and gives unary demand the validity of a snapshot.
\<close>

lemma New_exact:
  "(\<exists>n. New kube dyn meta store ok opt = Inr n) \<longleftrightarrow>
     kube \<and> dyn \<and> meta \<and> store \<noteq> None \<and> (\<exists>opt'. New_options opt = Inr opt') \<and> (\<forall>r\<in>set registrations. ok r)"
proof -
  have "initializeInformers ok = None \<longleftrightarrow> (\<forall>r\<in>set registrations. ok r)" by (auto simp: initializeInformers_def find_None_iff)
  then show ?thesis by (auto simp: New_def split: option.splits sum.splits)
qed

lemma New_fresh:
  assumes "New kube dyn meta (Some st) ok opt = Inr n"
  shows "\<not> Ready (with_watches (newWatches n) (newObserver n)) \<and> Len (oQueue (newObserver n)) = 0 \<and>
    unaryLease (oStore (newObserver n)) = optTTL (newOptions n) \<and> New_options opt = Inr (newOptions n)"
  using assms by (auto simp: New_def New_observer_def Ready_def with_watches_def SetDemandHandler_def newObservationQueue_def Len_def
      split: if_splits sum.splits option.splits)

text \<open>The reservations documented for the default limits: four of 32 workers, 16 of 128 probe slots.\<close>

lemma default_reservations: "reservedCapacity 32 = 4" "reservedCapacity 128 = 16"
  by (simp_all add: reservedCapacity_def)

end
