(* ===== verification/Supervisor.thy ===== *)
theory Supervisor
  imports Admission
begin

text \<open>
  The life of the process, \<open>Run\<close> of \<open>internal/server/run.go\<close>: listeners first, then four workers (the CNPG-I
  server, the discovery API, the health server, the observer), then one orderly shutdown with a
  deadline. Servers, listeners and timers are the environment; what they do to \<open>Run\<close> are the steps of
  \<open>run_step\<close>.
\<close>

section \<open>Starting\<close>

datatype run_error =
    BadLimits string | ListenPlugin | ListenDiscovery | ListenHealth
  | Worker_failed string string | Stopped_unexpectedly string | Shutdown_timed_out

text \<open>
  The listeners in order; \<open>ok\<close> says which \<open>net.Listen\<close> succeeds. Beside the error stand the listeners
  that were opened, which the deferred calls close.
\<close>

definition Run_listen :: "Limits \<Rightarrow> bool \<Rightarrow> bool \<Rightarrow> bool \<Rightarrow> (run_error \<times> string list) + string list" where
  "Run_listen limits ok1 ok2 ok3 =
     (case normalized limits of
        Inl e \<Rightarrow> Inl (BadLimits e, [])
      | Inr _ \<Rightarrow>
          if \<not> ok1 then Inl (ListenPlugin, [])
          else if \<not> ok2 then Inl (ListenDiscovery, [''plugin''])
          else if \<not> ok3 then Inl (ListenHealth, [''discovery'', ''plugin''])
          else Inr [''health'', ''discovery'', ''plugin''])"

text \<open>
  The goroutine of a worker, after its function has returned: \<open>closed\<close> says that the error is one of
  \<open>http.ErrServerClosed\<close> and \<open>grpc.ErrServerStopped\<close>, \<open>ctxErr\<close> that the process context is cancelled.
\<close>

definition worker_error :: "string \<Rightarrow> string option \<Rightarrow> bool \<Rightarrow> bool \<Rightarrow> run_error option" where
  "worker_error name err closed ctxErr =
     (let err = (if closed then None else err) in
        case err of
          Some e \<Rightarrow> Some (Worker_failed name e)
        | None \<Rightarrow> if ctxErr then None else Some (Stopped_unexpectedly name))"

definition worker_names :: "string list" where
  "worker_names = [''CNPG-I server'', ''discovery API'', ''health server'', ''observer'']"

section \<open>The select and the shutdown\<close>

text \<open>
  Where \<open>Run\<close> is: in the first select, in the shutdown (which of its four parts are still running: health
  server, discovery server, and the graceful stops of the two gRPC servers), at the first and at the
  second select on the observer, waiting for the workers, or returned.
\<close>

datatype run_phase = Selecting | Shutting "bool list" | Deciding | Awaiting | Joining | Finished "run_error option"

record run_state =
  runPhase :: run_phase
  runCtxDone :: bool
  runCancelled :: bool
  runErrors :: "run_error option list"
  runWorkers :: "bool list"
  runResult :: "run_error option"
  runForced :: bool
  runDeadline :: bool
  runObserverDone :: bool

definition run_start :: run_state where
  "run_start = \<lparr>runPhase = Selecting, runCtxDone = False, runCancelled = False, runErrors = [], runWorkers = [True, True, True, True],
     runResult = None, runForced = False, runDeadline = False, runObserverDone = False\<rparr>"

definition errors_capacity :: nat where
  "errors_capacity = 4"

text \<open>The caller's context ends, and with it the context derived from it.\<close>

definition run_ctx_ends :: "run_state \<Rightarrow> run_state" where
  "run_ctx_ends s = s\<lparr>runCtxDone := True, runCancelled := True\<rparr>"

text \<open>A worker ends and sends; the observer closes its channel first. \<open>None\<close>: the send would block.\<close>

definition run_worker_ends :: "nat \<Rightarrow> string option \<Rightarrow> bool \<Rightarrow> run_state \<Rightarrow> run_state option" where
  "run_worker_ends i err closed s =
     (if length (runErrors s) \<ge> errors_capacity then None
      else Some (s\<lparr>runErrors := runErrors s @ [worker_error (worker_names ! i) err closed (runCancelled s)],
                   runWorkers := (runWorkers s)[i := False], runObserverDone := runObserverDone s \<or> i = 3\<rparr>))"

text \<open>The two branches of the first select, and the \<open>cancel()\<close> that follows.\<close>

definition run_shutdown :: "run_error option \<Rightarrow> run_state \<Rightarrow> run_state" where
  "run_shutdown result s = s\<lparr>runResult := result, runCancelled := True, runPhase := Shutting [True, True, True, True]\<rparr>"

definition run_take_error :: "run_state \<Rightarrow> run_state option" where
  "run_take_error s =
     (case runErrors s of [] \<Rightarrow> None | e # es \<Rightarrow> Some (run_shutdown e (s\<lparr>runErrors := es\<rparr>)))"

text \<open>
  A part of the shutdown ends. An HTTP server that does not drain in time is closed; a gRPC server
  that does not is abandoned to \<open>Stop\<close>, which the flag records.
\<close>

definition run_part_ends :: "nat \<Rightarrow> bool \<Rightarrow> bool list \<Rightarrow> run_state \<Rightarrow> run_state" where
  "run_part_ends j graceful parts s =
     s\<lparr>runPhase := Shutting (parts[j := False]), runForced := runForced s \<or> 2 \<le> j \<and> \<not> graceful\<rparr>"

definition run_observer_branch :: "run_state \<Rightarrow> run_state" where
  "run_observer_branch s = s\<lparr>runPhase := (if runForced s then Finished (runResult s) else Joining)\<rparr>"

definition run_decide :: "run_state \<Rightarrow> run_state" where
  "run_decide s = (if runObserverDone s then run_observer_branch s else s\<lparr>runPhase := Awaiting\<rparr>)"

definition run_timeout_branch :: "run_state \<Rightarrow> run_state" where
  "run_timeout_branch s =
     (let result = (case runResult s of None \<Rightarrow> Some Shutdown_timed_out | Some e \<Rightarrow> Some e) in
        s\<lparr>runResult := result, runPhase := Finished result\<rparr>)"

inductive run_step :: "run_state \<Rightarrow> run_state \<Rightarrow> bool" where
  ctx_ends: "run_step s (run_ctx_ends s)"
| worker_ends: "i < length (runWorkers s) \<Longrightarrow> runWorkers s ! i \<Longrightarrow> run_worker_ends i err closed s = Some t \<Longrightarrow> run_step s t"
| stop_asked: "runPhase s = Selecting \<Longrightarrow> runCtxDone s \<Longrightarrow> run_step s (run_shutdown None s)"
| worker_failed: "runPhase s = Selecting \<Longrightarrow> run_take_error s = Some t \<Longrightarrow> run_step s t"
| deadline: "runPhase s \<noteq> Selecting \<Longrightarrow> run_step s (s\<lparr>runDeadline := True\<rparr>)"
| part_ends: "runPhase s = Shutting parts \<Longrightarrow> j < length parts \<Longrightarrow> parts ! j \<Longrightarrow> graceful \<or> runDeadline s \<Longrightarrow>
    run_step s (run_part_ends j graceful parts s)"
| shut: "runPhase s = Shutting parts \<Longrightarrow> True \<notin> set parts \<Longrightarrow> run_step s (s\<lparr>runPhase := Deciding\<rparr>)"
| decide: "runPhase s = Deciding \<Longrightarrow> run_step s (run_decide s)"
| observer_done: "runPhase s = Awaiting \<Longrightarrow> runObserverDone s \<Longrightarrow> run_step s (run_observer_branch s)"
| timed_out: "runPhase s = Awaiting \<Longrightarrow> runDeadline s \<Longrightarrow> run_step s (run_timeout_branch s)"
| joined: "runPhase s = Joining \<Longrightarrow> True \<notin> set (runWorkers s) \<Longrightarrow> run_step s (s\<lparr>runPhase := Finished (runResult s)\<rparr>)"

inductive run_reach :: "run_state \<Rightarrow> bool" where
  start: "run_reach run_start"
| step: "run_reach s \<Longrightarrow> run_step s t \<Longrightarrow> run_reach t"

section \<open>Invariant\<close>

text \<open>
  Every worker sends once; while serving nothing has been received and a nil error means that the
  caller asked to stop; afterwards so does a nil result, and a nil return also that the observer ended
  and either a server was abandoned or every worker ended.
\<close>

definition ended :: "run_state \<Rightarrow> nat" where
  "ended s = length (filter Not (runWorkers s))"

definition run_inv :: "run_state \<Rightarrow> bool" where
  "run_inv s \<longleftrightarrow> length (runWorkers s) = 4 \<and> length (runErrors s) \<le> ended s \<and>
     (runObserverDone s \<longleftrightarrow> \<not> runWorkers s ! 3) \<and> (runPhase s \<noteq> Selecting \<longrightarrow> runCancelled s) \<and>
     (runPhase s = Selecting \<longrightarrow> length (runErrors s) = ended s \<and> (runCancelled s \<longrightarrow> runCtxDone s) \<and> (None \<in> set (runErrors s) \<longrightarrow> runCtxDone s)) \<and>
     (runPhase s \<noteq> Selecting \<and> runResult s = None \<longrightarrow> runCtxDone s) \<and>
     (runPhase s = Joining \<longrightarrow> runObserverDone s \<and> \<not> runForced s) \<and>
     (\<forall>r. runPhase s = Finished r \<longrightarrow> r = runResult s \<and>
        (runResult s = None \<longrightarrow> runObserverDone s \<and> (runForced s \<or> True \<notin> set (runWorkers s))))"

lemma ended_update: "i < length ws \<Longrightarrow> ws ! i \<Longrightarrow> length (filter Not (ws[i := False])) = Suc (length (filter Not ws))"
  using holders_update [of i ws Not False] by (simp add: holders_def)

lemma run_start_inv: "run_inv run_start"
  by (simp add: run_inv_def run_start_def ended_def)

lemma worker_error_None: "worker_error name err closed ctxErr = None \<Longrightarrow> ctxErr"
  by (auto simp: worker_error_def Let_def split: option.splits if_splits)

lemma send_inv:
  assumes "run_inv s" and "i < length (runWorkers s)" and "runWorkers s ! i" and "run_worker_ends i err closed s = Some t"
  shows "run_inv t"
proof -
  let ?e = "worker_error (worker_names ! i) err closed (runCancelled s)"
  have t: "t = s\<lparr>runErrors := runErrors s @ [?e], runWorkers := (runWorkers s)[i := False], runObserverDone := runObserverDone s \<or> i = 3\<rparr>"
    using assms(4) by (auto simp: run_worker_ends_def split: if_splits)
  have ws: "True \<notin> set ((runWorkers s)[i := False])" if "True \<notin> set (runWorkers s)"
    using that set_update_subset_insert [of "runWorkers s" i False] by auto
  have e: "ended t = Suc (ended s)" using ended_update [OF assms(2,3)] by (simp add: ended_def t)
  have o: "runObserverDone t \<longleftrightarrow> \<not> runWorkers t ! 3"
    using assms by (cases "i = 3") (auto simp: run_inv_def t)
  have n: "?e = None \<Longrightarrow> runCancelled s" by (rule worker_error_None)
  have s: "length (runWorkers s) = 4" "length (runErrors s) \<le> ended s" "runPhase s \<noteq> Selecting \<longrightarrow> runCancelled s"
    "runPhase s = Selecting \<longrightarrow> length (runErrors s) = ended s \<and> (runCancelled s \<longrightarrow> runCtxDone s) \<and> (None \<in> set (runErrors s) \<longrightarrow> runCtxDone s)"
    "runPhase s \<noteq> Selecting \<and> runResult s = None \<longrightarrow> runCtxDone s" "runPhase s = Joining \<longrightarrow> runObserverDone s \<and> \<not> runForced s"
    "\<forall>r. runPhase s = Finished r \<longrightarrow> r = runResult s \<and>
       (runResult s = None \<longrightarrow> runObserverDone s \<and> (runForced s \<or> True \<notin> set (runWorkers s)))"
    using assms(1) unfolding run_inv_def by blast+
  have f: "runPhase t = runPhase s" "runResult t = runResult s" "runCtxDone t = runCtxDone s" "runCancelled t = runCancelled s" "runForced t = runForced s"
    "runErrors t = runErrors s @ [?e]" "runWorkers t = (runWorkers s)[i := False]" "runObserverDone s \<Longrightarrow> runObserverDone t"
    by (simp_all add: t)
  have serving: "runPhase s = Selecting \<longrightarrow> length (runErrors s @ [?e]) = Suc (ended s) \<and> (runCancelled s \<longrightarrow> runCtxDone s) \<and>
      (None \<in> set (runErrors s @ [?e]) \<longrightarrow> runCtxDone s)"
    using s(4) n by auto
  have finished: "\<forall>r. runPhase s = Finished r \<longrightarrow> r = runResult s \<and>
      (runResult s = None \<longrightarrow> runObserverDone t \<and> (runForced s \<or> True \<notin> set ((runWorkers s)[i := False])))"
    using s(7) f(8) ws by blast
  show ?thesis unfolding run_inv_def e o [symmetric] f(1-7)
    using s(1-3,5,6) serving finished f(8) by (intro conjI) (simp_all add: o [unfolded f(7)])
qed

lemma run_step_inv: "run_step s t \<Longrightarrow> run_inv s \<Longrightarrow> run_inv t"
proof (induction rule: run_step.induct)
  case (worker_ends i s err closed t)
  then show ?case using send_inv by blast
next
  case (worker_failed s t)
  then show ?case by (auto simp: run_inv_def run_take_error_def run_shutdown_def ended_def split: list.splits)
next
  case (decide s)
  then show ?case by (auto simp: run_inv_def run_decide_def run_observer_branch_def ended_def)
next
  case (observer_done s)
  then show ?case by (auto simp: run_inv_def run_observer_branch_def ended_def)
next
  case (timed_out s)
  then show ?case by (auto simp: run_inv_def run_timeout_branch_def Let_def ended_def split: option.splits)
qed (auto simp: run_inv_def run_ctx_ends_def run_shutdown_def run_part_ends_def ended_def)

lemma run_reach_inv: "run_reach s \<Longrightarrow> run_inv s"
  by (induction rule: run_reach.induct) (simp_all add: run_start_inv run_step_inv)

lemma ended_bound: "i < length (runWorkers s) \<Longrightarrow> runWorkers s ! i \<Longrightarrow> ended s < length (runWorkers s)"
  using length_filter_less [of "runWorkers s ! i" "runWorkers s" Not] nth_mem unfolding ended_def by blast

text \<open>
  How far \<open>Run\<close> is from returning. After the first select no step increases it, and past the deadline a step
  that needs no worker to end decreases it, except in \<open>workers.Wait()\<close>.
\<close>

definition run_rank :: "run_state \<Rightarrow> nat" where
  "run_rank s = (case runPhase s of
     Selecting \<Rightarrow> 9 | Shutting parts \<Rightarrow> 4 + length (filter id parts) | Deciding \<Rightarrow> 3 | Awaiting \<Rightarrow> 2 | Joining \<Rightarrow> 1 | Finished _ \<Rightarrow> 0)"

lemma parts_update: "j < length parts \<Longrightarrow> parts ! j \<Longrightarrow> Suc (length (filter id (parts[j := False]))) = length (filter id parts)"
  using holders_update [of j parts id False] by (simp add: holders_def)

lemma run_rank_mono:
  assumes "run_step s t" and "runPhase s \<noteq> Selecting"
  shows "run_rank t \<le> run_rank s"
  using assms
proof cases
  case (worker_ends i err closed)
  then show ?thesis by (auto simp: run_rank_def run_worker_ends_def split: if_splits)
next
  case (part_ends parts j graceful)
  then show ?thesis using parts_update [OF part_ends(3,4)] by (simp add: run_rank_def run_part_ends_def)
qed (auto simp: run_rank_def run_ctx_ends_def run_decide_def run_observer_branch_def run_timeout_branch_def Let_def)

lemma run_progress:
  assumes "runDeadline s" and "runPhase s \<noteq> Selecting" and "runPhase s \<noteq> Joining" and "\<forall>r. runPhase s \<noteq> Finished r"
  shows "\<exists>t. run_step s t \<and> run_rank t < run_rank s \<and> runWorkers t = runWorkers s"
proof (cases "runPhase s")
  case (Shutting parts)
  show ?thesis
  proof (cases "True \<in> set parts")
    case True
    then obtain j where j: "j < length parts" "parts ! j" by (auto simp: in_set_conv_nth)
    have "run_step s (run_part_ends j False parts s)" using run_step.part_ends [OF Shutting j] assms(1) by blast
    moreover have "run_rank (run_part_ends j False parts s) < run_rank s"
      using parts_update [OF j] by (simp add: run_rank_def run_part_ends_def Shutting)
    ultimately show ?thesis by (auto simp: run_part_ends_def)
  next
    case False
    then show ?thesis using run_step.shut [OF Shutting] by (intro exI [of _ "s\<lparr>runPhase := Deciding\<rparr>"]) (simp add: run_rank_def Shutting)
  qed
next
  case Deciding
  then show ?thesis using run_step.decide [OF Deciding]
    by (intro exI [of _ "run_decide s"]) (simp add: run_rank_def run_decide_def run_observer_branch_def)
next
  case Awaiting
  then show ?thesis using run_step.timed_out [OF Awaiting assms(1)]
    by (intro exI [of _ "run_timeout_branch s"]) (simp add: run_rank_def run_timeout_branch_def Let_def)
qed (use assms in simp_all)

text \<open>
  C21: the process is supervised as a whole. No worker ever blocks when it reports its end. While the
  process serves, the end of any worker enables the shutdown, and its reported error is not nil unless
  the caller has asked to stop. \<open>Run\<close> returns nil only when the caller asked to stop and the observer has ended, and
  every other worker has too unless a gRPC server had to be abandoned; in particular it returns an
  error whenever a component stops by itself. Once the shutdown has begun no step takes \<open>Run\<close> further from its return; past the
  deadline a step that needs no worker to end takes it closer, and the observer is no longer waited for. The one place where it
  still waits is for its workers, and there the observer has ended and no gRPC server was abandoned, so a handler that
  ignores its cancellation cannot hold up the process.
\<close>

theorem run_supervised:
  assumes "run_reach s"
  shows "(\<forall>i err closed. i < length (runWorkers s) \<and> runWorkers s ! i \<longrightarrow> run_worker_ends i err closed s \<noteq> None) \<and>
    (runPhase s = Selecting \<and> False \<in> set (runWorkers s) \<longrightarrow>
       (\<exists>t. run_take_error s = Some t \<and> run_step s t \<and> (runResult t = None \<longrightarrow> runCtxDone s))) \<and>
    (runPhase s = Finished None \<longrightarrow> runCtxDone s \<and> runObserverDone s \<and> (runForced s \<or> True \<notin> set (runWorkers s))) \<and>
    (\<forall>t. runPhase s \<noteq> Selecting \<and> run_step s t \<longrightarrow> run_rank t \<le> run_rank s) \<and>
    (runDeadline s \<and> runPhase s \<noteq> Selecting \<and> (\<forall>r. runPhase s \<noteq> Finished r) \<longrightarrow>
       (\<exists>t. run_step s t \<and> run_rank t < run_rank s \<and> runWorkers t = runWorkers s) \<or>
       runPhase s = Joining \<and> \<not> runForced s \<and> runObserverDone s) \<and>
    (runPhase s = Joining \<and> True \<notin> set (runWorkers s) \<longrightarrow> (\<exists>t r. run_step s t \<and> runPhase t = Finished r)) \<and>
    (runPhase s = Awaiting \<and> runDeadline s \<longrightarrow> (\<exists>e. runPhase (run_timeout_branch s) = Finished (Some e)))"
proof -
  have inv: "run_inv s" by (rule run_reach_inv [OF assms])
  then have bounds: "length (runWorkers s) = 4" "length (runErrors s) \<le> ended s" by (simp_all add: run_inv_def)
  have send: "run_worker_ends i err closed s \<noteq> None" if "i < length (runWorkers s)" "runWorkers s ! i" for i err closed
    using ended_bound [OF that] bounds by (simp add: run_worker_ends_def errors_capacity_def)
  have take: "\<exists>t. run_take_error s = Some t \<and> run_step s t \<and> (runResult t = None \<longrightarrow> runCtxDone s)"
    if p: "runPhase s = Selecting" and w: "False \<in> set (runWorkers s)"
  proof -
    have "0 < ended s" using w by (auto simp: ended_def filter_empty_conv)
    then obtain e es where e: "runErrors s = e # es" using inv p by (cases "runErrors s") (auto simp: run_inv_def)
    then have t: "run_take_error s = Some (run_shutdown e (s\<lparr>runErrors := es\<rparr>))" by (simp add: run_take_error_def)
    moreover have "e = None \<longrightarrow> runCtxDone s" using inv p e by (auto simp: run_inv_def)
    ultimately show ?thesis using run_step.worker_failed [OF p t] by (auto simp: run_shutdown_def)
  qed
  have joining: "\<not> runForced s \<and> runObserverDone s" if "runPhase s = Joining" using inv that by (auto simp: run_inv_def)
  have joined: "\<exists>t r. run_step s t \<and> runPhase t = Finished r" if "runPhase s = Joining" "True \<notin> set (runWorkers s)"
    using run_step.joined [OF that] by (metis run_state.select_convs(1) run_state.surjective run_state.update_convs(1))
  have "\<exists>e. runPhase (run_timeout_branch s) = Finished (Some e)" by (auto simp: run_timeout_branch_def Let_def split: option.splits)
  moreover have "runCtxDone s \<and> runObserverDone s \<and> (runForced s \<or> True \<notin> set (runWorkers s))" if "runPhase s = Finished None"
    using inv that by (auto simp: run_inv_def)
  ultimately show ?thesis using send take joining joined run_rank_mono run_progress by blast
qed

definition crashed :: run_state where
  "crashed = the (run_worker_ends 1 (Some ''accept'') False run_start)"

text \<open>The shutdown after the crash: the deadline has passed and a gRPC server does not stop.\<close>

definition abandoned :: run_state where
  "abandoned = run_part_ends 2 False [True, True, True, True] ((the (run_take_error crashed))\<lparr>runDeadline := True\<rparr>)"

lemma crashed_reach: "run_reach crashed"
proof -
  have some: "run_worker_ends 1 (Some ''accept'') False run_start = Some crashed"
    by (simp add: crashed_def run_worker_ends_def run_start_def errors_capacity_def)
  have "run_step run_start crashed" by (rule run_step.worker_ends [OF _ _ some]) (simp_all add: run_start_def)
  then show ?thesis by (rule run_reach.step [OF run_reach.start])
qed

lemma crashed_eq: "crashed = run_start\<lparr>runErrors := [Some (Worker_failed ''discovery API'' ''accept'')], runWorkers := [True, False, True, True]\<rparr>"
  by (simp add: crashed_def run_worker_ends_def run_start_def errors_capacity_def worker_error_def worker_names_def numeral_2_eq_2)

lemma abandoned_reach: "run_reach abandoned"
proof -
  obtain t where t: "run_take_error crashed = Some t" by (simp add: crashed_eq run_take_error_def)
  have p: "runPhase t = Shutting [True, True, True, True]" using t by (auto simp: crashed_eq run_take_error_def run_shutdown_def)
  have 1: "run_reach t" using run_reach.step [OF crashed_reach run_step.worker_failed [OF _ t]] by (simp add: crashed_eq run_start_def)
  have 2: "run_reach (t\<lparr>runDeadline := True\<rparr>)" using run_reach.step [OF 1 run_step.deadline] p by simp
  have "run_step (t\<lparr>runDeadline := True\<rparr>) (run_part_ends 2 False [True, True, True, True] (t\<lparr>runDeadline := True\<rparr>))"
    using p by (intro run_step.part_ends) simp_all
  then show ?thesis using run_reach.step [OF 2] by (simp add: abandoned_def t)
qed

theorem run_supervised_witness:
  "(\<exists>t. run_take_error crashed = Some t \<and> runResult t = Some (Worker_failed ''discovery API'' ''accept'')) \<and>
   run_worker_ends 3 None False crashed \<noteq> None \<and> runForced abandoned \<and> runWorkers abandoned = [True, False, True, True] \<and>
   (\<exists>t. run_step abandoned t \<and> run_rank t < run_rank abandoned \<and> runWorkers t = runWorkers abandoned)"
proof -
  note c = run_supervised [OF crashed_reach] and a = run_supervised [OF abandoned_reach]
  have "\<exists>t. run_take_error crashed = Some t" using c by (auto simp: crashed_eq run_start_def)
  then have "\<exists>t. run_take_error crashed = Some t \<and> runResult t = Some (Worker_failed ''discovery API'' ''accept'')"
    by (auto simp: crashed_eq run_take_error_def run_shutdown_def)
  moreover have "run_worker_ends 3 None False crashed \<noteq> None" using c by (simp add: crashed_eq run_start_def numeral_3_eq_3)
  moreover have ab: "runForced abandoned" "runDeadline abandoned" "runPhase abandoned = Shutting [True, True, False, True]"
    "runWorkers abandoned = [True, False, True, True]"
    by (simp_all add: abandoned_def run_part_ends_def crashed_eq run_take_error_def run_shutdown_def run_start_def numeral_2_eq_2)
  moreover have "\<exists>t. run_step abandoned t \<and> run_rank t < run_rank abandoned \<and> runWorkers t = runWorkers abandoned"
    using a ab by simp
  ultimately show ?thesis by blast
qed

section \<open>Health endpoints\<close>

text \<open>
  The routes of \<open>HealthHandler\<close>: the status code and the body it writes, with the metrics as given. The patterns of
  \<open>http.ServeMux\<close> with the verb GET also match HEAD; another verb on a known path is answered with 405.
\<close>

definition health_paths :: "string list" where
  "health_paths = [''/metrics'', ''/healthz'', ''/livez'', ''/readyz'']"

definition live :: "nat \<times> string" where
  "live = (200, ''ok'' @ [CHR 0x0A])"

definition HealthHandler :: "bool \<Rightarrow> bool \<Rightarrow> string \<Rightarrow> string \<Rightarrow> string \<Rightarrow> nat \<times> string" where
  "HealthHandler isReady ctxErr metrics verb path =
     (if path \<notin> set health_paths then (404, ''404 page not found'' @ [CHR 0x0A])
      else if verb \<noteq> ''GET'' \<and> verb \<noteq> ''HEAD'' then (405, ''Method Not Allowed'' @ [CHR 0x0A])
      else if path = ''/metrics'' then (200, if ctxErr then [] else metrics)
      else if path = ''/readyz'' \<and> \<not> isReady then (503, ''initial topology collection pending'' @ [CHR 0x0A])
      else live)"

text \<open>Liveness does not depend on the observer, readiness is the observer's.\<close>

lemma health_answers:
  "HealthHandler isReady ctxErr metrics ''GET'' ''/livez'' = live"
  "fst (HealthHandler isReady ctxErr metrics ''GET'' ''/readyz'') = 200 \<longleftrightarrow> isReady"
  by (simp_all add: HealthHandler_def health_paths_def live_def)

end
