(* ===== verification/Transport.thy ===== *)
theory Transport
  imports Prelude
begin

text \<open>
  Transport credentials: \<open>internal/server/token.go\<close> and \<open>tls.go\<close>. Files, key pairs, certificate pools and
  chain verification are parameters, taken as they are at one instant; every handshake reads them
  again.
\<close>

section \<open>The bearer token\<close>

text \<open>
  The UTF-8 encodings of the characters that \<open>strings.TrimSpace\<close> removes: ASCII white space, U+0085, U+00A0,
  U+1680, U+2000 to U+200A, U+2028, U+2029, U+202F, U+205F and U+3000.
\<close>

definition space_runes :: "string list" where
  "space_runes =
     [[CHR 0x09], [CHR 0x0A], [CHR 0x0B], [CHR 0x0C], [CHR 0x0D], '' '', [CHR 0xC2, CHR 0x85], [CHR 0xC2, CHR 0xA0],
      [CHR 0xE1, CHR 0x9A, CHR 0x80], [CHR 0xE2, CHR 0x80, CHR 0x80], [CHR 0xE2, CHR 0x80, CHR 0x81], [CHR 0xE2, CHR 0x80, CHR 0x82],
      [CHR 0xE2, CHR 0x80, CHR 0x83], [CHR 0xE2, CHR 0x80, CHR 0x84], [CHR 0xE2, CHR 0x80, CHR 0x85], [CHR 0xE2, CHR 0x80, CHR 0x86],
      [CHR 0xE2, CHR 0x80, CHR 0x87], [CHR 0xE2, CHR 0x80, CHR 0x88], [CHR 0xE2, CHR 0x80, CHR 0x89], [CHR 0xE2, CHR 0x80, CHR 0x8A],
      [CHR 0xE2, CHR 0x80, CHR 0xA8], [CHR 0xE2, CHR 0x80, CHR 0xA9], [CHR 0xE2, CHR 0x80, CHR 0xAF], [CHR 0xE2, CHR 0x81, CHR 0x9F],
      [CHR 0xE3, CHR 0x80, CHR 0x80]]"

definition starts_with :: "string list \<Rightarrow> string \<Rightarrow> string option" where
  "starts_with ps s = List.find (\<lambda>p. p \<noteq> [] \<and> take (length p) s = p) ps"

function strip :: "string list \<Rightarrow> string \<Rightarrow> string" where
  "strip ps s = (case starts_with ps s of None \<Rightarrow> s | Some p \<Rightarrow> strip ps (drop (length p) s))"
  by pat_completeness auto
termination
proof (relation "measure (length \<circ> snd)")
  fix ps s p
  assume "starts_with ps s = Some p"
  then have "p \<noteq> []" "take (length p) s = p" by (auto simp: starts_with_def find_Some_iff)
  then show "((ps, drop (length p) s), (ps, s)) \<in> measure (length \<circ> snd)" by (cases s) auto
qed simp

declare strip.simps [simp del]

text \<open>The white space at the right end is a prefix of the reversed text.\<close>

definition TrimSpace :: "string \<Rightarrow> string" where
  "TrimSpace s = rev (strip (map rev space_runes) (rev (strip space_runes s)))"

definition printable :: "char \<Rightarrow> bool" where
  "printable c \<longleftrightarrow> 0x21 \<le> (of_char c :: nat) \<and> (of_char c :: nat) \<le> 0x7e"

datatype token_error = TokenUnreadable | TokenTooShort | TokenNotPrintable

text \<open>A byte outside ASCII belongs to a character above U+007E or is an invalid encoding, which reads as U+FFFD.\<close>

definition ReadToken :: "string option \<Rightarrow> token_error + string" where
  "ReadToken file =
     (case file of
        None \<Rightarrow> Inl TokenUnreadable
      | Some data \<Rightarrow>
          (let token = TrimSpace data in
             if length token < 32 then Inl TokenTooShort
             else if list_ex (\<lambda>c. \<not> printable c) token then Inl TokenNotPrintable
             else Inr token))"

text \<open>Only white space is removed.\<close>

lemma strip_suffix: "\<exists>qs. s = concat qs @ strip ps s \<and> set qs \<subseteq> set ps"
proof (induction ps s rule: strip.induct)
  case (1 ps s)
  show ?case
  proof (cases "starts_with ps s")
    case None
    then show ?thesis by (subst strip.simps) (auto intro: exI [of _ "[]"])
  next
    case (Some p)
    then have p: "p \<in> set ps" "s = p @ drop (length p) s"
      by (auto simp: starts_with_def find_Some_iff) (metis append_take_drop_id)
    obtain qs where "drop (length p) s = concat qs @ strip ps (drop (length p) s)" "set qs \<subseteq> set ps" using 1 [OF Some] by blast
    then show ?thesis using p Some by (intro exI [of _ "p # qs"]) (simp add: strip.simps [of ps s])
  qed
qed

lemma space_not_printable:
  assumes "p \<in> set space_runes"
  shows "p \<noteq> []" "\<not> printable (hd p)" "\<not> printable (last p)"
proof -
  have "list_all (\<lambda>p. p \<noteq> [] \<and> \<not> printable (hd p) \<and> \<not> printable (last p)) space_runes" by code_simp
  then show "p \<noteq> []" "\<not> printable (hd p)" "\<not> printable (last p)" using assms by (auto simp: list_all_iff)
qed

lemma strip_printable:
  assumes "\<And>p. p \<in> set ps \<Longrightarrow> p \<noteq> [] \<Longrightarrow> \<not> printable (hd p)" and "s = [] \<or> printable (hd s)"
  shows "strip ps s = s"
proof -
  have "\<not> (p \<noteq> [] \<and> take (length p) s = p)" if "p \<in> set ps" for p
  proof
    assume p: "p \<noteq> [] \<and> take (length p) s = p"
    then have "s \<noteq> []" by auto
    moreover from this p have "hd s = hd p" by (metis hd_take length_greater_0_conv)
    ultimately show False using assms that p by auto
  qed
  then have "starts_with ps s = None" by (simp add: starts_with_def find_None_iff)
  then show ?thesis by (simp add: strip.simps)
qed

lemma TrimSpace_newline:
  assumes "token \<noteq> []" and "list_all printable token"
  shows "TrimSpace (token @ [CHR 0x0A]) = token" "TrimSpace token = token"
proof -
  have hd: "printable (hd token)" "printable (hd (rev token))" using assms by (auto simp: list_all_iff hd_rev)
  have l: "strip space_runes (token @ r) = token @ r" for r
    by (rule strip_printable) (use space_not_printable hd assms(1) in auto)
  have m: "strip (map rev space_runes) (rev token) = rev token"
    by (rule strip_printable) (use space_not_printable hd in \<open>auto simp: hd_rev\<close>)
  have "starts_with (map rev space_runes) (CHR 0x0A # rev token) = Some [CHR 0x0A]"
    by (simp add: starts_with_def space_runes_def)
  then have "strip (map rev space_runes) (CHR 0x0A # rev token) = rev token" by (simp add: strip.simps [of _ "CHR 0x0A # rev token"] m)
  then show "TrimSpace (token @ [CHR 0x0A]) = token" by (simp add: TrimSpace_def l)
  show "TrimSpace token = token" using l [of "[]"] by (simp add: TrimSpace_def m)
qed

text \<open>
  An accepted token is long enough, printable, and the file without white space around it; and a
  file that holds such a token, with or without a final line feed, is accepted.
\<close>

lemma ReadToken_exact:
  "ReadToken (Some data) = Inr token \<Longrightarrow> 32 \<le> length token \<and> list_all printable token \<and>
     (\<exists>before after. data = concat before @ token @ concat after \<and> set before \<subseteq> set space_runes \<and> set after \<subseteq> set space_runes)"
  "32 \<le> length token \<Longrightarrow> list_all printable token \<Longrightarrow> ReadToken (Some token) = Inr token \<and> ReadToken (Some (token @ [CHR 0x0A])) = Inr token"
proof -
  assume r: "ReadToken (Some data) = Inr token"
  then have t: "token = TrimSpace data" "32 \<le> length token" "list_all printable token"
    by (auto simp: ReadToken_def Let_def list_all_iff list_ex_iff split: if_splits)
  obtain before where b: "data = concat before @ strip space_runes data" "set before \<subseteq> set space_runes" using strip_suffix by blast
  obtain qs where q: "rev (strip space_runes data) = concat qs @ rev token" "set qs \<subseteq> set (map rev space_runes)"
    using strip_suffix [of "rev (strip space_runes data)" "map rev space_runes"] by (auto simp: t(1) TrimSpace_def)
  have "strip space_runes data = token @ concat (rev (map rev qs))"
    using arg_cong [OF q(1), of rev] by (simp add: rev_concat rev_map)
  moreover have "set (rev (map rev qs)) \<subseteq> set space_runes" using q(2) by auto
  ultimately show "32 \<le> length token \<and> list_all printable token \<and>
     (\<exists>before after. data = concat before @ token @ concat after \<and> set before \<subseteq> set space_runes \<and> set after \<subseteq> set space_runes)"
    using t b by metis
next
  assume t: "32 \<le> length token" "list_all printable token"
  then have "token \<noteq> []" by auto
  then show "ReadToken (Some token) = Inr token \<and> ReadToken (Some (token @ [CHR 0x0A])) = Inr token"
    using TrimSpace_newline t by (simp add: ReadToken_def list_ex_iff list_all_iff linorder_not_less)
qed

section \<open>TLS\<close>

text \<open>
  The environment of one load: the key pairs on disk, the validity of a certificate's leaf, files, trust
  pools, and the verification of a client certificate for client authentication.
\<close>

record ('cert, 'pool, 'peer) tls_env =
  LoadX509KeyPair :: "string \<Rightarrow> string \<Rightarrow> 'cert option"
  leaf_validity :: "'cert \<Rightarrow> (time \<times> time) option"
  trust_file :: "string \<Rightarrow> string option"
  AppendCertsFromPEM :: "string \<Rightarrow> 'pool option"
  verify_client :: "'pool \<Rightarrow> 'peer list \<Rightarrow> 'peer \<Rightarrow> bool"

datatype tls_error = KeyPair | LeafCertificate | OutsideValidity | TrustUnreadable | TrustEmpty

datatype tls_version = VersionTLS12 | VersionTLS13

text \<open>
  \<open>cfgClientTrust\<close>: \<open>ClientAuth\<close> requires a certificate and \<open>VerifyConnection\<close> checks it against this pool; the code sets
  both or neither, so that one field stands for the two. \<open>GetConfigForClient\<close> is the function of a handshake below.
\<close>

record ('cert, 'pool) tls_config =
  cfgMinVersion :: tls_version
  cfgCertificate :: 'cert
  cfgNextProtos :: "string list"
  cfgSessionTicketsDisabled :: bool
  cfgClientTrust :: "'pool option"

definition tls_load :: "('cert, 'pool, 'peer) tls_env \<Rightarrow> time \<Rightarrow> string \<Rightarrow> string \<Rightarrow> string \<Rightarrow> tls_error + ('cert, 'pool) tls_config" where
  "tls_load X now certFile keyFile clientTrust =
     (case LoadX509KeyPair X certFile keyFile of
        None \<Rightarrow> Inl KeyPair
      | Some cert \<Rightarrow>
     (case leaf_validity X cert of
        None \<Rightarrow> Inl LeafCertificate
      | Some (notBefore, notAfter) \<Rightarrow>
          if now < notBefore \<or> \<not> now < notAfter then Inl OutsideValidity
          else
            let cfg = \<lparr>cfgMinVersion = VersionTLS13, cfgCertificate = cert, cfgNextProtos = [''h2'', ''http/1.1''],
                        cfgSessionTicketsDisabled = True, cfgClientTrust = None\<rparr> in
              if clientTrust = [] then Inr cfg
              else case trust_file X clientTrust of
                None \<Rightarrow> Inl TrustUnreadable
              | Some pem \<Rightarrow> (case AppendCertsFromPEM X pem of None \<Rightarrow> Inl TrustEmpty | Some pool \<Rightarrow> Inr (cfg\<lparr>cfgClientTrust := Some pool\<rparr>))))"

text \<open>\<open>TLSConfig\<close> is a first load; \<open>GetConfigForClient\<close> of what it returns loads again.\<close>

definition TLSConfig :: "('cert, 'pool, 'peer) tls_env \<Rightarrow> time \<Rightarrow> string \<Rightarrow> string \<Rightarrow> string \<Rightarrow> tls_error + ('cert, 'pool) tls_config" where
  "TLSConfig X now certFile keyFile clientTrust = tls_load X now certFile keyFile clientTrust"

definition VerifyConnection :: "('cert, 'pool, 'peer) tls_env \<Rightarrow> 'pool \<Rightarrow> 'peer list \<Rightarrow> bool" where
  "VerifyConnection X pool peers = (case peers of [] \<Rightarrow> False | leaf # intermediates \<Rightarrow> verify_client X pool intermediates leaf)"

definition handshake :: "('cert, 'pool, 'peer) tls_env \<Rightarrow> time \<Rightarrow> string \<Rightarrow> string \<Rightarrow> string \<Rightarrow> 'peer list \<Rightarrow> tls_error + bool" where
  "handshake X now certFile keyFile clientTrust peers =
     (case tls_load X now certFile keyFile clientTrust of
        Inl e \<Rightarrow> Inl e
      | Inr cfg \<Rightarrow> Inr (case cfgClientTrust cfg of None \<Rightarrow> True | Some pool \<Rightarrow> VerifyConnection X pool peers))"

text \<open>
  A rotation fails closed: a connection to the operator's port is accepted only with a client certificate
  that verifies against the trust bundle on disk at that moment, and only while the server certificate
  on disk is valid.
\<close>

lemma handshake_fails_closed:
  assumes "clientTrust \<noteq> []" and "handshake X now certFile keyFile clientTrust peers = Inr True"
  shows "\<exists>cert notBefore notAfter pem pool leaf intermediates.
    LoadX509KeyPair X certFile keyFile = Some cert \<and> leaf_validity X cert = Some (notBefore, notAfter) \<and> notBefore \<le> now \<and> now < notAfter \<and>
    trust_file X clientTrust = Some pem \<and> AppendCertsFromPEM X pem = Some pool \<and>
    peers = leaf # intermediates \<and> verify_client X pool intermediates leaf"
  using assms
  by (auto simp: handshake_def tls_load_def Let_def VerifyConnection_def split: option.splits if_splits list.splits)

lemma tls_load_hardened:
  "tls_load X now certFile keyFile clientTrust = Inr cfg \<Longrightarrow>
     cfgMinVersion cfg = VersionTLS13 \<and> cfgSessionTicketsDisabled cfg \<and> (cfgClientTrust cfg = None \<longleftrightarrow> clientTrust = [])"
  by (auto simp: tls_load_def Let_def split: option.splits if_splits)

end
