(* ===== verification/Settings.thy ===== *)
theory Settings
  imports Command_Line Informers Supervisor Transport Discovery_Server
begin

text \<open>
  The settings of \<open>cmd/cnpg-connect-plugin/main.go\<close>: their validation and what \<open>run\<close> builds from them. Durations are
  64-bit integers here, because \<open>validate\<close> is written so that its arithmetic cannot wrap around.
  Kubernetes clients are not modelled.
\<close>

section \<open>Validation\<close>

datatype settings_error =
    BadLimit string | BadQPS | BadBurst | BadDurations | BadConcurrency | TTLTooShort | EmptyAddress
  | InsecureWithCredentials | MissingPluginTLS | MissingDiscoveryTLS

definition settings_validate :: "settings \<Rightarrow> settings_error option" where
  "settings_validate s =
     (case Limits_Validate (set_limits s) of
        Some e \<Rightarrow> Some (BadLimit e)
      | None \<Rightarrow>
          if \<not> float_positive (kubeAPIQPS s) \<or> float_above (kubeAPIQPS s) MaxFloat32 \<or> float32 (kubeAPIQPS s) = Fin 0 then Some BadQPS
          else if kubeAPIBurst s \<le> 0 then Some BadBurst
          else if pollInterval s \<le>s 0 \<or> probeTimeout s \<le>s 0 \<or> set_ttl s \<le>s 0 then Some BadDurations
          else if maxConcurrency s < 1 \<or> maxConcurrency s > 1024 \<or> maxConcurrentClusters s < 1 \<or> maxConcurrentClusters s > 1024
            then Some BadConcurrency
          else if set_ttl s \<le>s pollInterval s \<or> set_ttl s - pollInterval s \<le>s probeTimeout s then Some TTLTooShort
          else if pluginAddress s = [] \<or> discoveryAddress s = [] \<or> healthAddress s = [] then Some EmptyAddress
          else if insecure s then
            (if serverCert s \<noteq> [] \<or> serverKey s \<noteq> [] \<or> clientCA s \<noteq> [] \<or> discoveryCert s \<noteq> [] \<or> discoveryKey s \<noteq> [] \<or> authTokenFile s \<noteq> []
             then Some InsecureWithCredentials else None)
          else if serverCert s = [] \<or> serverKey s = [] \<or> clientCA s = [] then Some MissingPluginTLS
          else if \<not> discoveryPlaintext s \<and> (discoveryCert s = [] \<or> discoveryKey s = []) then Some MissingDiscoveryTLS
          else None)"

section \<open>What run builds\<close>

definition options_of :: "settings \<Rightarrow> Options" where
  "options_of s = \<lparr>optNamespace = set_namespace s, optPollInterval = sint (pollInterval s), optTTL = sint (set_ttl s),
     optProbeTimeout = sint (probeTimeout s), optMaxConcurrency = maxConcurrency s, optMaxConcurrentClusters = maxConcurrentClusters s\<rparr>"

text \<open>
  The credentials \<open>run\<close> loads: TLS of the two ports and the token of the discovery server, with the
  files as they are at the start.
\<close>

datatype credential_error = PluginTLSError tls_error | DiscoveryTLSError tls_error | TokenError token_error

record ('cert, 'pool) credentials =
  credPlugin :: "('cert, 'pool) tls_config option"
  credDiscovery :: "('cert, 'pool) tls_config option"
  credToken :: string

definition load_credentials :: "('cert, 'pool, 'peer) tls_env \<Rightarrow> (string \<Rightarrow> string option) \<Rightarrow> time \<Rightarrow> settings
    \<Rightarrow> credential_error + ('cert, 'pool) credentials" where
  "load_credentials X token_file now s =
     (if insecure s then Inr \<lparr>credPlugin = None, credDiscovery = None, credToken = []\<rparr>
      else case TLSConfig X now (serverCert s) (serverKey s) (clientCA s) of
        Inl e \<Rightarrow> Inl (PluginTLSError e)
      | Inr plugin \<Rightarrow>
     (case (if discoveryPlaintext s then Inr None
            else (case TLSConfig X now (discoveryCert s) (discoveryKey s) [] of Inl e \<Rightarrow> Inl e | Inr c \<Rightarrow> Inr (Some c))) of
        Inl e \<Rightarrow> Inl (DiscoveryTLSError e)
      | Inr discovery \<Rightarrow>
     (case (if authTokenFile s \<noteq> [] then ReadToken (token_file (authTokenFile s)) else Inr []) of
        Inl e \<Rightarrow> Inl (TokenError e)
      | Inr token \<Rightarrow> Inr \<lparr>credPlugin = Some plugin, credDiscovery = discovery, credToken = token\<rparr>)))"

text \<open>
  The options of \<open>server.Run\<close>, and the Kubernetes configuration as \<open>run\<close> completes it.
\<close>

record ('cert, 'pool, 'h) run_options =
  roPluginAddress :: string
  roDiscoveryAddress :: string
  roHealthAddress :: string
  roPluginTLS :: "('cert, 'pool) tls_config option"
  roDiscoveryTLS :: "('cert, 'pool) tls_config option"
  roVersion :: string
  roLimits :: Limits
  roDiscovery :: "'h Server"

record kube_config =
  kcUserAgent :: string
  kcQPS :: go_float
  kcBurst :: int

definition kube_config_of :: "string \<Rightarrow> settings \<Rightarrow> kube_config" where
  "kube_config_of version s = \<lparr>kcUserAgent = ''cnpg-connect-plugin/'' @ version, kcQPS = float32 (kubeAPIQPS s), kcBurst = kubeAPIBurst s\<rparr>"

text \<open>
  \<open>run\<close> from the command line to \<open>server.Run\<close>. What it uses of the system: the version, the reading of numbers, the hash of the
  token, TLS and files, the random prefix of the store, whether a configuration can be loaded from a
  kubeconfig path and clients made of it, and which registrations the informers accept. Log lines are left out.
\<close>

record ('h, 'cert, 'pool, 'peer) menv =
  mVersion :: string
  mFlags :: flag_parsers
  mSHA :: "string \<Rightarrow> 'h"
  mTLS :: "('cert, 'pool, 'peer) tls_env"
  mFile :: "string \<Rightarrow> string option"
  mRand :: "8 word list option"
  mKube :: "string \<Rightarrow> string option"
  mClients :: "kube_config \<Rightarrow> string option"
  mRegister :: "registration \<Rightarrow> bool"

datatype main_error = UsageError flag_error | SettingsError settings_error | CredentialError credential_error | KubeError string | ObserverError init_error

datatype ('cert, 'pool, 'h, 'd) main_outcome =
    Quits | PrintsVersion string | Fails main_error | Panics | Serves "('cert, 'pool, 'h) run_options" "'d new_observer"

definition main_run :: "('h, 'cert, 'pool, 'peer) menv \<Rightarrow> time \<Rightarrow> string list \<Rightarrow> ('cert, 'pool, 'h, 'd) main_outcome" where
  "main_run M now args =
     (case parseSettings (mFlags M) args of
        Help \<Rightarrow> Quits
      | BadFlags e \<Rightarrow> Fails (UsageError e)
      | Flags s \<Rightarrow>
          if showVersion s then PrintsVersion (mVersion M)
          else case settings_validate s of
            Some e \<Rightarrow> Fails (SettingsError e)
          | None \<Rightarrow>
              (case load_credentials (mTLS M) (mFile M) now s of
                 Inl e \<Rightarrow> Fails (CredentialError e)
               | Inr cred \<Rightarrow>
                   (case mKube M (kubeconfig s) of
                      Some e \<Rightarrow> Fails (KubeError e)
                    | None \<Rightarrow>
                        (case mClients M (kube_config_of (mVersion M) s) of
                           Some e \<Rightarrow> Fails (KubeError e)
                         | None \<Rightarrow>
                             (case NewStore (mRand M) of
                                None \<Rightarrow> Panics
                              | Some store \<Rightarrow>
                                  (case New True True True (Some store) (mRegister M) (options_of s) of
                                     Inl e \<Rightarrow> Fails (ObserverError e)
                                   | Inr n \<Rightarrow> Serves
                                       \<lparr>roPluginAddress = pluginAddress s, roDiscoveryAddress = discoveryAddress s,
                                        roHealthAddress = healthAddress s, roPluginTLS = credPlugin cred, roDiscoveryTLS = credDiscovery cred,
                                        roVersion = mVersion M, roLimits = set_limits s, roDiscovery = NewServer (mSHA M) (credToken cred)\<rparr> n))))))"

section \<open>Validation is exact\<close>

text \<open>What the settings mean, over the integers.\<close>

definition settings_ok :: "settings \<Rightarrow> bool" where
  "settings_ok s \<longleftrightarrow> limits_ok (with_defaults (set_limits s)) \<and>
     (\<exists>q. kubeAPIQPS s = Fin q \<and> 1 < q * 2 ^ 150 \<and> q \<le> MaxFloat32) \<and> 0 < kubeAPIBurst s \<and>
     0 < sint (pollInterval s) \<and> 0 < sint (probeTimeout s) \<and> sint (pollInterval s) + sint (probeTimeout s) < sint (set_ttl s) \<and>
     1 \<le> maxConcurrency s \<and> maxConcurrency s \<le> 1024 \<and> 1 \<le> maxConcurrentClusters s \<and> maxConcurrentClusters s \<le> 1024 \<and>
     pluginAddress s \<noteq> [] \<and> discoveryAddress s \<noteq> [] \<and> healthAddress s \<noteq> [] \<and>
     (if insecure s then serverCert s = [] \<and> serverKey s = [] \<and> clientCA s = [] \<and> discoveryCert s = [] \<and> discoveryKey s = [] \<and> authTokenFile s = []
      else serverCert s \<noteq> [] \<and> serverKey s \<noteq> [] \<and> clientCA s \<noteq> [] \<and> (discoveryPlaintext s \<or> discoveryCert s \<noteq> [] \<and> discoveryKey s \<noteq> []))"

lemma sint_sub_positive:
  fixes a b :: "64 word"
  assumes "0 < sint b" and "sint b < sint a"
  shows "sint (a - b) = sint a - sint b"
proof -
  have "sint a < 2 ^ 63" using sint_lt [of a] by simp
  then have "signed_take_bit 63 (sint a - sint b) = sint a - sint b"
    using assms by (intro signed_take_bit_int_eq_self) simp_all
  then show ?thesis by (simp add: sint_word_diff)
qed

lemma ttl_check:
  assumes "0 < sint (pollInterval s)"
  shows "\<not> (set_ttl s \<le>s pollInterval s \<or> set_ttl s - pollInterval s \<le>s probeTimeout s) \<longleftrightarrow>
    sint (pollInterval s) < sint (set_ttl s) \<and> sint (pollInterval s) + sint (probeTimeout s) < sint (set_ttl s)"
proof (cases "sint (pollInterval s) < sint (set_ttl s)")
  case True
  then show ?thesis using sint_sub_positive [OF assms True] by (auto simp: word_sle_eq)
qed (simp add: word_sle_eq)

lemma qps_check:
  "\<not> (\<not> float_positive x \<or> float_above x MaxFloat32 \<or> float32 x = Fin 0) \<longleftrightarrow> (\<exists>q. x = Fin q \<and> 1 < q * 2 ^ 150 \<and> q \<le> MaxFloat32)"
proof (cases x)
  case (Fin q)
  have "0 < q" if "1 < q * 2 ^ 150" using that by (cases "0 < q") (auto simp: not_less mult_nonpos_nonneg intro: order_trans)
  with Fin show ?thesis unfolding float32_zero by (auto simp: not_less not_le)
qed simp_all

lemma durations_check:
  "pollInterval s \<le>s 0 \<longleftrightarrow> \<not> 0 < sint (pollInterval s)" "probeTimeout s \<le>s 0 \<longleftrightarrow> \<not> 0 < sint (probeTimeout s)"
  "set_ttl s \<le>s 0 \<longleftrightarrow> \<not> 0 < sint (set_ttl s)"
  by (auto simp: word_sle_eq)

lemma limits_check: "Limits_Validate l = None \<longleftrightarrow> limits_ok (with_defaults l)"
  using normalized_eq [of l "with_defaults l"] normalized_eq [of l]
  by (cases "normalized l") (auto simp: Limits_Validate_def)

text \<open>A chain of guarded early returns.\<close>

lemma guard_None: "(if c then Some e else x) = None \<longleftrightarrow> \<not> c \<and> x = None"
  by simp

lemma validate_exact: "settings_validate s = None \<longleftrightarrow> settings_ok s"
proof (cases "Limits_Validate (set_limits s)")
  case None
  let ?tls = "if insecure s
    then serverCert s = [] \<and> serverKey s = [] \<and> clientCA s = [] \<and> discoveryCert s = [] \<and> discoveryKey s = [] \<and> authTokenFile s = []
    else serverCert s \<noteq> [] \<and> serverKey s \<noteq> [] \<and> clientCA s \<noteq> [] \<and> (discoveryPlaintext s \<or> discoveryCert s \<noteq> [] \<and> discoveryKey s \<noteq> [])"
  have tls: "(if insecure s then
      (if serverCert s \<noteq> [] \<or> serverKey s \<noteq> [] \<or> clientCA s \<noteq> [] \<or> discoveryCert s \<noteq> [] \<or> discoveryKey s \<noteq> [] \<or> authTokenFile s \<noteq> []
       then Some InsecureWithCredentials else None)
      else if serverCert s = [] \<or> serverKey s = [] \<or> clientCA s = [] then Some MissingPluginTLS
      else if \<not> discoveryPlaintext s \<and> (discoveryCert s = [] \<or> discoveryKey s = []) then Some MissingDiscoveryTLS else None) = None \<longleftrightarrow> ?tls"
    by (cases "insecure s") simp_all
  let ?short = "set_ttl s \<le>s pollInterval s \<or> set_ttl s - pollInterval s \<le>s probeTimeout s"
  have ttl: "0 < sint (pollInterval s) \<and> 0 < sint (probeTimeout s) \<and> 0 < sint (set_ttl s) \<and> \<not> ?short \<longleftrightarrow>
      0 < sint (pollInterval s) \<and> 0 < sint (probeTimeout s) \<and> sint (pollInterval s) + sint (probeTimeout s) < sint (set_ttl s)"
    using ttl_check [of s] by auto
  have "settings_validate s = None \<longleftrightarrow>
      (\<exists>q. kubeAPIQPS s = Fin q \<and> 1 < q * 2 ^ 150 \<and> q \<le> MaxFloat32) \<and> 0 < kubeAPIBurst s \<and>
      (0 < sint (pollInterval s) \<and> 0 < sint (probeTimeout s) \<and> 0 < sint (set_ttl s) \<and> \<not> ?short) \<and>
      (1 \<le> maxConcurrency s \<and> maxConcurrency s \<le> 1024 \<and> 1 \<le> maxConcurrentClusters s \<and> maxConcurrentClusters s \<le> 1024) \<and>
      (pluginAddress s \<noteq> [] \<and> discoveryAddress s \<noteq> [] \<and> healthAddress s \<noteq> []) \<and> ?tls"
    unfolding settings_validate_def None option.case guard_None tls durations_check qps_check by (simp only: not_le not_less de_Morgan_disj not_not) blast
  then show ?thesis using None unfolding ttl settings_ok_def limits_check by blast
next
  case (Some e)
  then have "\<not> limits_ok (with_defaults (set_limits s))" using limits_check [of "set_limits s"] by simp
  with Some show ?thesis by (simp add: settings_validate_def settings_ok_def)
qed

text \<open>The client gets a rate that is positive and finite, so it is limited and not blocked.\<close>

lemma rate_converted:
  assumes "settings_ok s"
  shows "\<exists>r. kcQPS (kube_config_of version s) = Fin r \<and> 0 < r \<and> r \<le> MaxFloat32"
proof -
  from assms obtain q where q: "kubeAPIQPS s = Fin q" "1 < q * 2 ^ 150" "q \<le> MaxFloat32" by (auto simp: settings_ok_def)
  then have pos: "0 < q" by (cases "0 < q") (auto simp: not_less mult_nonpos_nonneg intro: order_trans)
  have "0 \<le> float32_positive q" by (rule float32_positive_nonneg [OF pos])
  moreover have "float32_positive q \<noteq> 0" using float32_positive_zero [OF pos] q(2) by simp
  ultimately show ?thesis using float32_positive_bounded [OF pos q(3)] pos by (simp add: kube_config_of_def q(1) Let_def)
qed

lemma options_accepted: "settings_ok s \<Longrightarrow> New_options (options_of s) = Inr (options_of s)"
  by (auto simp: settings_ok_def New_options_def options_of_def)

lemma token_nonempty: "ReadToken f = Inr tok \<Longrightarrow> tok \<noteq> []"
  by (auto simp: ReadToken_def Let_def split: option.splits if_splits)

text \<open>
  C27: validation is exact and what it accepts can be run. Settings are accepted exactly when, over the
  integers (the 64-bit arithmetic does not wrap around), the validity of a snapshot exceeds the refresh
  interval plus the probe timeout, all other values are in their ranges, the request rate is a finite
  positive float32, and the credentials are complete, or absent in insecure mode. Accepted settings pass
  the checks of the observer unchanged and those of the admission, give every observation a positive
  I/O budget that ends before the snapshot it renews expires, and the credentials loaded from them
  require TLS 1.3 and a client certificate on the operator's port and TLS on the discovery port unless it is behind a gateway.
\<close>

theorem settings_exact:
  "(settings_validate s = None \<longleftrightarrow> settings_ok s) \<and>
   (settings_validate s = None \<longrightarrow> New_options (options_of s) = Inr (options_of s) \<and>
      normalized (set_limits s) = Inr (with_defaults (set_limits s)) \<and>
      0 < observe_timeout (options_of s) \<and> observe_timeout (options_of s) + sint (pollInterval s) \<le> sint (set_ttl s)) \<and>
   (settings_validate s = None \<and> \<not> insecure s \<longrightarrow>
      (case load_credentials X token_file now s of
         Inl _ \<Rightarrow> True
       | Inr cred \<Rightarrow>
           (\<exists>cfg. credPlugin cred = Some cfg \<and> cfgMinVersion cfg = VersionTLS13 \<and> cfgClientTrust cfg \<noteq> None) \<and>
           (credDiscovery cred = None \<longleftrightarrow> discoveryPlaintext s) \<and> (credToken cred = [] \<longleftrightarrow> authTokenFile s = [])))"
proof (intro conjI impI)
  show "settings_validate s = None \<longleftrightarrow> settings_ok s" by (rule validate_exact)
  assume "settings_validate s = None"
  then have ok: "settings_ok s" by (simp add: validate_exact)
  then show "New_options (options_of s) = Inr (options_of s)" by (rule options_accepted)
  show "normalized (set_limits s) = Inr (with_defaults (set_limits s))" using ok by (simp add: settings_ok_def normalized_eq)
  show "0 < observe_timeout (options_of s)" "observe_timeout (options_of s) + sint (pollInterval s) \<le> sint (set_ttl s)"
    using ok by (auto simp: settings_ok_def observe_timeout_def options_of_def Let_def)
next
  assume a: "settings_validate s = None \<and> \<not> insecure s"
  then have "clientCA s \<noteq> []" using validate_exact [of s] by (simp add: settings_ok_def)
  have hard: "TLSConfig X now (serverCert s) (serverKey s) (clientCA s) = Inr cfg \<Longrightarrow> cfgMinVersion cfg = VersionTLS13 \<and> cfgClientTrust cfg \<noteq> None" for cfg
    using tls_load_hardened [of X now "serverCert s" "serverKey s" "clientCA s" cfg] \<open>clientCA s \<noteq> []\<close> by (simp add: TLSConfig_def)
  show "case load_credentials X token_file now s of
         Inl _ \<Rightarrow> True
       | Inr cred \<Rightarrow>
           (\<exists>cfg. credPlugin cred = Some cfg \<and> cfgMinVersion cfg = VersionTLS13 \<and> cfgClientTrust cfg \<noteq> None) \<and>
           (credDiscovery cred = None \<longleftrightarrow> discoveryPlaintext s) \<and> (credToken cred = [] \<longleftrightarrow> authTokenFile s = [])"
    using a hard token_nonempty by (auto simp: load_credentials_def split: sum.splits if_splits)
qed

lemma default_limits_ok: "limits_ok (with_defaults DefaultLimits)"
  by (simp add: limits_ok_def with_defaults_def DefaultLimits_def Second_def Millisecond_def Minute_def)

text \<open>The default settings with certificates and a token, and an environment in which they load.\<close>

definition example_settings :: settings where
  "example_settings = default_settings\<lparr>serverCert := ''server.crt'', serverKey := ''server.key'', clientCA := ''client.crt'',
     discoveryPlaintext := True, authTokenFile := ''token''\<rparr>"

definition example_tls :: "(nat, nat, nat) tls_env" where
  "example_tls = \<lparr>LoadX509KeyPair = (\<lambda>c k. Some 0), leaf_validity = (\<lambda>c. Some (10, 20)), trust_file = (\<lambda>f. Some []),
     AppendCertsFromPEM = (\<lambda>p. Some 0), verify_client = (\<lambda>p i l. True)\<rparr>"

definition example_token :: string where
  "example_token = replicate 32 CHR ''t''"

lemma example_token_read: "ReadToken (Some example_token) = Inr example_token"
proof -
  have "list_all printable example_token" by code_simp
  then show ?thesis using ReadToken_exact(2) [of example_token] by (simp add: example_token_def)
qed

lemma example_credentials: "\<exists>cred. load_credentials example_tls (\<lambda>f. Some example_token) 15 example_settings = Inr cred"
  by (simp add: load_credentials_def TLSConfig_def tls_load_def example_tls_def example_settings_def default_settings_def example_token_read)

theorem settings_exact_witness:
  "settings_validate example_settings = None \<and> observe_timeout (options_of example_settings) = 4000000000 \<and>
   New_options (options_of example_settings) = Inr (options_of example_settings) \<and>
   (\<exists>cred. load_credentials example_tls (\<lambda>f. Some example_token) 15 example_settings = Inr cred \<and>
      (\<exists>cfg. credPlugin cred = Some cfg \<and> cfgMinVersion cfg = VersionTLS13 \<and> cfgClientTrust cfg \<noteq> None) \<and>
      credDiscovery cred = None \<and> credToken cred \<noteq> [])"
proof -
  have "settings_ok example_settings"
    by (simp add: settings_ok_def example_settings_def default_settings_def default_limits_ok MaxFloat32_def)
  then have ok: "settings_validate example_settings = None" by (simp add: validate_exact)
  obtain cred where c: "load_credentials example_tls (\<lambda>f. Some example_token) 15 example_settings = Inr cred"
    using example_credentials by blast
  have t: "observe_timeout (options_of example_settings) = 4000000000"
    by (simp add: observe_timeout_def options_of_def example_settings_def default_settings_def)
  show ?thesis
    using settings_exact [of example_settings example_tls "\<lambda>f. Some example_token" 15] ok c t
    by (simp add: example_settings_def default_settings_def)
qed

text \<open>
  What is served comes from accepted settings, with a token required exactly when a token file is
  configured, and without TLS on the operator's port only in insecure mode, where listeners bind to
  the loopback address unless an address was given. After the validation, the observer can only fail in its registrations.
\<close>

lemma main_runE:
  assumes "main_run M now args = Serves ro n"
  obtains s cred where "parseSettings (mFlags M) args = Flags s" "settings_ok s" "load_credentials (mTLS M) (mFile M) now s = Inr cred"
    "newOptions n = options_of s" "\<not> Ready (with_watches (newWatches n) (newObserver n))"
    "ro = \<lparr>roPluginAddress = pluginAddress s, roDiscoveryAddress = discoveryAddress s, roHealthAddress = healthAddress s,
       roPluginTLS = credPlugin cred, roDiscoveryTLS = credDiscovery cred, roVersion = mVersion M, roLimits = set_limits s,
       roDiscovery = NewServer (mSHA M) (credToken cred)\<rparr>"
proof -
  from assms obtain s cred store where p: "parseSettings (mFlags M) args = Flags s" and v: "settings_validate s = None"
    and c: "load_credentials (mTLS M) (mFile M) now s = Inr cred" and o: "New True True True (Some store) (mRegister M) (options_of s) = Inr n"
    and e: "ro = \<lparr>roPluginAddress = pluginAddress s, roDiscoveryAddress = discoveryAddress s, roHealthAddress = healthAddress s,
       roPluginTLS = credPlugin cred, roDiscoveryTLS = credDiscovery cred, roVersion = mVersion M, roLimits = set_limits s,
       roDiscovery = NewServer (mSHA M) (credToken cred)\<rparr>"
    by (auto simp: main_run_def split: parsed.splits if_splits option.splits sum.splits)
  have "New_options (options_of s) = Inr (options_of s)" using v options_accepted by (simp add: validate_exact)
  with New_fresh [OF o] show thesis using that p v c e by (simp add: validate_exact)
qed

lemma main_serves:
  assumes "main_run M now args = Serves ro n"
  shows "\<exists>s. parseSettings (mFlags M) args = Flags s \<and> settings_ok s \<and> newOptions n = options_of s \<and> roLimits ro = set_limits s \<and>
    (authenticated (roDiscovery ro) \<longleftrightarrow> authTokenFile s \<noteq> []) \<and> (roPluginTLS ro = None \<longleftrightarrow> insecure s)"
proof -
  obtain s cred where p: "parseSettings (mFlags M) args = Flags s" and ok: "settings_ok s" and c: "load_credentials (mTLS M) (mFile M) now s = Inr cred"
    and n: "newOptions n = options_of s" and ro: "ro = \<lparr>roPluginAddress = pluginAddress s, roDiscoveryAddress = discoveryAddress s,
       roHealthAddress = healthAddress s, roPluginTLS = credPlugin cred, roDiscoveryTLS = credDiscovery cred, roVersion = mVersion M,
       roLimits = set_limits s, roDiscovery = NewServer (mSHA M) (credToken cred)\<rparr>"
    using main_runE [OF assms] by metis
  have "(credToken cred = [] \<longleftrightarrow> authTokenFile s = []) \<and> (credPlugin cred = None \<longleftrightarrow> insecure s)"
    using c ok token_nonempty by (auto simp: load_credentials_def settings_ok_def split: if_splits sum.splits)
  then show ?thesis using p ok n by (simp add: ro NewServer_def)
qed

lemma insecure_loopback:
  assumes "main_run M now args = Serves ro n" and "flags_loop (mFlags M) default_settings [] args = FlagValues s explicit 0" and "insecure s"
    and "''plugin-address'' \<notin> set explicit" and "''discovery-address'' \<notin> set explicit" and "''health-address'' \<notin> set explicit"
  shows "roPluginAddress ro = ''127.0.0.1:9090'' \<and> roDiscoveryAddress ro = ''127.0.0.1:8080'' \<and> roHealthAddress ro = ''127.0.0.1:8081''"
proof -
  obtain s' where "parseSettings (mFlags M) args = Flags s'" "roPluginAddress ro = pluginAddress s'"
    "roDiscoveryAddress ro = discoveryAddress s'" "roHealthAddress ro = healthAddress s'"
    using main_runE [OF assms(1)] by (metis run_options.select_convs(1,2,3))
  then show ?thesis using assms(2-6) by (auto simp: parseSettings_def flags_result_def parse_finish_def split: if_splits)
qed

lemma observer_error_registration:
  assumes "main_run M now args = (Fails (ObserverError e) :: ('cert, 'pool, 'h, 'd) main_outcome)"
  shows "\<exists>r. e = Unregistered r"
proof -
  from assms obtain s and store :: "'d store" where "settings_validate s = None" "New True True True (Some store) (mRegister M) (options_of s) = Inl e"
    by (auto simp: main_run_def split: parsed.splits if_splits option.splits sum.splits)
  then show ?thesis using options_accepted [of s] by (auto simp: validate_exact New_def split: option.splits)
qed

text \<open>
  The validation accepts a validity of three nanoseconds, whose quarter is zero, so that the observer
  panics when it creates its expiry ticker.
\<close>

lemma accepted_ttl_panics:
  "\<exists>s. settings_validate s = None \<and> sint (set_ttl s) = 3 \<and> lcPhase (run_synced (options_of s) l) = Panicking"
proof -
  let ?s = "example_settings\<lparr>pollInterval := 1, probeTimeout := 1, set_ttl := 3\<rparr>"
  have "settings_ok ?s" by (simp add: settings_ok_def example_settings_def default_settings_def default_limits_ok MaxFloat32_def)
  then have "settings_validate ?s = None" by (simp add: validate_exact)
  moreover have "lcPhase (run_synced (options_of ?s) l) = Panicking" by (simp add: smallest_ttl_panics options_of_def)
  ultimately show ?thesis by (intro exI [of _ ?s]) simp
qed

end
