(* ===== verification/Http_Boundary.thy ===== *)
theory Http_Boundary
  imports Admission Discovery_Server
begin

text \<open>
  The HTTP/2 boundary of the discovery port, \<open>internal/server/discovery_http.go\<close> and \<open>TagRPC\<close> of \<open>admission.go\<close>:
  the metadata and the path a request is admitted with, the trailers-only response of a rejected one, the
  life of an admitted one until its handler returns, the server's limits, and the maximum age of a
  connection. HTTP/2 itself and gRPC's \<open>ServeHTTP\<close> are the environment; the numbers of the status codes
  are gRPC's and a parameter.
\<close>

section \<open>Percent encoding\<close>

text \<open>\<open>url.PathEscape\<close>: letters, digits, and the unreserved and reserved characters of a path segment stay.\<close>

definition path_plain :: "char \<Rightarrow> bool" where
  "path_plain c \<longleftrightarrow> (let n = of_char c :: nat in 48 \<le> n \<and> n \<le> 57 \<or> 65 \<le> n \<and> n \<le> 90 \<or> 97 \<le> n \<and> n \<le> 122) \<or> c \<in> set ''-_.~$&+=:@''"

definition upper_hex :: "nat \<Rightarrow> char" where
  "upper_hex d = (if d < 10 then char_of (48 + d) else char_of (55 + d))"

definition escape_char :: "char \<Rightarrow> string" where
  "escape_char c = (if path_plain c then [c] else [CHR ''%'', upper_hex (of_char c div 16), upper_hex (of_char c mod 16)])"

definition PathEscape :: "string \<Rightarrow> string" where
  "PathEscape s = concat (map escape_char s)"

text \<open>What a client decodes.\<close>

definition unhex :: "char \<Rightarrow> nat option" where
  "unhex c = (let n = of_char c :: nat in
     if 48 \<le> n \<and> n \<le> 57 then Some (n - 48) else if 65 \<le> n \<and> n \<le> 70 then Some (n - 55)
     else if 97 \<le> n \<and> n \<le> 102 then Some (n - 87) else None)"

fun PathUnescape :: "string \<Rightarrow> string option" where
  "PathUnescape [] = Some []"
| "PathUnescape [c] = (if c = CHR ''%'' then None else Some [c])"
| "PathUnescape [c, d] = (if c = CHR ''%'' then None else map_option ((#) c) (PathUnescape [d]))"
| "PathUnescape (c # d # e # s) =
     (if c = CHR ''%'' then
        (case (unhex d, unhex e) of
           (Some h, Some l) \<Rightarrow> map_option ((#) (char_of (16 * h + l))) (PathUnescape s)
         | _ \<Rightarrow> None)
      else map_option ((#) c) (PathUnescape (d # e # s)))"

lemma unhex_upper_hex: "d < 16 \<Longrightarrow> unhex (upper_hex d) = Some d"
  by (auto simp: unhex_def upper_hex_def Let_def of_char_of)

lemma PathUnescape_plain: "c \<noteq> CHR ''%'' \<Longrightarrow> PathUnescape (c # s) = map_option ((#) c) (PathUnescape s)"
  by (cases s; cases "tl s") auto

lemma path_plain_no_percent: "path_plain c \<Longrightarrow> c \<noteq> CHR ''%''"
  by (auto simp: path_plain_def Let_def)

lemma char_halves: "char_of (16 * ((of_char c :: nat) div 16) + of_char c mod 16) = c"
  by (metis char_of_char mult_div_mod_eq)

lemma halves_small: "(of_char c :: nat) div 16 < 16" "(of_char c :: nat) mod 16 < 16"
  by (rule less_mult_imp_div_less) simp_all

lemma PathEscape_roundtrip: "PathUnescape (PathEscape s) = Some s"
proof (induction s)
  case (Cons c s)
  show ?case using Cons path_plain_no_percent [of c] PathUnescape_plain [of c]
    by (simp add: PathEscape_def escape_char_def unhex_upper_hex halves_small char_halves)
qed (simp add: PathEscape_def)

text \<open>No header value can be split: every character of the encoding is printable and no space.\<close>

definition visible :: "char \<Rightarrow> bool" where
  "visible c \<longleftrightarrow> 33 \<le> (of_char c :: nat) \<and> (of_char c :: nat) \<le> 126"

lemma visible_hex: "d < 16 \<Longrightarrow> visible (upper_hex d)"
  by (auto simp: visible_def upper_hex_def of_char_of)

lemma visible_escape: "list_all visible (PathEscape s)"
proof (induction s)
  case (Cons c s)
  have "path_plain c \<Longrightarrow> visible c" by (auto simp: path_plain_def visible_def Let_def)
  moreover have "visible CHR ''%''" by (simp add: visible_def)
  ultimately show ?case using Cons by (simp add: PathEscape_def escape_char_def visible_hex halves_small)
qed (simp add: PathEscape_def)

section \<open>Admission of a request\<close>

text \<open>A request: its header fields in the order of iteration, its path, and the error of its context.\<close>

record http_request =
  reqHeader :: "(string \<times> string list) list"
  reqPath :: string
  reqErr :: "ctxErr option"

type_synonym metadata = "string \<rightharpoonup> string list"

definition incoming_metadata :: "(string \<times> string list) list \<Rightarrow> metadata" where
  "incoming_metadata header = fold (\<lambda>(name, vals) md. md(map ascii_lower name \<mapsto> vals)) header Map.empty"

text \<open>\<open>metadata.ValueFromIncomingContext\<close>, and the function that the server installs at the admission.\<close>

definition ValueFromIncomingContext :: "metadata \<Rightarrow> string \<Rightarrow> string list" where
  "ValueFromIncomingContext md key = (case md key of None \<Rightarrow> [] | Some vals \<Rightarrow> vals)"

definition Authorize :: "(string \<Rightarrow> 'h) \<Rightarrow> 'h Server \<Rightarrow> metadata \<Rightarrow> grpcError option" where
  "Authorize sha srv md = authorize sha srv (ValueFromIncomingContext md ''authorization'')"

record http_response =
  respStatus :: nat
  respHeader :: "(string \<times> string) list"

definition rejection :: "(grpcCode \<Rightarrow> nat) \<Rightarrow> grpcError \<Rightarrow> http_response" where
  "rejection N e = (case e of (code, message) \<Rightarrow>
     \<lparr>respStatus = 200, respHeader = [(''Content-Type'', ''application/grpc''), (''Grpc-Status'', show_nat (N code)),
        (''Grpc-Message'', PathEscape message)]\<rparr>)"

definition handler_begin :: "(grpcCode \<Rightarrow> nat) \<Rightarrow> http_request \<Rightarrow> metadata admission \<Rightarrow> ((http_response + admittedRPC) \<times> metadata admission) option" where
  "handler_begin N req a =
     (case admit (reqErr req) (incoming_metadata (reqHeader req)) (reqPath req) a of
        None \<Rightarrow> None
      | Some (Inl e, a) \<Rightarrow> Some (Inl (rejection N e), a)
      | Some (Inr r, a) \<Rightarrow> Some (Inr r, a))"

text \<open>
  C24: the HTTP boundary fails closed and loses nothing. A request never blocks there. A rejected one gets
  a well-formed gRPC response with status 200 from which a client reads the code and the message of the
  error, whatever bytes the message has, and it holds no slot. A request is served only when both
  contexts are live and, with a token configured, exactly one value of its authorization header, in any
  letter case of the name, is a bearer credential with the digest of the token; ending it gives back
  all it reserved.
\<close>

theorem http_boundary:
  assumes "inj N"
  shows "case handler_begin N req a of
      None \<Rightarrow> False
    | Some (Inl resp, a') \<Rightarrow>
        (\<exists>code message. admit (reqErr req) (incoming_metadata (reqHeader req)) (reqPath req) a = Some (Inl (code, message), a') \<and>
           respStatus resp = 200 \<and>
           (\<exists>v. map_of (respHeader resp) ''Grpc-Status'' = Some v \<and> (\<forall>c. N c = read_nat v \<longleftrightarrow> c = code)) \<and>
           (\<exists>v. map_of (respHeader resp) ''Grpc-Message'' = Some v \<and> PathUnescape v = Some message \<and> list_all visible v)) \<and>
        aRpcs a' = aRpcs a \<and> aWatches a' = aWatches a
    | Some (Inr r, a') \<Rightarrow>
        aCtxErr a = None \<and> reqErr req = None \<and> finish r a' = Some a \<and>
        (\<forall>(sha :: string \<Rightarrow> 'h) token. aAuthorize a = Some (Authorize sha (NewServer sha token)) \<and> token \<noteq> [] \<longrightarrow>
           (\<exists>scheme t. incoming_metadata (reqHeader req) ''authorization'' = Some [scheme @ CHR '' '' # t] \<and>
              EqualFold scheme ''Bearer'' \<and> sha t = sha token))"
proof -
  let ?md = "incoming_metadata (reqHeader req)"
  note out = admit_outcomes [of a "reqErr req" ?md "reqPath req"]
  consider e a' where "admit (reqErr req) ?md (reqPath req) a = Some (Inl e, a')" | r a' where "admit (reqErr req) ?md (reqPath req) a = Some (Inr r, a')"
    by (cases "admit (reqErr req) ?md (reqPath req) a") (use out in simp, metis sum.exhaust surj_pair)
  then show ?thesis
  proof cases
    case (1 e a')
    obtain code message where e: "e = (code, message)" by fastforce
    have slots: "aRpcs a' = aRpcs a" "aWatches a' = aWatches a" using out 1 by auto
    have "N c = read_nat (show_nat (N code)) \<longleftrightarrow> c = code" for c using assms by (simp add: read_show_nat inj_eq)
    then show ?thesis using 1 e slots by (simp add: handler_begin_def rejection_def PathEscape_roundtrip visible_escape)
  next
    case (2 r a')
    have live: "aCtxErr a = None" "reqErr req = None" "finish r a' = Some a" and auth: "aAuthorize a = Some f \<Longrightarrow> f ?md = None" for f
      using out 2 by auto
    have "\<exists>scheme t. ?md ''authorization'' = Some [scheme @ CHR '' '' # t] \<and> EqualFold scheme ''Bearer'' \<and> sha t = sha token"
      if "aAuthorize a = Some (Authorize sha (NewServer sha token))" "token \<noteq> []" for sha :: "string \<Rightarrow> 'h" and token
      using auth [OF that(1)] that(2) by (auto simp: Authorize_def authorize_exact ValueFromIncomingContext_def split: option.splits)
    then show ?thesis using 2 live by (simp add: handler_begin_def)
  qed
qed

fun sample_codes :: "grpcCode \<Rightarrow> nat" where
  "sample_codes Canceled = 1"
| "sample_codes InvalidArgument = 3"
| "sample_codes DeadlineExceeded = 4"
| "sample_codes NotFound = 5"
| "sample_codes ResourceExhausted = 8"
| "sample_codes Unauthenticated = 16"

definition guarded_admission :: "metadata admission" where
  "guarded_admission = \<lparr>aConnections = 0, aCtxErr = None, aLimits = DefaultLimits, aAuthorize = Some (Authorize id (NewServer id ''secret'')),
     aRpcs = make_slots 2, aWatches = make_slots 1, aRejectedAuth = 0, aRejectedCapacity = 0, aTimedout = 0\<rparr>"

definition stranger :: http_request where
  "stranger = \<lparr>reqHeader = [(''Authorization'', [''Bearer guess''])], reqPath = ''/'', reqErr = None\<rparr>"

theorem http_boundary_witness:
  "\<exists>resp a'. handler_begin sample_codes stranger guarded_admission = Some (Inl resp, a') \<and>
     (\<exists>v. map_of (respHeader resp) ''Grpc-Message'' = Some v \<and> PathUnescape v = Some ''valid bearer token required'' \<and> list_all visible v) \<and>
     aRpcs a' = aRpcs guarded_admission"
proof -
  have inj: "inj sample_codes"
  proof (rule injI)
    fix c d
    assume "sample_codes c = sample_codes d"
    then show "c = d" by (cases c; cases d) simp_all
  qed
  have md: "incoming_metadata (reqHeader stranger) ''authorization'' = Some [''Bearer guess'']" by code_simp
  have "Authorize id (NewServer id ''secret'') (incoming_metadata (reqHeader stranger)) = Some (Unauthenticated, ''valid bearer token required'')"
    unfolding Authorize_def ValueFromIncomingContext_def md by code_simp
  then have "admit (reqErr stranger) (incoming_metadata (reqHeader stranger)) (reqPath stranger) guarded_admission =
      Some (Inl (Unauthenticated, ''valid bearer token required''), guarded_admission\<lparr>aRejectedAuth := 1\<rparr>)"
    by (simp add: admit_def admit_rpc_def guarded_admission_def stranger_def)
  then show ?thesis using http_boundary [OF inj, of stranger guarded_admission] by (auto simp: handler_begin_def)
qed

section \<open>Serving an admitted request\<close>

text \<open>
  The handler between admission and return: the reservation, the write deadline, whether the body was
  closed, how many bytes of it were read, the context that \<open>TagRPC\<close> made (\<open>Some True\<close> when it is cancelled),
  and whether \<open>ServeHTTP\<close> has returned.
\<close>

record exchange =
  exState :: admittedRPC
  exWrites :: responseWriteDeadline
  exBodyClosed :: bool
  exRead :: nat
  exRPC :: "bool option"
  exReturned :: bool

definition max_body :: nat where
  "max_body = 64 * 1024 + 5"

definition exchange_start :: "admittedRPC \<Rightarrow> exchange" where
  "exchange_start r = \<lparr>exState = r, exWrites = new_write_deadline, exBodyClosed = False, exRead = 0, exRPC = None, exReturned = False\<rparr>"

text \<open>The function that runs after the context of the reservation ends.\<close>

definition stop_io :: "time \<Rightarrow> exchange \<Rightarrow> exchange" where
  "stop_io now x = x\<lparr>exWrites := responseWriteDeadline_cancel now (exWrites x), exBodyClosed := True\<rparr>"

text \<open>\<open>http.MaxBytesReader\<close> and \<open>initialRequestBody.Read\<close>: \<open>n\<close> bytes, and whether they end the body.\<close>

definition read_body :: "nat \<Rightarrow> bool \<Rightarrow> exchange \<Rightarrow> exchange option" where
  "read_body n eof x =
     (if exBodyClosed x \<or> exRead x + n > max_body then None
      else Some (x\<lparr>exRead := exRead x + n, exState := initialRequestBody_Read eof (exState x)\<rparr>))"

definition TagRPC :: "exchange \<Rightarrow> exchange" where
  "TagRPC x = x\<lparr>exRPC := Some (rpcCanceled (exState x))\<rparr>"

text \<open>The context of the RPC ends, by its own deadline, its end, or that of the reservation; then its function runs.\<close>

definition rpc_ends :: "exchange \<Rightarrow> exchange" where
  "rpc_ends x = x\<lparr>exRPC := Some True\<rparr>"

definition cancel_write :: "time \<Rightarrow> exchange \<Rightarrow> exchange" where
  "cancel_write now x = x\<lparr>exWrites := responseWriteDeadline_cancel now (exWrites x)\<rparr>"

definition handler_returns :: "exchange \<Rightarrow> exchange" where
  "handler_returns x = x\<lparr>exWrites := responseWriteDeadline_close (exWrites x), exReturned := True\<rparr>"

inductive ex_step :: "exchange \<Rightarrow> exchange \<Rightarrow> bool" where
  canceled: "ex_step x (x\<lparr>exState := (exState x)\<lparr>rpcCanceled := True\<rparr>\<rparr>)"
| stop: "rpcCanceled (exState x) \<Longrightarrow> ex_step x (stop_io now x)"
| body: "read_body n eof x = Some y \<Longrightarrow> ex_step x y"
| tag: "exRPC x = None \<Longrightarrow> \<not> exReturned x \<Longrightarrow> ex_step x (TagRPC x)"
| ends: "exRPC x \<noteq> None \<Longrightarrow> ex_step x (rpc_ends x)"
| late: "exRPC x = Some True \<Longrightarrow> ex_step x (cancel_write now x)"
| returns: "\<not> exReturned x \<Longrightarrow> ex_step x (handler_returns x)"

inductive ex_reach :: "exchange \<Rightarrow> bool" where
  start: "ex_reach (exchange_start r)"
| step: "ex_reach x \<Longrightarrow> ex_step x y \<Longrightarrow> ex_reach y"

definition ex_inv :: "exchange \<Rightarrow> bool" where
  "ex_inv x \<longleftrightarrow> exRead x \<le> max_body \<and> (wdController (exWrites x) \<longleftrightarrow> \<not> exReturned x) \<and> (wdArmed (exWrites x) \<longleftrightarrow> wdDeadline (exWrites x) \<noteq> None) \<and>
     (wdArmed (exWrites x) \<longrightarrow> rpcCanceled (exState x) \<or> exRPC x = Some True)"

lemma ex_step_inv: "ex_step x y \<Longrightarrow> ex_inv x \<Longrightarrow> ex_inv y"
  by (induction rule: ex_step.induct)
    (auto simp: ex_inv_def stop_io_def read_body_def TagRPC_def rpc_ends_def cancel_write_def handler_returns_def initialRequestBody_Read_def
      responseWriteDeadline_cancel_def responseWriteDeadline_close_def split: if_splits)

lemma ex_reach_inv: "ex_reach x \<Longrightarrow> ex_inv x"
proof (induction rule: ex_reach.induct)
  case (start r)
  then show ?case by (simp add: ex_inv_def exchange_start_def new_write_deadline_def)
qed (rule ex_step_inv)

text \<open>
  A response gets a write deadline only after a cancellation, once, and never after its handler has
  returned, when the response writer may belong to another request; and no more of the body is read
  than one framed message of the maximum size.
\<close>

lemma exchange_bounded:
  assumes "ex_reach x"
  shows "exRead x \<le> max_body" "wdDeadline (exWrites x) \<noteq> None \<Longrightarrow> rpcCanceled (exState x) \<or> exRPC x = Some True"
    "ex_step x y \<Longrightarrow> exReturned x \<or> wdDeadline (exWrites x) \<noteq> None \<Longrightarrow> wdDeadline (exWrites y) = wdDeadline (exWrites x)"
    "\<not> exReturned x \<Longrightarrow> wdDeadline (exWrites x) = None \<Longrightarrow> wdDeadline (exWrites (stop_io now x)) = Some (now + canceledResponseGrace)"
proof -
  have inv: "ex_inv x" by (rule ex_reach_inv [OF assms])
  then show "exRead x \<le> max_body" "wdDeadline (exWrites x) \<noteq> None \<Longrightarrow> rpcCanceled (exState x) \<or> exRPC x = Some True"
    by (auto simp: ex_inv_def)
  show "\<not> exReturned x \<Longrightarrow> wdDeadline (exWrites x) = None \<Longrightarrow> wdDeadline (exWrites (stop_io now x)) = Some (now + canceledResponseGrace)"
    using inv by (auto simp: ex_inv_def stop_io_def responseWriteDeadline_cancel_def)
  assume "ex_step x y" "exReturned x \<or> wdDeadline (exWrites x) \<noteq> None"
  then show "wdDeadline (exWrites y) = wdDeadline (exWrites x)"
    using inv by cases (auto simp: ex_inv_def stop_io_def read_body_def TagRPC_def rpc_ends_def cancel_write_def handler_returns_def
        responseWriteDeadline_cancel_def responseWriteDeadline_close_def split: if_splits)
qed

section \<open>The server and its connections\<close>

text \<open>The limits of \<open>discoveryHTTPServer\<close>; \<open>tls\<close> is whether a TLS configuration is given.\<close>

record http_server =
  srvHTTP2 :: bool
  srvUnencryptedHTTP2 :: bool
  srvMaxConcurrentStreams :: int
  srvMaxReceiveBufferPerStream :: nat
  srvReadHeaderTimeout :: duration
  srvMaxHeaderBytes :: nat
  srvConnectionAge :: duration

definition discoveryHTTPServer :: "'c admission \<Rightarrow> bool \<Rightarrow> http_server" where
  "discoveryHTTPServer a tls = \<lparr>srvHTTP2 = True, srvUnencryptedHTTP2 = (\<not> tls), srvMaxConcurrentStreams = MaxConcurrentStreams (aLimits a),
     srvMaxReceiveBufferPerStream = 64 * 1024, srvReadHeaderTimeout = 5 * Second, srvMaxHeaderBytes = 16 * 1024 - 320,
     srvConnectionAge = 5 * Minute + 30 * Second\<rparr>"

datatype conn_state = StateNew | StateActive | StateIdle | StateHijacked | StateClosed

text \<open>\<open>connectionLifetime\<close>: the timers of the connections, by the instant they fire.\<close>

definition connectionLifetime :: "duration \<Rightarrow> time \<Rightarrow> nat \<Rightarrow> conn_state \<Rightarrow> (nat \<rightharpoonup> time) \<Rightarrow> (nat \<rightharpoonup> time)" where
  "connectionLifetime age now conn state timers =
     (case state of StateNew \<Rightarrow> timers(conn \<mapsto> now + age) | StateClosed \<Rightarrow> timers(conn := None) | _ \<Rightarrow> timers)"

text \<open>
  The listener: the clock, the open connections with the instant of their start, the timers, and the
  connections that a timer has closed. Timers are on time: the clock does not pass a timer that has
  not fired.
\<close>

record conns =
  cnNow :: time
  cnOpen :: "nat \<rightharpoonup> time"
  cnTimers :: "nat \<rightharpoonup> time"
  cnClosing :: "nat set"

inductive age_step :: "duration \<Rightarrow> conns \<Rightarrow> conns \<Rightarrow> bool" for age where
  opens: "cnOpen s conn = None \<Longrightarrow> conn \<notin> cnClosing s \<Longrightarrow>
    age_step age s (s\<lparr>cnOpen := (cnOpen s)(conn \<mapsto> cnNow s), cnTimers := connectionLifetime age (cnNow s) conn StateNew (cnTimers s)\<rparr>)"
| changes: "state = StateActive \<or> state = StateIdle \<Longrightarrow>
    age_step age s (s\<lparr>cnTimers := connectionLifetime age (cnNow s) conn state (cnTimers s)\<rparr>)"
| fires: "cnTimers s conn = Some d \<Longrightarrow> d \<le> cnNow s \<Longrightarrow> age_step age s (s\<lparr>cnClosing := insert conn (cnClosing s)\<rparr>)"
| closes: "cnOpen s conn \<noteq> None \<Longrightarrow>
    age_step age s (s\<lparr>cnOpen := (cnOpen s)(conn := None), cnTimers := connectionLifetime age (cnNow s) conn StateClosed (cnTimers s)\<rparr>)"
| passes: "cnNow s \<le> now \<Longrightarrow> (\<And>conn d. cnTimers s conn = Some d \<Longrightarrow> d < now \<Longrightarrow> conn \<in> cnClosing s) \<Longrightarrow> age_step age s (s\<lparr>cnNow := now\<rparr>)"

inductive age_reach :: "duration \<Rightarrow> conns \<Rightarrow> bool" for age where
  start: "age_reach age \<lparr>cnNow = now, cnOpen = Map.empty, cnTimers = Map.empty, cnClosing = {}\<rparr>"
| step: "age_reach age s \<Longrightarrow> age_step age s t \<Longrightarrow> age_reach age t"

text \<open>
  Every open connection has its timer and no other connection has one, so no timer is kept for a
  connection that is gone; and no connection stays open beyond the maximum age, so that rotated
  certificates take effect.
\<close>

lemma connection_age:
  assumes "age_reach age s" and "0 \<le> age"
  shows "cnTimers s = (\<lambda>conn. map_option (\<lambda>opened. opened + age) (cnOpen s conn))"
    "cnOpen s conn = Some opened \<Longrightarrow> conn \<notin> cnClosing s \<Longrightarrow> cnNow s \<le> opened + age"
proof -
  have "cnTimers s = (\<lambda>conn. map_option (\<lambda>opened. opened + age) (cnOpen s conn)) \<and>
      (\<forall>conn opened. cnOpen s conn = Some opened \<and> conn \<notin> cnClosing s \<longrightarrow> cnNow s \<le> opened + age)"
    using assms(1)
  proof (induction rule: age_reach.induct)
    case (step s t)
    from step.hyps(2) show ?case
    proof cases
      case (passes now)
      have "now \<le> opened + age" if "cnOpen s conn = Some opened" "conn \<notin> cnClosing s" for conn opened
        using passes(3) [of conn "opened + age"] step.IH that by fastforce
      then show ?thesis using step.IH unfolding passes(1) by auto
    qed (use step.IH assms(2) in \<open>auto simp: connectionLifetime_def fun_eq_iff\<close>)
  qed simp
  then show "cnTimers s = (\<lambda>conn. map_option (\<lambda>opened. opened + age) (cnOpen s conn))"
    "cnOpen s conn = Some opened \<Longrightarrow> conn \<notin> cnClosing s \<Longrightarrow> cnNow s \<le> opened + age" by auto
qed

end
