(* ===== verification/Metrics.thy ===== *)
theory Metrics
  imports Complex_Main Store_Props Admission Observer_Props Probes
begin

text \<open>
  What a scrape of the health port reports: \<open>WriteMetrics\<close> of the store (\<open>internal/discovery/metrics.go\<close>), of the
  admission (\<open>internal/server/metrics.go\<close>) and the part of the observer's (\<open>internal/observer/metrics.go\<close>) that
  reads state of this model. A metric is its name with labels and its value; the exposition format and
  the rounding to float64 are the metrics library's. Histograms are not modelled.
\<close>

section \<open>The store\<close>

text \<open>The zero \<open>time.Time\<close>, in nanoseconds since the epoch.\<close>

definition zero_Time :: time where
  "zero_Time = - 62135596800 * Second"

definition Seconds :: "duration \<Rightarrow> rat" where
  "Seconds d = of_int d / of_int Second"

definition snapshot_state :: "time \<Rightarrow> 'd store_record \<Rightarrow> nat" where
  "snapshot_state now r =
     (if rExpired r \<or> \<not> now < sValidUntil (pSnapshot (rPublication r)) then 2
      else if sAvailable (pSnapshot (rPublication r)) then 0 else 1)"

text \<open>One iteration over the records: the three counts and the greatest age.\<close>

definition count_record :: "time \<Rightarrow> 'd store_record \<Rightarrow> nat list \<times> rat \<Rightarrow> nat list \<times> rat" where
  "count_record now r acc =
     (case acc of (states, oldest) \<Rightarrow>
        (let i = snapshot_state now r; observed = sObservedAt (pSnapshot (rPublication r)) in
           (states[i := states ! i + 1], if observed \<noteq> zero_Time then max oldest (Seconds (now - observed)) else oldest)))"

definition Store_WriteMetrics :: "time \<Rightarrow> clusterKey list \<Rightarrow> clusterKey list \<Rightarrow> 'd store \<Rightarrow> (string \<times> rat) list" where
  \<open>Store_WriteMetrics now order watched s =
     (let (states, oldest) = fold (count_record now) (map (\<lambda>key. the (records s key)) order) ([0, 0, 0], 0);
          watchers = sum_list (map (\<lambda>key. length (watchers_of key s)) watched)
      in [(''cnpg_connect_snapshots{state="available"}'', of_nat (states ! 0)),
          (''cnpg_connect_snapshots{state="unavailable"}'', of_nat (states ! 1)),
          (''cnpg_connect_snapshots{state="expired"}'', of_nat (states ! 2)),
          (''cnpg_connect_watchers'', of_nat watchers),
          (''cnpg_connect_snapshot_oldest_age_seconds'', oldest),
          (''cnpg_connect_publications_total'', of_nat (publicationOrder s)),
          (''cnpg_connect_snapshot_expirations_total'', of_nat (expirations s)),
          (''cnpg_connect_watch_coalesced_total'', of_nat (coalesced s))])\<close>

section \<open>The admission and the observer\<close>

definition admission_WriteMetrics :: "'c admission \<Rightarrow> (string \<times> rat) list" where
  \<open>admission_WriteMetrics a =
     concat (map (\<lambda>(name, used, limit).
        [(''cnpg_connect_admission_in_use{kind="'' @ name @ ''"}'', of_int used),
         (''cnpg_connect_admission_limit{kind="'' @ name @ ''"}'', of_int limit)])
       [(''rpcs'', int (slotUsed (aRpcs a)), MaxRPCs (aLimits a)), (''watches'', int (slotUsed (aWatches a)), MaxWatches (aLimits a)),
        (''connections'', aConnections a, MaxConnections (aLimits a))]) @
     [(''cnpg_connect_admission_rejections_total{reason="auth"}'', of_nat (aRejectedAuth a)),
      (''cnpg_connect_admission_rejections_total{reason="capacity"}'', of_nat (aRejectedCapacity a)),
      (''cnpg_connect_admission_initial_timeouts_total'', of_nat (aTimedout a))]\<close>

definition watch_up :: "string \<Rightarrow> bool \<Rightarrow> string \<times> rat" where
  \<open>watch_up resource up = (''cnpg_connect_metadata_watch_up{resource="'' @ resource @ ''"}'', if up then 1 else 0)\<close>

text \<open>
  \<open>oCounters\<close> holds the hits, misses and failures of the CA cache; the counters of the metadata watches and
  of failed CA reads are arguments. The histograms written between the two sets are left out.
\<close>

definition Observer_WriteMetrics ::
  "time \<Rightarrow> clusterKey list \<Rightarrow> clusterKey list \<Rightarrow> nat \<Rightarrow> nat \<Rightarrow> nat \<Rightarrow> nat \<Rightarrow> probe_slots \<Rightarrow> 'd observer \<Rightarrow> (string \<times> rat) list" where
  "Observer_WriteMetrics now order watched watchStarts watchEnds watchErrors caReadFailures ps s =
     (case oCounters s of (hits, misses, failures) \<Rightarrow>
        Store_WriteMetrics now order watched (oStore s) @
        [(''cnpg_connect_probes_active'', of_nat (slotUsed (probeSlots ps)))] @
        map (\<lambda>(name, value). (''cnpg_connect_'' @ name @ ''_total'', of_nat value))
          [(''ca_cache_hits'', hits), (''ca_cache_misses'', misses), (''metadata_watch_starts'', watchStarts),
           (''metadata_watch_ends'', watchEnds), (''metadata_watch_errors'', watchErrors), (''ca_failures'', failures),
           (''ca_read_failures'', caReadFailures), (''probe_slot_saturation'', probeSaturation ps),
           (''probe_slot_cancellations'', probeCancellations ps)] @
        [(''cnpg_connect_observation_queue_depth'', of_nat (Len (oQueue s))),
         watch_up ''clusters'' (oClusterWatch s), watch_up ''pods'' (oPodWatch s), watch_up ''secrets'' (oSecretWatch s)])"

section \<open>The gauges say what clients see\<close>

lemma snapshot_state_bound: "snapshot_state now r < 3"
  by (simp add: snapshot_state_def)

lemma count_records:
  "fold (count_record now) rs ([a, b, c], old) = (states, oldest) \<Longrightarrow>
     states = [a + holders (\<lambda>r. snapshot_state now r = 0) rs, b + holders (\<lambda>r. snapshot_state now r = 1) rs,
       c + holders (\<lambda>r. snapshot_state now r = 2) rs]"
proof (induction rs arbitrary: a b c old)
  case (Cons r rs)
  consider "snapshot_state now r = 0" | "snapshot_state now r = 1" | "snapshot_state now r = 2" using snapshot_state_bound [of now r] by linarith
  then show ?case
  proof cases
    case 1
    then show ?thesis using Cons.prems Cons.IH [of "a + 1"] by (simp add: count_record_def Let_def holders_def)
  next
    case 2
    then show ?thesis using Cons.prems Cons.IH [of a "b + 1"] by (simp add: count_record_def Let_def holders_def)
  next
    case 3
    then show ?thesis using Cons.prems Cons.IH [of a b "c + 1"] by (simp add: count_record_def Let_def holders_def)
  qed
qed (simp add: holders_def)

text \<open>A record counts as available exactly when a read at that moment returns an available snapshot.\<close>

lemma available_read:
  assumes "store_inv H s" and "records s key = Some r"
  shows "snapshot_state now r = 0 \<longleftrightarrow> (\<exists>snap. fst (Get H now key s) = Some snap \<and> sAvailable snap)"
proof -
  have "record_ok H s key r" using assms by (auto elim!: store_invE simp: records_inv_def)
  then have "rExpired r \<Longrightarrow> \<not> sAvailable (pSnapshot (rPublication r))" by (simp add: record_ok_def withdrawn_def Let_def)
  then show ?thesis
    using assms(2) by (simp add: Get_def GetDeferred_def readPublication_def expireRecord_eq is_due_def snapshot_state_def
        expired_record_def invalidate_def case_prod_beta Let_def)
qed

lemma holders_map_card: "distinct xs \<Longrightarrow> holders P (map f xs) = card {x \<in> set xs. P (f x)}"
  by (simp add: holders_def filter_map o_def distinct_card [symmetric] distinct_filter)

text \<open>
  The gauges of snapshots: together they count every stored cluster once, and the available one counts
  exactly the clusters that a client reading at that moment finds available. A scrape changes nothing.
\<close>

theorem snapshot_gauges:
  assumes "store_inv H s" and "distinct order" and "set order = dom (records s)"
  shows "\<exists>available unavailable expired rest.
    map snd (Store_WriteMetrics now order watched s) = of_nat available # of_nat unavailable # of_nat expired # rest \<and>
    available + unavailable + expired = card (dom (records s)) \<and>
    available = card {key. \<exists>snap. fst (Get H now key s) = Some snap \<and> sAvailable snap}"
proof -
  let ?rs = "map (\<lambda>key. the (records s key)) order"
  obtain states oldest where f: "fold (count_record now) ?rs ([0, 0, 0], 0) = (states, oldest)" by fastforce
  note c = count_records [OF this]
  have "holders (\<lambda>r. True) ?rs = holders (\<lambda>r. snapshot_state now r = 0) ?rs + holders (\<lambda>r. snapshot_state now r \<noteq> 0) ?rs"
    by (rule holders_split) auto
  moreover have "holders (\<lambda>r. snapshot_state now r \<noteq> 0) ?rs = holders (\<lambda>r. snapshot_state now r = 1) ?rs + holders (\<lambda>r. snapshot_state now r = 2) ?rs"
    by (rule holders_split) (use snapshot_state_bound in \<open>force simp: less_Suc_eq numeral_eq_Suc\<close>)+
  moreover have "holders (\<lambda>r. True) ?rs = card (dom (records s))"
    using assms(2,3) by (simp add: holders_def distinct_card [symmetric])
  ultimately have sum: "states ! 0 + states ! 1 + states ! 2 = card (dom (records s))" by (simp add: c)
  have "{key \<in> set order. snapshot_state now (the (records s key)) = 0} = {key. \<exists>snap. fst (Get H now key s) = Some snap \<and> sAvailable snap}"
  proof (intro set_eqI)
    fix key
    show "key \<in> {key \<in> set order. snapshot_state now (the (records s key)) = 0} \<longleftrightarrow> key \<in> {key. \<exists>snap. fst (Get H now key s) = Some snap \<and> sAvailable snap}"
    proof (cases "records s key")
      case None
      then show ?thesis using assms(3) by (auto simp: Get_def GetDeferred_def readPublication_def)
    next
      case (Some r)
      then show ?thesis using available_read [OF assms(1) Some, of now] assms(3) by auto
    qed
  qed
  then have "states ! 0 = card {key. \<exists>snap. fst (Get H now key s) = Some snap \<and> sAvailable snap}"
    using assms(2) by (simp add: c holders_map_card)
  then show ?thesis using sum f by (intro exI [of _ "states ! 0"] exI [of _ "states ! 1"] exI [of _ "states ! 2"])
      (simp add: Store_WriteMetrics_def Let_def)
qed

text \<open>In every reachable state of the admission, the slots in use are within the limit beside them.\<close>

lemma admission_gauges:
  assumes "adm_reach limits authorize (a, rs)"
  shows "slotUsed (aRpcs a) \<le> slotCap (aRpcs a)" "slotUsed (aWatches a) \<le> slotCap (aWatches a)"
  using adm_reach_inv [OF assms] by (simp_all add: adm_inv_def chan.accounts_def)

end
