(* ===== verification/Assembly.thy ===== *)
theory Assembly
  imports Plugin_Hooks Settings Http_Boundary Metrics
begin

text \<open>
  What \<open>Run\<close> of \<open>internal/server/run.go\<close> builds between its listeners and its workers: the gRPC server of the
  operator's port with the options of \<open>grpcOptions\<close> and its stream interceptor, the discovery server behind the
  admission, and the health server. The composition with \<open>run\<close> of \<open>main.go\<close> shows which requests a process
  serves that was started with given settings. The gRPC and HTTP servers themselves are library code.
\<close>

section \<open>Server options\<close>

datatype 'tls server_option =
    SharedWriteBuffer bool
  | MaxRecvMsgSize nat
  | ConnectionTimeout duration
  | StreamInterceptor
  | KeepaliveParams duration duration
  | Creds 'tls
  | StatsHandler

definition grpcOptions :: "'tls option \<Rightarrow> 'tls server_option list" where
  "grpcOptions tls =
     [SharedWriteBuffer True, MaxRecvMsgSize (4 * 2 ^ 20), ConnectionTimeout (5 * Second), StreamInterceptor,
      KeepaliveParams (5 * Minute) (30 * Second)] @
     (case tls of None \<Rightarrow> [] | Some c \<Rightarrow> [Creds c])"

definition admission_options :: "'tls server_option list" where
  "admission_options = [MaxRecvMsgSize (64 * 1024), StatsHandler]"

record health_server =
  hsReadHeaderTimeout :: duration
  hsWriteTimeout :: duration
  hsIdleTimeout :: duration
  hsMaxHeaderBytes :: nat

definition healthServer :: health_server where
  "healthServer = \<lparr>hsReadHeaderTimeout = 3 * Second, hsWriteTimeout = 3 * Second, hsIdleTimeout = 30 * Second, hsMaxHeaderBytes = 4 * 1024\<rparr>"

text \<open>
  The metrics of a scrape: the admission's, then the observer's. The clock, the orders of iteration and the count of
  failed CA reads are those of \<open>Observer_WriteMetrics\<close>.
\<close>

definition health_metrics ::
  "time \<Rightarrow> clusterKey list \<Rightarrow> clusterKey list \<Rightarrow> nat \<Rightarrow> 'c admission \<Rightarrow> metadata_watches \<Rightarrow> probe_slots \<Rightarrow> 'd observer \<Rightarrow> (string \<times> rat) list" where
  "health_metrics now order watched caReadFailures a w ps s =
     admission_WriteMetrics a @
     Observer_WriteMetrics now order watched (watchStarts w) (watchEnds w) (watchErrors w) caReadFailures ps (with_watches w s)"

section \<open>The stream interceptor\<close>

text \<open>
  A stream of the operator's port: its client's context, the process context, the context given to the handler, the
  \<open>AfterFunc\<close> that links them (armed, run, or stopped), and whether the handler has returned.
\<close>

datatype after_func = Armed | Ran | Stopped

record intercepted =
  icClientDone :: bool
  icRunDone :: bool
  icCancelled :: bool
  icAfter :: after_func
  icReturned :: bool

definition intercept :: "bool \<Rightarrow> bool \<Rightarrow> intercepted" where
  "intercept client run = \<lparr>icClientDone = client, icRunDone = run, icCancelled = False, icAfter = Armed, icReturned = False\<rparr>"

text \<open>\<open>shutdownStream.Context\<close> is derived from the stream's: it is done when that is, or when cancelled.\<close>

definition shutdownStream_done :: "intercepted \<Rightarrow> bool" where
  "shutdownStream_done x \<longleftrightarrow> icClientDone x \<or> icCancelled x"

definition after_runs :: "intercepted \<Rightarrow> intercepted" where
  "after_runs x = x\<lparr>icAfter := Ran, icCancelled := True\<rparr>"

text \<open>The deferred calls of the interceptor: \<open>cancel\<close>, then \<open>stop\<close>, which has no effect on a function that has run.\<close>

definition interceptor_returns :: "intercepted \<Rightarrow> intercepted" where
  "interceptor_returns x = x\<lparr>icCancelled := True, icAfter := (if icAfter x = Armed then Stopped else icAfter x), icReturned := True\<rparr>"

inductive ic_step :: "intercepted \<Rightarrow> intercepted \<Rightarrow> bool" where
  client: "ic_step x (x\<lparr>icClientDone := True\<rparr>)"
| run: "ic_step x (x\<lparr>icRunDone := True\<rparr>)"
| after: "icRunDone x \<Longrightarrow> icAfter x = Armed \<Longrightarrow> ic_step x (after_runs x)"
| returns: "\<not> icReturned x \<Longrightarrow> ic_step x (interceptor_returns x)"

inductive ic_reach :: "intercepted \<Rightarrow> bool" where
  start: "ic_reach (intercept client run)"
| step: "ic_reach x \<Longrightarrow> ic_step x y \<Longrightarrow> ic_reach y"

definition ic_inv :: "intercepted \<Rightarrow> bool" where
  "ic_inv x \<longleftrightarrow> (icAfter x = Ran \<longrightarrow> icRunDone x \<and> icCancelled x) \<and> (\<not> icReturned x \<and> icCancelled x \<longrightarrow> icAfter x = Ran) \<and>
     (icAfter x = Stopped \<longrightarrow> icReturned x) \<and> (icReturned x \<longrightarrow> icAfter x \<noteq> Armed)"

lemma ic_step_inv:
  assumes "ic_step x y" and "ic_inv x"
  shows "ic_inv y"
  using assms
  by cases (cases "icAfter x"; cases "icReturned x"; cases "icCancelled x"; simp add: ic_inv_def after_runs_def interceptor_returns_def)+

lemma ic_reach_inv: "ic_reach x \<Longrightarrow> ic_inv x"
proof (induction rule: ic_reach.induct)
  case (start client run)
  then show ?case by (simp add: ic_inv_def intercept_def)
qed (rule ic_step_inv)

text \<open>
  While a handler runs, its context ends only with the client's or the process's; when the process stops and
  the context has not ended, the linking function is about to end it, so a graceful stop does not wait for a handler that
  obeys its context; and a handler that has returned leaves no link behind.
\<close>

lemma stream_shutdown:
  assumes "ic_reach x"
  shows "\<not> icReturned x \<Longrightarrow> shutdownStream_done x \<Longrightarrow> icClientDone x \<or> icRunDone x"
    and "\<not> icReturned x \<Longrightarrow> icRunDone x \<Longrightarrow> shutdownStream_done x \<or> ic_step x (after_runs x) \<and> shutdownStream_done (after_runs x)"
    and "icReturned x \<Longrightarrow> icAfter x \<noteq> Armed"
  using ic_reach_inv [OF assms] ic_step.after [of x]
  by (auto simp: ic_inv_def shutdownStream_done_def after_runs_def) (metis after_func.exhaust)

section \<open>The assembled servers\<close>

text \<open>
  The part of \<open>Run\<close> up to its workers: the admission and the listeners, whose errors end it, then the three
  servers. \<open>ok\<close> says which \<open>net.Listen\<close> succeeds, and \<open>notify\<close> is the notifier of the observer.
\<close>

record ('cert, 'pool, 's) assembled =
  asOpened :: "string list"
  asPluginOptions :: "('cert, 'pool) tls_config server_option list"
  asService :: "'s Service"
  asAdmission :: "metadata admission"
  asDiscoveryOptions :: "('cert, 'pool) tls_config server_option list"
  asDiscoveryHTTP :: http_server
  asHealth :: health_server

definition Run_assemble :: "(string \<Rightarrow> 'h) \<Rightarrow> bool \<Rightarrow> bool \<Rightarrow> bool \<Rightarrow> ('cert, 'pool, 'h) run_options \<Rightarrow> (string \<Rightarrow> string \<Rightarrow> 's \<Rightarrow> 's)
    \<Rightarrow> (run_error \<times> string list) + ('cert, 'pool, 's) assembled" where
  "Run_assemble sha ok1 ok2 ok3 ro notify =
     (case newAdmission (roLimits ro) (Some (Authorize sha (roDiscovery ro))) of
        Inl e \<Rightarrow> Inl (BadLimits e, [])
      | Inr a \<Rightarrow>
          (case Run_listen (roLimits ro) ok1 ok2 ok3 of
             Inl e \<Rightarrow> Inl e
           | Inr opened \<Rightarrow> Inr
               \<lparr>asOpened = opened, asPluginOptions = grpcOptions (roPluginTLS ro), asService = Register (roVersion ro) (Some notify),
                asAdmission = a, asDiscoveryOptions = admission_options, asDiscoveryHTTP = discoveryHTTPServer a (roDiscoveryTLS ro \<noteq> None),
                asHealth = healthServer\<rparr>))"

lemma adm_reach_authorize: "adm_reach limits f (a, rs) \<Longrightarrow> aAuthorize a = f"
proof (induction "(a, rs)" arbitrary: a rs rule: adm_reach.induct)
  case (step \<sigma> a rs)
  have rpc: "aAuthorize b' = aAuthorize b" if "admit_rpc parentErr parent b = (e, b')" for parentErr parent b e and b' :: "'a admission"
    using that by (auto simp: admit_rpc_def split: option.splits)
  have watch: "aAuthorize b' = aAuthorize b" if "admit_watch b = Some (e, b')" for b e and b' :: "'a admission"
    using that by (auto simp: admit_watch_def split: option.splits)
  from step.hyps(3) step.hyps(2) show ?case
    by cases (auto simp: timer_fires_def finish_def dest!: rpc watch split: option.splits if_splits)
qed (auto simp: newAdmission_def split: sum.splits)

text \<open>
  The first request of a process is admitted by what its settings say.
\<close>

lemma served_token:
  assumes "main_run M now args = Serves ro n" and "parseSettings (mFlags M) args = Flags s"
  shows "\<exists>token. roDiscovery ro = NewServer (mSHA M) token \<and>
    (if authTokenFile s = [] then token = [] else ReadToken (mFile M (authTokenFile s)) = Inr token)"
proof -
  obtain cred where c: "load_credentials (mTLS M) (mFile M) now s = Inr cred" and r: "roDiscovery ro = NewServer (mSHA M) (credToken cred)"
    and ok: "settings_ok s"
    using main_runE [OF assms(1)] assms(2) by (metis parsed.inject(2) run_options.select_convs(8))
  have "if authTokenFile s = [] then credToken cred = [] else ReadToken (mFile M (authTokenFile s)) = Inr (credToken cred)"
    using c ok by (auto simp: load_credentials_def settings_ok_def split: if_splits sum.splits)
  with r show ?thesis by blast
qed

lemma admit_authorized:
  "admit parentErr parent path a = Some (Inr r, a') \<Longrightarrow> aAuthorize a = Some f \<Longrightarrow> f parent = None"
  by (auto simp: admit_def admit_rpc_def split: option.splits prod.splits if_splits)

lemma authorized_bearer:
  assumes "Authorize sha (NewServer sha token) md = None" and "token \<noteq> []"
  shows "\<exists>scheme t. md ''authorization'' = Some [scheme @ CHR '' '' # t] \<and> EqualFold scheme ''Bearer'' \<and> sha t = sha token"
  using assms authorize_exact [of sha token "ValueFromIncomingContext md ''authorization''"]
  by (auto simp: Authorize_def ValueFromIncomingContext_def split: option.splits)

lemma plugin_port:
  assumes "load_credentials X files now s = Inr cred" and "settings_ok s" and "\<not> insecure s"
  shows "\<exists>cfg. credPlugin cred = Some cfg \<and> cfgMinVersion cfg = VersionTLS13 \<and> cfgClientTrust cfg \<noteq> None"
  using assms tls_load_hardened [of X now "serverCert s" "serverKey s" "clientCA s"]
  by (auto simp: load_credentials_def TLSConfig_def settings_ok_def split: if_splits sum.splits)

lemma discovery_port:
  "load_credentials X files now s = Inr cred \<Longrightarrow> credDiscovery cred = None \<longleftrightarrow> insecure s \<or> discoveryPlaintext s"
  by (auto simp: load_credentials_def split: if_splits sum.splits)

text \<open>
  C26: a process serves only what its settings allow. Whatever process \<open>run\<close> starts comes from accepted settings. At
  any later time, with a token file configured, every discovery request that is admitted carries exactly one
  authorization value, a bearer credential with the digest of the token that was in the file. The operator's port demands
  TLS 1.3 and a client certificate, and the discovery port speaks cleartext HTTP/2 only in insecure mode or, for the
  latter, behind a gateway. The streams of a connection are bounded by the configured limit or its default, and
  the hooks of the operator's port notify the observer.
\<close>

theorem process_guarded:
  assumes "main_run M now args = Serves ro n" and "Run_assemble (mSHA M) ok1 ok2 ok3 ro notify = Inr servers"
    and "adm_reach (roLimits ro) (aAuthorize (asAdmission servers)) (a, rs)"
  shows "\<exists>s. parseSettings (mFlags M) args = Flags s \<and> settings_ok s \<and>
    (\<forall>N req r a'. handler_begin N req a = Some (Inr r, a') \<and> authTokenFile s \<noteq> [] \<longrightarrow>
       (\<exists>token scheme t. ReadToken (mFile M (authTokenFile s)) = Inr token \<and>
          incoming_metadata (reqHeader req) ''authorization'' = Some [scheme @ CHR '' '' # t] \<and>
          EqualFold scheme ''Bearer'' \<and> mSHA M t = mSHA M token)) \<and>
    (insecure s \<or> (\<exists>cfg. Creds cfg \<in> set (asPluginOptions servers) \<and> cfgMinVersion cfg = VersionTLS13 \<and> cfgClientTrust cfg \<noteq> None)) \<and>
    (srvUnencryptedHTTP2 (asDiscoveryHTTP servers) \<longleftrightarrow> insecure s \<or> discoveryPlaintext s) \<and>
    srvMaxConcurrentStreams (asDiscoveryHTTP servers) = MaxConcurrentStreams (with_defaults (set_limits s)) \<and>
    svNotifier (asService servers) = Some notify"
proof -
  obtain s cred where p: "parseSettings (mFlags M) args = Flags s" and ok: "settings_ok s" and c: "load_credentials (mTLS M) (mFile M) now s = Inr cred"
    and ro: "roPluginTLS ro = credPlugin cred" "roDiscoveryTLS ro = credDiscovery cred" "roLimits ro = set_limits s"
    using main_runE [OF assms(1)] by (metis run_options.select_convs(4,5,7))
  obtain token where srv: "roDiscovery ro = NewServer (mSHA M) token"
    and token: "if authTokenFile s = [] then token = [] else ReadToken (mFile M (authTokenFile s)) = Inr token"
    using served_token [OF assms(1) p] by blast
  obtain b where b: "newAdmission (roLimits ro) (Some (Authorize (mSHA M) (roDiscovery ro))) = Inr b"
    and as: "asPluginOptions servers = grpcOptions (roPluginTLS ro)" "asService servers = Register (roVersion ro) (Some notify)"
      "asDiscoveryHTTP servers = discoveryHTTPServer b (roDiscoveryTLS ro \<noteq> None)" "asAdmission servers = b"
    using assms(2) by (auto simp: Run_assemble_def split: sum.splits)
  have auth: "aAuthorize a = Some (Authorize (mSHA M) (NewServer (mSHA M) token))"
    using adm_reach_authorize [OF assms(3)] adm_reach_authorize [OF adm_reach.start [OF b]] srv as(4) by simp
  have bearer: "\<exists>token scheme t. ReadToken (mFile M (authTokenFile s)) = Inr token \<and>
      incoming_metadata (reqHeader req) ''authorization'' = Some [scheme @ CHR '' '' # t] \<and> EqualFold scheme ''Bearer'' \<and> mSHA M t = mSHA M token"
    if "handler_begin N req a = Some (Inr r, a')" and f: "authTokenFile s \<noteq> []" for N req r a'
  proof -
    have "admit (reqErr req) (incoming_metadata (reqHeader req)) (reqPath req) a = Some (Inr r, a')"
      using that(1) by (auto simp: handler_begin_def split: option.splits sum.splits)
    then have "Authorize (mSHA M) (NewServer (mSHA M) token) (incoming_metadata (reqHeader req)) = None"
      using admit_authorized auth by metis
    with authorized_bearer token_nonempty f token show ?thesis by (metis (full_types))
  qed
  have "aLimits b = with_defaults (set_limits s)" using b ro by (auto simp: newAdmission_def normalized_eq split: sum.splits)
  then have "srvMaxConcurrentStreams (asDiscoveryHTTP servers) = MaxConcurrentStreams (with_defaults (set_limits s))"
    "srvUnencryptedHTTP2 (asDiscoveryHTTP servers) \<longleftrightarrow> insecure s \<or> discoveryPlaintext s"
    using discovery_port [OF c] by (simp_all add: as ro discoveryHTTPServer_def)
  moreover have "insecure s \<or> (\<exists>cfg. Creds cfg \<in> set (asPluginOptions servers) \<and> cfgMinVersion cfg = VersionTLS13 \<and> cfgClientTrust cfg \<noteq> None)"
    using plugin_port [OF c ok] by (force simp: as ro grpcOptions_def)
  moreover have "svNotifier (asService servers) = Some notify" by (simp add: as Register_def)
  ultimately show ?thesis using p ok bearer by blast
qed

definition example_menv :: "(string, nat, nat, nat) menv" where
  "example_menv = \<lparr>mVersion = ''1.0'', mFlags = decimal, mSHA = id, mTLS = example_tls, mFile = (\<lambda>f. Some example_token), mRand = Some [1], mKube = (\<lambda>_. None),
     mClients = (\<lambda>_. None), mRegister = (\<lambda>_. True)\<rparr>"

definition example_args :: "string list" where
  "example_args = [''-server-cert'', ''server.crt'', ''--server-key=server.key'', ''--client-ca'', ''client.crt'', ''--discovery-plaintext'',
     ''--auth-token-file'', ''token'']"

lemma example_parsed: "parseSettings (mFlags example_menv) example_args = Flags example_settings"
  by (simp add: parseSettings_def flags_result_def parse_finish_def example_args_def example_menv_def flags_loop.simps flag_token_def flag_names_def
      set_flag_def flag_tables ParseBool_def example_settings_def default_settings_def)

lemma example_serves: "\<exists>ro n. main_run example_menv 15 example_args = (Serves ro n :: (nat, nat, string, nat) main_outcome) \<and> roLimits ro = DefaultLimits"
proof -
  have p: "parseSettings decimal example_args = Flags example_settings" using example_parsed by (simp add: example_menv_def)
  have "settings_ok example_settings"
    by (simp add: settings_ok_def example_settings_def default_settings_def default_limits_ok MaxFloat32_def)
  then have v: "settings_validate example_settings = None" and o: "New_options (options_of example_settings) = Inr (options_of example_settings)"
    by (simp_all add: validate_exact options_accepted)
  obtain cred where c: "load_credentials example_tls (\<lambda>f. Some example_token) 15 example_settings = Inr cred"
    using example_credentials by blast
  obtain store :: "nat store" where st: "NewStore (Some [1]) = Some store" by (simp add: NewStore_def)
  obtain n where n: "New True True True (Some store) (\<lambda>_. True) (options_of example_settings) = Inr n"
    using New_exact [of True True True "Some store" "\<lambda>_. True" "options_of example_settings"] o by auto
  have "\<not> showVersion example_settings" "set_limits example_settings = DefaultLimits" by (simp_all add: example_settings_def default_settings_def)
  then show ?thesis by (simp add: main_run_def p v example_menv_def c st n)
qed

lemma stranger_unauthorized: "incoming_metadata (reqHeader stranger) ''authorization'' \<noteq> Some [scheme @ CHR '' '' # example_token]"
proof -
  have "incoming_metadata (reqHeader stranger) ''authorization'' = Some [''Bearer guess'']" by code_simp
  moreover have "length ''Bearer guess'' < length (scheme @ CHR '' '' # example_token)" by (simp add: example_token_def)
  ultimately show ?thesis by (metis list.inject option.inject less_irrefl)
qed

text \<open>The same stranger as at the HTTP boundary: its request has no credential.\<close>

theorem process_guarded_witness:
  "\<exists>ro (n :: nat new_observer) (servers :: (nat, nat, sample_observer_state) assembled).
     main_run example_menv 15 example_args = Serves ro n \<and>
     Run_assemble id True True True ro (Notify sample_env) = Inr servers \<and>
     srvUnencryptedHTTP2 (asDiscoveryHTTP servers) \<and> srvMaxConcurrentStreams (asDiscoveryHTTP servers) = 128 \<and>
     (\<nexists>N r a'. handler_begin N stranger (asAdmission servers) = Some (Inr r, a'))"
proof -
  obtain ro and n :: "nat new_observer" where r: "main_run example_menv 15 example_args = Serves ro n" "roLimits ro = DefaultLimits"
    using example_serves by blast
  have norm: "normalized DefaultLimits = Inr (with_defaults DefaultLimits)" by (simp add: normalized_eq default_limits_ok)
  then obtain servers :: "(nat, nat, sample_observer_state) assembled" where s: "Run_assemble id True True True ro (Notify sample_env) = Inr servers"
    by (simp add: Run_assemble_def newAdmission_def r(2) Run_listen_def)
  then have a: "newAdmission (roLimits ro) (Some (Authorize id (roDiscovery ro))) = Inr (asAdmission servers)"
    by (auto simp: Run_assemble_def split: sum.splits)
  note p = example_parsed
  have sha: "mSHA example_menv = id" by (simp add: example_menv_def)
  have e: "authTokenFile example_settings \<noteq> []" "discoveryPlaintext example_settings" "set_limits example_settings = DefaultLimits"
    by (simp_all add: example_settings_def default_settings_def)
  have adm: "adm_reach (roLimits ro) (aAuthorize (asAdmission servers)) (asAdmission servers, [])"
    using adm_reach.start [OF a] adm_reach_authorize [OF adm_reach.start [OF a]] by simp
  note g = process_guarded [OF r(1) s [folded sha] adm, unfolded p parsed.inject]
  have no: "handler_begin N stranger (asAdmission servers) \<noteq> Some (Inr x, a')" for N x a'
  proof
    assume "handler_begin N stranger (asAdmission servers) = Some (Inr x, a')"
    then obtain token scheme t where "ReadToken (mFile example_menv (authTokenFile example_settings)) = Inr token"
      "incoming_metadata (reqHeader stranger) ''authorization'' = Some [scheme @ CHR '' '' # t]" "mSHA example_menv t = mSHA example_menv token"
      using g e(1) by metis
    then show False using stranger_unauthorized [of scheme] by (simp add: example_menv_def example_token_read)
  qed
  have "srvUnencryptedHTTP2 (asDiscoveryHTTP servers)" "srvMaxConcurrentStreams (asDiscoveryHTTP servers) = MaxConcurrentStreams (with_defaults DefaultLimits)"
    using g e(2,3) by auto
  then show ?thesis using r(1) s no by (intro exI [of _ ro] exI [of _ n] exI [of _ servers]) (auto simp: with_defaults_def DefaultLimits_def)
qed

end
