(* ===== verification/Spec2Isabelle.thy ===== *)
theory Spec2Isabelle
  imports Queue_Props Worker Observation Public_CA Client_View Commit_Log Assembly
begin

text \<open>
  \<^bold>\<open>The CNPG connect plugin\<close>

  The program watches CloudNativePG Clusters and serves, over gRPC, which PostgreSQL instance of a
  Cluster is the verified primary and which standbys are usable. Applications route by what it says, so
  it must fail closed: no route that was not verified, that has expired, or that the metadata has
  contradicted since. This development models its Go code under \<open>src/\<close> and proves what makes it correct.

  \<^bold>\<open>Parts and how they interact\<close>

  The \<^emph>\<open>observer\<close> (\<open>internal/observer\<close>) keeps caches of Clusters, Pods and Secret metadata; their events withdraw
  routes and put Clusters on a queue; workers take Clusters from the queue, probe the instances over HTTPS with
  the Cluster's CA, and commit snapshots to the \<^emph>\<open>store\<close> (\<open>internal/discovery\<close>), which hands
  them to watchers and unary callers of the gRPC service and withdraws them when they expire. Demand
  flows the other way: only Clusters that somebody asks for are probed. The \<^emph>\<open>server\<close> (\<open>internal/server\<close>) bounds and authenticates
  what reaches the service and supervises the process; the \<^emph>\<open>plugin\<close> (\<open>internal/plugin\<close>) turns hooks of
  the operator into requests for observation; \<open>cmd/cnpg-connect-plugin\<close> validates the command line and wires all of it.

  \<^bold>\<open>How the model corresponds to the code\<close>

  A struct is a record, an operation a function of the same name, an error a value. A section of code
  that runs under a lock is one function on the state; what the code does outside the lock (deliveries,
  I/O, channel operations) are separate steps of a relation, so that interleavings are covered at that granularity. It is
  coarser than the code in three places: a handler of the observer that makes several calls to the store runs under \<open>stateMu\<close>, but
  readers of the store may come in between its calls, while here the handler is one step (\<open>obs_run\<close>); the checks of a
  worker before it observes (\<open>work_begin\<close>), under three locks in turn, are one step; and so are the two receives
  of the function that returns a probe slot.
  Panics (index out of range, closed channels, a ticker without interval) are values that the theorems
  rule out or name. Time is an integer of nanoseconds, durations of the command line are 64-bit words where
  overflow matters, byte strings are strings. Event counters and orders of publications, 64-bit in the code, are natural numbers:
  they would need \<open>2\<^sup>6\<^sup>4\<close> events to wrap around. Code of other modules is a parameter: hash functions, the JSON scanner,
  PEM and X.509, HTTP exchanges, Kubernetes accessors, the reading of numbers on the command line, the clock, gRPC's status numbers.

  \<^descr>[Prelude] times, channels, decimal rendering and shared list and map lemmas.
  \<^descr>[Api\_Types, Publication] \<open>api/v1/types.go\<close>, \<open>discovery/publication.go\<close>: snapshots, their wire form, mailboxes of
    watchers. Delivery never blocks, keeps only the newest publication and never panics.
  \<^descr>[Store, Store\_Concurrency, Store\_Props] \<open>discovery/store.go\<close>: all operations with an invariant that each preserves;
    the concurrent system of commits, deliveries, receives and cancellations; reads fail closed,
    watchers never go back and catch up, revisions are unique.
  \<^descr>[Queue, Queue\_Props] \<open>observer/queue.go\<close>: the two lanes; the \<open>coalescing_queue\<close> contract, fairness bounds, no lost work, drain.
  \<^descr>[Go\_Json, Config] \<open>config/cluster.go\<close>: decoding of JSON into structs as Go does it, and the exact set of accepted parameters.
  \<^descr>[Topology, Topology\_Props, Evidence] \<open>topology.go\<close>, \<open>status.go\<close>, \<open>primary_evidence.go\<close>: when a snapshot is available,
    when a member is ready, and how long evidence of a second primary persists.
  \<^descr>[Observer, Observer\_Effects, Observer\_System, Observer\_Props] \<open>events.go\<close>, \<open>connection.go\<close>, \<open>collection.go\<close>, \<open>observer.go\<close>:
    the handlers; that they refine the concurrent store, that every stored route was verified, and
    that publication requires current metadata, CA and context.
  \<^descr>[Slots, Probes, Worker, Collection, Observation, Lifecycle] \<open>work.go\<close>, \<open>collection.go\<close>, \<open>observer.go\<close>: semaphores as a locale
    with the probe slots and the admission as clients; turns of the workers; the collection of all instances, which is
    complete, fails fast and ends; an observation from its start to its publication, whose route the primary itself has
    answered for; the start and the shutdown of the observer.
  \<^descr>[Status\_Client, Public\_CA, Cache, Commit\_Log] \<open>status.go\<close>, \<open>connection.go\<close>, \<open>cache.go\<close>, \<open>publication.go\<close>:
    pinned clients, public certificates, projections that keep what routing reads, and the effects after a commit.
  \<^descr>[Watch\_Health, Informers] \<open>watch.go\<close>, \<open>New\<close> of \<open>observer.go\<close>: one watch and its health flag, then the requests, transforms and
    registrations of the three informers, all their watches together, and the construction of the observer. Readiness depends
    on the current watches only.
  \<^descr>[Grpc, Discovery\_Server, Watch\_Stream, Client\_View] \<open>discovery/grpc.go\<close>: the unary call with its two critical sections, the watch and its loop over the
    concurrent store; then both over the observer and the store together: every publication on its way to a client
    is withdrawn or was verified, which gives the theorem of this file.
  \<^descr>[Admission, Http\_Boundary, Transport, Supervisor] \<open>internal/server\<close>: limits, slots and deadlines of requests, the
    response of rejected ones, connection age, credentials read at each handshake, and the supervision of the process.
  \<^descr>[Plugin\_Hooks, Metrics] \<open>plugin.go\<close>, the three \<open>metrics.go\<close>: hooks only schedule, gauges agree with what clients read.
  \<^descr>[Float32, Command\_Line, Settings] \<open>main.go\<close>: flags, which are read back as they are written, validation, which is exact over the
    integers and rounds the request rate as Go does, and \<open>run\<close> up to \<open>server.Run\<close>.
  \<^descr>[Assembly] \<open>run.go\<close>: the servers that \<open>Run\<close> builds from its options, the stream interceptor, and the composition with
    \<open>main.go\<close>: which requests a process serves that was started with given arguments.

  \<^bold>\<open>Interfaces\<close>

  Locales state what a component relies on: \<open>latest_mailbox\<close> (a mailbox that keeps the newest item) is
  interpreted by the subscriptions of the store, \<open>coalescing_queue\<close> by the priority queue, \<open>semaphore\<close>
  by the buffered channels behind the probe slots and the admission, and \<open>notifier\<close> (what the hooks
  expect of whom they notify) by the observer. The observer uses the store only through the relation \<open>commits\<close>, so that its refinement is one lemma per handler.

  \<^bold>\<open>Termination and bounds\<close>

  No fuel is used. Loops over data are structural recursion or have a measure; \<open>public_blocks\<close>, whose loop ends
  only if PEM decoding consumes its input, is a \<open>partial_function\<close> and is proved to return under that assumption.
  For waiting code (drain of the queue, collection, shutdown) the theorems give a measure that every
  step of that code decreases, that nothing else increases, and that some step is possible until it is zero.

  \<^bold>\<open>Not modelled\<close>

  The internals of client-go: reflectors and informer caches between a request and an event, the delaying and rate limiting
  queue, the clients; the HTTP/2, TLS and gRPC transports behind the options passed to them; histograms and the exposition format;
  slog and usage texts; \<open>strconv\<close> and \<open>time.ParseDuration\<close>; signals and exit codes in \<open>main\<close>; the
  generated protobuf code. They are library or generated code: where the program depends on what
  they do, it is a step of the environment or a parameter with a named assumption. Go's memory model is
  taken to be sequentially consistent at the granularity of critical sections and atomic operations.
\<close>

section \<open>What a client is told\<close>

text \<open>
  C2: every route a client is told was verified and is for the Cluster it asked for. In every reachable state of the observer
  and the store together, whatever the informer caches, the watches and other clients do: if the unary call answers with
  a route, that route is within its validity and was built by an observation with exactly one verified
  primary, agreeing with a Cluster of the same identity; and whatever a watch stream sends next, of a publication taken from its mailbox, however
  long ago that was committed, is newer than what it sent before, is of the Cluster it watches, and if it offers a route, the route was
  verified in the same sense and was within its validity when it was checked (what has the reason \<open>deleted\<close> is sent without
  that check). The unary call reads this state in its second critical section; what its first one found, \<open>st0\<close>, is arbitrary.
\<close>

theorem client_routes_verified:
  assumes "obs_reach E (s, y)" and "routing D = digest E"
  shows "(\<forall>srv vals ns name now1 now2 st0 pb demand st1 st.
       GetTopology D srv vals ns name now1 now2 st0 (sysStore y) = (Inr pb, demand, st1, st) \<longrightarrow>
       (\<exists>p. pb = protobuf (timestamp D) p \<and> snapshot_key (pSnapshot p) = ClusterKey ns name \<and>
          (withdrawn (pSnapshot p) \<or> now2 < sValidUntil (pSnapshot p) \<and> verified_route E (pSnapshot p)))) \<and>
    (\<forall>w p now1 now2 lastSent q n st.
       p \<in> set (received y w) \<and> watch_iteration (digest E) now1 now2 p lastSent (sysStore y) = (Some q, n, st) \<longrightarrow>
       lastSent < pOrder q \<and> owner y w = Some (snapshot_key (pSnapshot q)) \<and>
       (withdrawn (pSnapshot q) \<or>
        verified_route E (pSnapshot q) \<and> (sReason (pSnapshot q) = ''deleted'' \<or> checked_at now1 now2 p < sValidUntil (pSnapshot q))))"
proof -
  have reach: "sys_reach (digest E) y" using obs_reach_sys [OF assms(1)] by simp
  have inv: "store_inv (digest E) (sysStore y)" using sys_reach_inv [OF reach] by (simp add: sys_inv_def)
  have stream: "lastSent < pOrder q \<and> owner y w = Some (snapshot_key (pSnapshot q)) \<and>
       (withdrawn (pSnapshot q) \<or>
        verified_route E (pSnapshot q) \<and> (sReason (pSnapshot q) = ''deleted'' \<or> checked_at now1 now2 p < sValidUntil (pSnapshot q)))"
    if "p \<in> set (received y w)" and it: "watch_iteration (digest E) now1 now2 p lastSent (sysStore y) = (Some q, n, st)" for w p now1 now2 lastSent q n st
  proof -
    have "owner y w = Some (snapshot_key (pSnapshot p))" using identity_reach [OF reach] that(1) by (auto simp: identity_inv_def)
    then show ?thesis using watch_iteration_sent [OF it inv] iteration_justified [OF assms(1) that] justified_verified by metis
  qed
  have unary: "\<exists>p. pb = protobuf (timestamp D) p \<and> snapshot_key (pSnapshot p) = ClusterKey ns name \<and>
          (withdrawn (pSnapshot p) \<or> now2 < sValidUntil (pSnapshot p) \<and> verified_route E (pSnapshot p))"
    if "GetTopology D srv vals ns name now1 now2 st0 (sysStore y) = (Inr pb, demand, st1, st)" for srv vals ns name now1 now2 st0 pb demand st1 st
    using unary_justified [OF assms that] justified_verified by blast
  show ?thesis using stream unary by blast
qed

theorem client_routes_verified_witness:
  "\<exists>q n st. watch_iteration sample_digest 102 102 client_got 0 (sysStore client_system) = (Some q, n, st) \<and>
     sAvailable (pSnapshot q) \<and> verified_route sample_env (pSnapshot q) \<and> snapshot_key (pSnapshot q) = app_key \<and>
     (\<exists>p. projr (fst (GetTopology (sample_denv\<lparr>routing := sample_digest\<rparr>) (NewServer id []) [] ''db'' ''app'' 103 104 (sysStore client_system) (sysStore client_system))) =
        protobuf id p \<and> 104 < sValidUntil (pSnapshot p) \<and> verified_route sample_env (pSnapshot p))"
proof -
  let ?D = "sample_denv\<lparr>routing := sample_digest\<rparr>" and ?y = "sysStore client_system"
  let ?unary = "GetTopology ?D (NewServer id []) [] ''db'' ''app'' 103 104 ?y ?y"
  have D: "routing ?D = digest sample_env" "timestamp ?D = id" by (simp_all add: sample_env_def sample_denv_def)
  note c = client_routes_verified [OF client_system_reach D(1)]
  have "fst (watch_iteration sample_digest 102 102 client_got 0 ?y) \<noteq> None"
    "sAvailable (pSnapshot (the (fst (watch_iteration sample_digest 102 102 client_got 0 ?y))))"
    "snapshot_key (pSnapshot (the (fst (watch_iteration sample_digest 102 102 client_got 0 ?y)))) = app_key"
    "received client_system 0 \<noteq> []" by code_simp+
  then obtain q n st where q: "watch_iteration sample_digest 102 102 client_got 0 ?y = (Some q, n, st)" "sAvailable (pSnapshot q)"
    "snapshot_key (pSnapshot q) = app_key" and got: "client_got \<in> set (received client_system 0)"
    by (auto simp: client_got_def) (metis fst_conv option.sel prod.collapse)
  have "\<not> isl (fst ?unary)" "pbAvailable (projr (fst ?unary))" by code_simp+
  then obtain pb d st1 st' where u: "?unary = (Inr pb, d, st1, st')" "pbAvailable pb" by (metis prod.collapse sum.collapse(2))
  have route: "\<not> withdrawn (pSnapshot q)" using q(2) by (simp add: withdrawn_def)
  have "digest sample_env = sample_digest" by (simp add: sample_env_def)
  then have "verified_route sample_env (pSnapshot q)" using c q(1) got route by metis
  moreover obtain p where p: "pb = protobuf id p" "withdrawn (pSnapshot p) \<or> 104 < sValidUntil (pSnapshot p) \<and> verified_route sample_env (pSnapshot p)"
    using c u(1) D(2) by metis
  moreover have "\<not> withdrawn (pSnapshot p)" using u(2) p(1) by (simp add: protobuf_def toProto_def withdrawn_def)
  ultimately show ?thesis using q u(1) by (intro exI [of _ q] exI [of _ n] exI [of _ st]) auto
qed

end
